(* ===== verification/Prelude.thy ===== *)
theory Prelude
  imports Main "HOL-Library.Word"
begin

text \<open>
  Types, error values and generic lemmas shared by every component of the kernel model.
  The kernel is built for i386: \<open>size_t\<close>, \<open>uintptr_t\<close>, \<open>int\<close>, \<open>long\<close> and pointers have 32
  bits, and \<open>char\<close> is a signed byte.
\<close>

unbundle bit_operations_syntax

type_synonym u8 = "8 word"
type_synonym u16 = "16 word"
type_synonym u32 = "32 word"
type_synonym u64 = "64 word"

text \<open>
  How a C function can fail to return: it calls \<open>panic\<close> with a message, or it executes an
  access or an arithmetic step whose result the C standard leaves undefined.
\<close>

datatype kerror = Panic string | Undefined string

named_theorems word_nat "conversions between words and natural numbers"

lemma unat_add_lt [word_nat]:
  fixes a b :: u32
  assumes "unat a + unat b < 2 ^ 32"
  shows "unat (a + b) = unat a + unat b"
  using assms by (simp add: unat_word_ariths)

lemma unat_sub_le [word_nat]:
  fixes a b :: u32
  assumes "unat b \<le> unat a"
  shows "unat (a - b) = unat a - unat b"
  using assms by (simp add: unat_sub_if')

lemma unat_of_nat32 [word_nat]:
  "n < 2 ^ 32 \<Longrightarrow> unat (of_nat n :: u32) = n"
  by (simp add: unat_of_nat take_bit_eq_mod)

lemma of_nat_eq_iff32 [word_nat]:
  "a < 2 ^ 32 \<Longrightarrow> b < 2 ^ 32 \<Longrightarrow> (of_nat a :: u32) = of_nat b \<longleftrightarrow> a = b"
  by (metis unat_of_nat32)

lemma of_nat_less_iff32 [word_nat]:
  "a < 2 ^ 32 \<Longrightarrow> b < 2 ^ 32 \<Longrightarrow> (of_nat a :: u32) < of_nat b \<longleftrightarrow> a < b"
  by (simp add: word_less_nat_alt unat_of_nat32)

lemma unat_less32: "unat (w :: u32) < 2 ^ 32"
  by (rule order_less_le_trans [OF unsigned_less]) simp

lemma unat_less64: "unat (w :: u64) < 2 ^ 64"
  by (rule order_less_le_trans [OF unsigned_less]) simp

lemma unat_mod8 [word_nat]: "unat (a mod (8 :: u32)) = unat a mod 8"
  by (simp add: unat_mod_distrib)

lemma ex_from_split: "(\<exists>j. (i::nat) \<le> j \<and> P j) \<longleftrightarrow> P i \<or> (\<exists>j. i + 1 \<le> j \<and> P j)"
  by (metis Suc_eq_plus1 Suc_leD le_antisym le_refl not_less_eq_eq)

lemma all_from_split: "(\<forall>j. (i::nat) \<le> j \<longrightarrow> P j) \<longleftrightarrow> P i \<and> (\<forall>j. i + 1 \<le> j \<longrightarrow> P j)"
  by (metis Suc_eq_plus1 Suc_leD le_antisym le_refl not_less_eq_eq)

subsection \<open>State machines and their invariants\<close>

text \<open>
  The contract of a component with state: a step relation and a predicate that every step
  keeps. Components interpret it with their own steps; \<open>reach_inv\<close> then speaks about all
  their runs.
\<close>

locale invariant_system =
  fixes step :: "'s \<Rightarrow> 's \<Rightarrow> bool" and inv :: "'s \<Rightarrow> bool"
  assumes step_inv: "step s t \<Longrightarrow> inv s \<Longrightarrow> inv t"
begin

lemma reach_inv: "step\<^sup>*\<^sup>* s t \<Longrightarrow> inv s \<Longrightarrow> inv t"
  by (induction rule: rtranclp_induct) (auto intro: step_inv)

end

end
