(* ===== verification/Gdt.thy ===== *)
theory Gdt
  imports Prelude
begin

text \<open>
  The descriptor arithmetic of kernel/kernel/gdt.c. A failed \<open>assert\<close> is \<open>Inl (Panic ...)\<close>.
  Shifts of 32 bit values are done at 32 bits, as in the code, before the result is widened.
\<close>

unbundle bit_operations_syntax

subsection \<open>Parsing\<close>

definition gdt_parse_base :: "u64 \<Rightarrow> u64" where
  "gdt_parse_base segment =
     (let BASE_LOWER_MASK = push_bit 16 (0xFFFFFF :: u64);
          BASE_UPPER_MASK = push_bit 56 (0xFF :: u64) in
      drop_bit 16 (segment AND BASE_LOWER_MASK)
        OR drop_bit (56 - (16 + 8)) (segment AND BASE_UPPER_MASK))"

definition gdt_parse_limit :: "u64 \<Rightarrow> kerror + u64" where
  "gdt_parse_limit segment =
     (let LIMIT_LOWER_MASK = 0xFFFF; LIMIT_UPPER_MASK = push_bit 48 (0xF :: u64) in
      if LIMIT_UPPER_MASK = 0xF000000000000
      then Inr ((segment AND LIMIT_LOWER_MASK) OR drop_bit 32 (segment AND LIMIT_UPPER_MASK))
      else Inl (Panic ''Doesn't match''))"

subsection \<open>The access byte\<close>

record AccessByte =
  ab_p :: u8
  ab_dpl :: u8
  ab_s :: u8
  ab_e :: u8
  ab_dc :: u8
  ab_rw :: u8
  ab_a :: u8

definition set_p :: "u8 \<Rightarrow> AccessByte \<Rightarrow> kerror + AccessByte" where
  "set_p val b = (if drop_bit 1 val = 0 then Inr (b\<lparr>ab_p := val\<rparr>) else Inl (Panic ''Not one bit''))"

definition set_dpl :: "u8 \<Rightarrow> AccessByte \<Rightarrow> kerror + AccessByte" where
  "set_dpl val b = (if drop_bit 2 val = 0 then Inr (b\<lparr>ab_dpl := val\<rparr>) else Inl (Panic ''Not two bits''))"

definition set_s :: "u8 \<Rightarrow> AccessByte \<Rightarrow> kerror + AccessByte" where
  "set_s val b = (if drop_bit 1 val = 0 then Inr (b\<lparr>ab_s := val\<rparr>) else Inl (Panic ''Not one bit''))"

definition set_e :: "u8 \<Rightarrow> AccessByte \<Rightarrow> kerror + AccessByte" where
  "set_e val b = (if drop_bit 1 val = 0 then Inr (b\<lparr>ab_e := val\<rparr>) else Inl (Panic ''Not one bit''))"

definition set_dc :: "u8 \<Rightarrow> AccessByte \<Rightarrow> kerror + AccessByte" where
  "set_dc val b = (if drop_bit 1 val = 0 then Inr (b\<lparr>ab_dc := val\<rparr>) else Inl (Panic ''Not one bit''))"

definition set_rw :: "u8 \<Rightarrow> AccessByte \<Rightarrow> kerror + AccessByte" where
  "set_rw val b = (if drop_bit 1 val = 0 then Inr (b\<lparr>ab_rw := val\<rparr>) else Inl (Panic ''Not one bit''))"

definition set_a :: "u8 \<Rightarrow> AccessByte \<Rightarrow> kerror + AccessByte" where
  "set_a val b = (if drop_bit 1 val = 0 then Inr (b\<lparr>ab_a := val\<rparr>) else Inl (Panic ''Not one bit''))"

definition thenE :: "'e + 'a \<Rightarrow> ('a \<Rightarrow> 'e + 'b) \<Rightarrow> 'e + 'b" where
  "thenE r f = (case r of Inl e \<Rightarrow> Inl e | Inr x \<Rightarrow> f x)"

lemma thenE_simps [simp]: "thenE (Inl e) f = Inl e" "thenE (Inr x) f = f x"
  by (simp_all add: thenE_def)

text \<open>The seven setters in the order the callers use them.\<close>

definition set_access_byte ::
  "u8 \<Rightarrow> u8 \<Rightarrow> u8 \<Rightarrow> u8 \<Rightarrow> u8 \<Rightarrow> u8 \<Rightarrow> u8 \<Rightarrow> AccessByte \<Rightarrow> kerror + AccessByte" where
  "set_access_byte p dpl s e dc rw a b =
     thenE (set_p p b) (\<lambda>b. thenE (set_dpl dpl b) (\<lambda>b. thenE (set_s s b) (\<lambda>b. thenE (set_e e b)
       (\<lambda>b. thenE (set_dc dc b) (\<lambda>b. thenE (set_rw rw b) (\<lambda>b. set_a a b))))))"

definition get_binary_from_access_byte :: "AccessByte \<Rightarrow> u8" where
  "get_binary_from_access_byte b =
     push_bit 0 (ab_a b) OR push_bit 1 (ab_rw b) OR push_bit 2 (ab_dc b) OR push_bit 3 (ab_e b)
       OR push_bit 4 (ab_s b) OR push_bit 5 (ab_dpl b AND 0x3) OR push_bit 7 (ab_p b)"

subsection \<open>Building descriptors\<close>

definition insert_base :: "u32 \<Rightarrow> u64" where
  "insert_base base =
     ucast (push_bit 16 (base AND 0xFFFFFF)) OR push_bit 56 (drop_bit 24 (ucast base))"

definition insert_limit :: "u32 \<Rightarrow> kerror + u64" where
  "insert_limit limit =
     (if drop_bit 20 limit = 0
      then Inr (ucast (limit AND 0xFFFF) OR push_bit 48 (drop_bit 16 (ucast limit AND 0xF0000)))
      else Inl (Panic ''Limit is > 20 bit, not allowed''))"

definition create_descriptor :: "u32 \<Rightarrow> u32 \<Rightarrow> u16 \<Rightarrow> u64" where
  "create_descriptor base limit flags =
     (ucast limit AND 0xFFFF)
       OR push_bit 16 (ucast base AND 0xFFFF)
       OR push_bit 32 (ucast (drop_bit 16 base) AND 0xFF)
       OR push_bit 40 (ucast flags AND 0xFF)
       OR push_bit 48 (ucast (drop_bit 16 limit) AND 0xF)
       OR push_bit 52 (ucast (drop_bit 8 flags) AND 0xF)
       OR push_bit 56 (ucast (drop_bit 24 base) AND 0xFF)"

text \<open>
  \<open>(0x1101 << 8) | byte\<close> is an \<open>int\<close> cut to 16 bits.
\<close>

definition segment_flags :: "u8 \<Rightarrow> u16" where
  "segment_flags byte = ucast (push_bit 8 (0x1101 :: u32) OR ucast byte)"

text \<open>The values \<open>fill_gdt_vals\<close> computes (and logs), and the ones it stores in \<open>gdt\<close>.\<close>

definition code_segment :: "AccessByte \<Rightarrow> kerror + u64" where
  "code_segment junk = thenE (set_access_byte 1 0 1 1 0 0 1 junk)
     (\<lambda>b. Inr (create_descriptor 0 0xFFFFFFFF (segment_flags (get_binary_from_access_byte b))))"

definition data_segment :: "AccessByte \<Rightarrow> kerror + u64" where
  "data_segment junk = thenE (set_access_byte 1 0 1 0 0 1 1 junk)
     (\<lambda>b. Inr (create_descriptor 0 0xFFFFFFFF (segment_flags (get_binary_from_access_byte b))))"

definition gdt_values :: "u64 list" where
  "gdt_values = [0, 0x00CF9A000000FFFF, 0x00CF92000000FFFF]"

subsection \<open>The macros of the tests\<close>

definition SEG_DESCTYPE :: "nat \<Rightarrow> nat" where "SEG_DESCTYPE x = push_bit 4 x"
definition SEG_PRES :: "nat \<Rightarrow> nat" where "SEG_PRES x = push_bit 7 x"
definition SEG_SAVL :: "nat \<Rightarrow> nat" where "SEG_SAVL x = push_bit 12 x"
definition SEG_LONG :: "nat \<Rightarrow> nat" where "SEG_LONG x = push_bit 13 x"
definition SEG_SIZE :: "nat \<Rightarrow> nat" where "SEG_SIZE x = push_bit 14 x"
definition SEG_GRAN :: "nat \<Rightarrow> nat" where "SEG_GRAN x = push_bit 15 x"
definition SEG_PRIV :: "nat \<Rightarrow> nat" where "SEG_PRIV x = push_bit 5 (x AND 3)"

definition segment_macro :: "nat \<Rightarrow> nat \<Rightarrow> u16" where
  "segment_macro pl kind = of_nat (SEG_DESCTYPE 1 OR SEG_PRES 1 OR SEG_SAVL 0 OR SEG_LONG 0
     OR SEG_SIZE 1 OR SEG_GRAN 1 OR SEG_PRIV pl OR kind)"

definition GDT_CODE_PL0 :: u16 where "GDT_CODE_PL0 = segment_macro 0 0x0A"
definition GDT_DATA_PL0 :: u16 where "GDT_DATA_PL0 = segment_macro 0 0x02"
definition GDT_CODE_PL3 :: u16 where "GDT_CODE_PL3 = segment_macro 3 0x0A"
definition GDT_DATA_PL3 :: u16 where "GDT_DATA_PL3 = segment_macro 3 0x02"

subsection \<open>Bits of the fields\<close>

lemma low_masks:
  "(0xFF :: 'a::len word) = mask 8" "(0xF :: 'a word) = mask 4" "(0xFFFF :: 'a word) = mask 16"
  "(0xFFFFFF :: 'a word) = mask 24" "(3 :: 'a word) = mask 2"
  by (simp_all add: mask_eq_exp_minus_1)

lemma parse_base_fields: "gdt_parse_base s = take_bit 24 (drop_bit 16 s) OR push_bit 24 (drop_bit 56 s)"
  unfolding gdt_parse_base_def Let_def low_masks
  by (rule bit_word_eqI) (auto simp: bit_simps dest: bit_imp_le_length)

lemma parse_limit_fields: "gdt_parse_limit s = Inr (take_bit 16 s OR push_bit 16 (take_bit 4 (drop_bit 48 s)))"
proof -
  have "(s AND 0xFFFF) OR drop_bit 32 (s AND push_bit 48 0xF) =
      take_bit 16 s OR push_bit 16 (take_bit 4 (drop_bit 48 s))"
    unfolding low_masks by (rule bit_word_eqI) (auto simp: bit_simps)
  then show ?thesis by (simp add: gdt_parse_limit_def Let_def)
qed

lemma bit_field:
  "bit (push_bit k (ucast x AND mask m) :: u64) n \<longleftrightarrow> n < 64 \<and> k \<le> n \<and> n < k + m \<and> bit x (n - k)"
  by (auto simp: bit_simps)

lemma bit_field0: "bit (ucast x AND mask m :: u64) n \<longleftrightarrow> n < 64 \<and> n < m \<and> bit x n"
  by (auto simp: bit_simps)

lemma create_descriptor_bits:
  "bit (create_descriptor base limit flags) n \<longleftrightarrow> n < 64 \<and>
    (n < 16 \<and> bit limit n \<or> 16 \<le> n \<and> n < 32 \<and> bit base (n - 16)
     \<or> 32 \<le> n \<and> n < 40 \<and> bit (drop_bit 16 base) (n - 32) \<or> 40 \<le> n \<and> n < 48 \<and> bit flags (n - 40)
     \<or> 48 \<le> n \<and> n < 52 \<and> bit (drop_bit 16 limit) (n - 48)
     \<or> 52 \<le> n \<and> n < 56 \<and> bit (drop_bit 8 flags) (n - 52)
     \<or> 56 \<le> n \<and> bit (drop_bit 24 base) (n - 56))"
  unfolding create_descriptor_def low_masks bit_or_iff bit_field bit_field0 by auto

lemma create_descriptor_base: "gdt_parse_base (create_descriptor base limit flags) = ucast base"
proof (rule bit_word_eqI)
  fix n
  assume "n < LENGTH(64)"
  consider "n < 16" | "16 \<le> n" "n < 24" | "24 \<le> n" "n < 32" | "32 \<le> n" by linarith
  then show "bit (gdt_parse_base (create_descriptor base limit flags)) n = bit (ucast base :: u64) n"
    unfolding parse_base_fields using \<open>n < LENGTH(64)\<close>
    by cases (auto simp: bit_simps create_descriptor_bits dest: bit_imp_le_length)
qed

lemma create_descriptor_limit:
  "gdt_parse_limit (create_descriptor base limit flags) = Inr (take_bit 20 (ucast limit))"
proof -
  let ?d = "create_descriptor base limit flags"
  have "take_bit 16 ?d OR push_bit 16 (take_bit 4 (drop_bit 48 ?d)) = take_bit 20 (ucast limit)"
  proof (rule bit_word_eqI)
    fix n
    assume "n < LENGTH(64)"
    consider "n < 16" | "16 \<le> n" "n < 20" | "20 \<le> n" by linarith
    then show "bit (take_bit 16 ?d OR push_bit 16 (take_bit 4 (drop_bit 48 ?d))) n = bit (take_bit 20 (ucast limit) :: u64) n"
      using \<open>n < LENGTH(64)\<close>
      by cases (auto simp: bit_simps create_descriptor_bits)
  qed
  then show ?thesis by (simp add: parse_limit_fields)
qed

lemma create_descriptor_access:
  "ucast (drop_bit 40 (create_descriptor base limit flags)) = (ucast flags :: u8)"
  by (rule bit_word_eqI) (auto simp: bit_simps create_descriptor_bits)

lemma create_descriptor_flags:
  "take_bit 4 (drop_bit 52 (create_descriptor base limit flags)) = ucast (take_bit 4 (drop_bit 8 flags))"
  by (rule bit_word_eqI) (auto simp: bit_simps create_descriptor_bits)

lemma insert_base_bits:
  "bit (insert_base base) n \<longleftrightarrow> 16 \<le> n \<and> n < 32 \<and> bit base (n - 16)
     \<or> 56 \<le> n \<and> n < 64 \<and> bit (drop_bit 24 base) (n - 56)"
  unfolding insert_base_def low_masks by (auto simp: bit_simps dest: bit_imp_le_length)

lemma insert_base_loses: "gdt_parse_base (insert_base base) = ucast (base AND 0xFF00FFFF)"
proof -
  have m: "(0xFF00FFFF :: u32) = mask 16 OR push_bit 24 (mask 8)" by (simp add: mask_eq_exp_minus_1)
  show ?thesis unfolding parse_base_fields m
  proof (rule bit_word_eqI)
    fix n
    assume "n < LENGTH(64)"
    consider "n < 16" | "16 \<le> n" "n < 24" | "24 \<le> n" "n < 32" | "32 \<le> n" by linarith
    then show "bit (take_bit 24 (drop_bit 16 (insert_base base)) OR push_bit 24 (drop_bit 56 (insert_base base))) n =
      bit (ucast (base AND (mask 16 OR push_bit 24 (mask 8))) :: u64) n"
      using \<open>n < LENGTH(64)\<close> by cases (auto simp: bit_simps insert_base_bits dest: bit_imp_le_length)
  qed
qed

lemma insert_limit_parse:
  assumes "drop_bit 20 limit = 0"
  shows "\<exists>d. insert_limit limit = Inr d \<and> gdt_parse_limit d = Inr (ucast limit)"
proof -
  let ?d = "ucast (limit AND 0xFFFF) OR push_bit 48 (drop_bit 16 (ucast limit AND 0xF0000)) :: u64"
  have m: "(0xF0000 :: u64) = push_bit 16 (mask 4)" by (simp add: mask_eq_exp_minus_1)
  have hi: "\<not> bit limit n" if "20 \<le> n" for n
  proof -
    have "\<not> bit (drop_bit 20 limit) (n - 20)" by (simp only: assms bit_0_eq bot_apply) simp
    then show ?thesis using that by (simp add: bit_simps)
  qed
  have "take_bit 16 ?d OR push_bit 16 (take_bit 4 (drop_bit 48 ?d)) = ucast limit"
    unfolding m low_masks
  proof (rule bit_word_eqI)
    fix n
    assume "n < LENGTH(64)"
    consider "n < 16" | "16 \<le> n" "n < 20" | "20 \<le> n" by linarith
    then show "bit (take_bit 16 (ucast (limit AND mask 16) OR push_bit 48 (drop_bit 16 (ucast limit AND push_bit 16 (mask 4)) :: u64))
        OR push_bit 16 (take_bit 4 (drop_bit 48 (ucast (limit AND mask 16) OR push_bit 48 (drop_bit 16 (ucast limit AND push_bit 16 (mask 4))))))) n =
      bit (ucast limit :: u64) n"
      using \<open>n < LENGTH(64)\<close> hi by cases (auto simp: bit_simps dest: bit_imp_le_length)
  qed
  then show ?thesis using assms by (simp add: insert_limit_def parse_limit_fields)
qed

subsection \<open>Properties\<close>

text \<open>
  \<open>create_descriptor\<close> is read back by the parsers: the base whole, the low 20 bits of the
  limit, the access byte, and as the flags nibble the bits 8 to 11 of \<open>flags\<close>. \<open>insert_limit\<close>
  is read back for every limit it accepts.
\<close>

theorem descriptor_fields_roundtrip:
  "gdt_parse_base (create_descriptor base limit flags) = ucast base
    \<and> gdt_parse_limit (create_descriptor base limit flags) = Inr (take_bit 20 (ucast limit))
    \<and> ucast (drop_bit 40 (create_descriptor base limit flags)) = (ucast flags :: u8)
    \<and> take_bit 4 (drop_bit 52 (create_descriptor base limit flags)) = ucast (take_bit 4 (drop_bit 8 flags))
    \<and> (if drop_bit 20 limit = 0 then \<exists>d. insert_limit limit = Inr d \<and> gdt_parse_limit d = Inr (ucast limit)
       else insert_limit limit = Inl (Panic ''Limit is > 20 bit, not allowed''))"
  using create_descriptor_base create_descriptor_limit create_descriptor_access create_descriptor_flags
    insert_limit_parse by (simp add: insert_limit_def)

text \<open>
  \<open>insert_base\<close> loses the bits 16 to 23 of the base: they are shifted out of a 32 bit
  product, so the base read back is the base without them.
\<close>

theorem insert_base_loses_third_byte:
  "gdt_parse_base (insert_base base) = ucast (base AND 0xFF00FFFF)"
  by (rule insert_base_loses)

text \<open>
  The flags nibble comes from the wrong bits for the macros of the tests, which have
  granularity and size in bits 14 and 15: on every one of their cases the descriptor lacks them
  and differs from the value the test expects. The descriptors that \<open>fill_gdt_vals\<close> computes
  have the same fault, and differ from the ones it stores.
\<close>

theorem computed_descriptors_lack_granularity:
  "create_descriptor 0 0xFFFFF GDT_CODE_PL0 = 0x000F9A000000FFFF
    \<and> create_descriptor 0 0xFFFFF GDT_DATA_PL0 = 0x000F92000000FFFF
    \<and> create_descriptor 0 0xFFFFF GDT_CODE_PL3 = 0x000FFA000000FFFF
    \<and> create_descriptor 0 0xFFFFF GDT_DATA_PL3 = 0x000FF2000000FFFF
    \<and> code_segment junk = Inr 0x001F99000000FFFF \<and> data_segment junk = Inr 0x001F93000000FFFF
    \<and> gdt_values ! 1 = 0x00CF9A000000FFFF \<and> gdt_values ! 2 = 0x00CF92000000FFFF"
proof -
  have "GDT_CODE_PL0 = 0xC09A" "GDT_DATA_PL0 = 0xC092" "GDT_CODE_PL3 = 0xC0FA" "GDT_DATA_PL3 = 0xC0F2"
    by (simp_all add: GDT_CODE_PL0_def GDT_DATA_PL0_def GDT_CODE_PL3_def GDT_DATA_PL3_def segment_macro_def
        SEG_DESCTYPE_def SEG_PRES_def SEG_SAVL_def SEG_LONG_def SEG_SIZE_def SEG_GRAN_def SEG_PRIV_def)
  moreover have "create_descriptor 0 0xFFFFF 0xC09A = 0x000F9A000000FFFF"
    "create_descriptor 0 0xFFFFF 0xC092 = 0x000F92000000FFFF"
    "create_descriptor 0 0xFFFFF 0xC0FA = 0x000FFA000000FFFF"
    "create_descriptor 0 0xFFFFF 0xC0F2 = 0x000FF2000000FFFF"
    "create_descriptor 0 0xFFFFFFFF (segment_flags 0x99) = 0x001F99000000FFFF"
    "create_descriptor 0 0xFFFFFFFF (segment_flags 0x93) = 0x001F93000000FFFF"
    by (simp_all add: create_descriptor_def segment_flags_def)
  ultimately show ?thesis
    by (simp add: code_segment_def data_segment_def set_access_byte_def set_p_def set_dpl_def set_s_def
        set_e_def set_dc_def set_rw_def set_a_def get_binary_from_access_byte_def gdt_values_def)
qed

end
