(* ===== verification/Port_IO.thy ===== *)
theory Port_IO
  imports Prelude
begin

text \<open>
  The port and interrupt-flag instructions of kernel/kernel/utils.c. What the kernel does to the
  hardware is the list of its instructions, the newest first. What a device answers is not code of
  the kernel: it is a function of the history, the parameter \<open>devices\<close> of everything that reads
  a port. The interrupt flag is the last \<open>cli\<close> or \<open>sti\<close> of the history.
\<close>

datatype io_event =
    Out8 u16 u8 | In8 u16 u8 | Out32 u16 u32 | In32 u16 u32 | Cli | Sti | Hlt | Lidt u32 u16

type_synonym trace = "io_event list"

record devices =
  dev8 :: "trace \<Rightarrow> u16 \<Rightarrow> u8"
  dev32 :: "trace \<Rightarrow> u16 \<Rightarrow> u32"

definition outb :: "u16 \<Rightarrow> u8 \<Rightarrow> trace \<Rightarrow> trace" where
  "outb port value tr = Out8 port value # tr"

definition inb :: "devices \<Rightarrow> u16 \<Rightarrow> trace \<Rightarrow> u8 \<times> trace" where
  "inb D port tr = (let value = dev8 D tr port in (value, In8 port value # tr))"

definition outl :: "u16 \<Rightarrow> u32 \<Rightarrow> trace \<Rightarrow> trace" where
  "outl port value tr = Out32 port value # tr"

definition inl :: "devices \<Rightarrow> u16 \<Rightarrow> trace \<Rightarrow> u32 \<times> trace" where
  "inl D port tr = (let value = dev32 D tr port in (value, In32 port value # tr))"

definition disable_interrupts :: "trace \<Rightarrow> trace" where
  "disable_interrupts tr = Cli # tr"

definition enable_interrupts :: "trace \<Rightarrow> trace" where
  "enable_interrupts tr = Sti # tr"

definition INTERRUPT_GUARDED :: "(trace \<Rightarrow> trace) \<Rightarrow> trace \<Rightarrow> trace" where
  "INTERRUPT_GUARDED code tr = enable_interrupts (code (disable_interrupts tr))"

fun interrupt_flag :: "bool \<Rightarrow> trace \<Rightarrow> bool" where
  "interrupt_flag b [] = b"
| "interrupt_flag b (Cli # tr) = False"
| "interrupt_flag b (Sti # tr) = True"
| "interrupt_flag b (_ # tr) = interrupt_flag b tr"

text \<open>The bytes written to a port, in the order of the writes.\<close>

fun written_to :: "u16 \<Rightarrow> trace \<Rightarrow> u8 list" where
  "written_to p [] = []"
| "written_to p (Out8 q v # tr) = (if q = p then written_to p tr @ [v] else written_to p tr)"
| "written_to p (_ # tr) = written_to p tr"

lemmas port_defs = outb_def inb_def outl_def inl_def disable_interrupts_def enable_interrupts_def

end
