(* ===== verification/Terminal.thy ===== *)
theory Terminal
  imports Port_IO
begin

text \<open>
  kernel/arch/i386/tty.c and vga.h: the text terminal. The screen memory is a function from cell
  numbers to entries, so that a write behind the 2000 cells of the screen shows as what it is.
\<close>

definition VGA_WIDTH :: u32 where "VGA_WIDTH = 80"
definition VGA_HEIGHT :: u32 where "VGA_HEIGHT = 25"

datatype vga_color = VGA_COLOR_BLACK | VGA_COLOR_BLUE | VGA_COLOR_GREEN | VGA_COLOR_CYAN
  | VGA_COLOR_RED | VGA_COLOR_MAGENTA | VGA_COLOR_BROWN | VGA_COLOR_LIGHT_GREY
  | VGA_COLOR_DARK_GREY | VGA_COLOR_LIGHT_BLUE | VGA_COLOR_LIGHT_GREEN | VGA_COLOR_LIGHT_CYAN
  | VGA_COLOR_LIGHT_RED | VGA_COLOR_LIGHT_MAGENTA | VGA_COLOR_LIGHT_BROWN | VGA_COLOR_WHITE

primrec color_code :: "vga_color \<Rightarrow> u8" where
  "color_code VGA_COLOR_BLACK = 0"
| "color_code VGA_COLOR_BLUE = 1"
| "color_code VGA_COLOR_GREEN = 2"
| "color_code VGA_COLOR_CYAN = 3"
| "color_code VGA_COLOR_RED = 4"
| "color_code VGA_COLOR_MAGENTA = 5"
| "color_code VGA_COLOR_BROWN = 6"
| "color_code VGA_COLOR_LIGHT_GREY = 7"
| "color_code VGA_COLOR_DARK_GREY = 8"
| "color_code VGA_COLOR_LIGHT_BLUE = 9"
| "color_code VGA_COLOR_LIGHT_GREEN = 10"
| "color_code VGA_COLOR_LIGHT_CYAN = 11"
| "color_code VGA_COLOR_LIGHT_RED = 12"
| "color_code VGA_COLOR_LIGHT_MAGENTA = 13"
| "color_code VGA_COLOR_LIGHT_BROWN = 14"
| "color_code VGA_COLOR_WHITE = 15"

definition vga_entry_color :: "vga_color \<Rightarrow> vga_color \<Rightarrow> u8" where
  "vga_entry_color fg bg = or (color_code fg) (push_bit 4 (color_code bg))"

definition vga_entry :: "u8 \<Rightarrow> u8 \<Rightarrow> u16" where
  "vga_entry uc color = or (ucast uc) (push_bit 8 (ucast color))"

record terminal =
  terminal_row :: u32
  terminal_column :: u32
  terminal_color :: u8
  terminal_buffer :: "u32 \<Rightarrow> u16"

fun clear_row :: "(u32 \<Rightarrow> u16) \<Rightarrow> u16 \<Rightarrow> u32 \<Rightarrow> nat \<Rightarrow> (u32 \<Rightarrow> u16)" where
  "clear_row buf e y 0 = buf"
| "clear_row buf e y (Suc x) = (clear_row buf e y x)(y * VGA_WIDTH + of_nat x := e)"

fun clear_rows :: "(u32 \<Rightarrow> u16) \<Rightarrow> u16 \<Rightarrow> nat \<Rightarrow> (u32 \<Rightarrow> u16)" where
  "clear_rows buf e 0 = buf"
| "clear_rows buf e (Suc y) = clear_row (clear_rows buf e y) e (of_nat y) (unat VGA_WIDTH)"

definition terminal_initialize :: "terminal \<Rightarrow> terminal" where
  "terminal_initialize t =
     (let color = vga_entry_color VGA_COLOR_LIGHT_GREY VGA_COLOR_BLACK in
      \<lparr>terminal_row = 0, terminal_column = 0, terminal_color = color,
       terminal_buffer = clear_rows (terminal_buffer t) (vga_entry 32 color) (unat VGA_HEIGHT)\<rparr>)"

definition terminal_setcolor :: "u8 \<Rightarrow> terminal \<Rightarrow> terminal" where
  "terminal_setcolor color t = t\<lparr>terminal_color := color\<rparr>"

definition terminal_putentryat :: "u8 \<Rightarrow> u8 \<Rightarrow> u32 \<Rightarrow> u32 \<Rightarrow> terminal \<Rightarrow> terminal" where
  "terminal_putentryat c color x y t =
     (let index = y * VGA_WIDTH + x in
      t\<lparr>terminal_buffer := (terminal_buffer t)(index := vga_entry c color)\<rparr>)"

definition terminal_putchar :: "u8 \<Rightarrow> terminal \<Rightarrow> terminal" where
  "terminal_putchar c t =
     (if c = 10 then t\<lparr>terminal_row := terminal_row t + 1, terminal_column := 0\<rparr>
      else
        let t = terminal_putentryat c (terminal_color t) (terminal_column t) (terminal_row t) t;
            t = t\<lparr>terminal_column := terminal_column t + 1\<rparr> in
        if terminal_column t = VGA_WIDTH
        then let t = t\<lparr>terminal_column := 0, terminal_row := terminal_row t + 1\<rparr> in
             if terminal_row t = VGA_HEIGHT then t\<lparr>terminal_row := 0\<rparr> else t
        else t)"

fun terminal_puts :: "u8 list \<Rightarrow> terminal \<Rightarrow> terminal" where
  "terminal_puts [] t = t"
| "terminal_puts (c # cs) t = terminal_puts cs (terminal_putchar c t)"

subsection \<open>The cursor as a position\<close>

definition on_screen :: "terminal \<Rightarrow> bool" where
  "on_screen t \<longleftrightarrow> terminal_row t < VGA_HEIGHT \<and> terminal_column t < VGA_WIDTH"

definition cursor :: "terminal \<Rightarrow> nat" where
  "cursor t = unat (terminal_row t) * 80 + unat (terminal_column t)"

definition cell :: "terminal \<Rightarrow> nat \<Rightarrow> u16" where
  "cell t i = terminal_buffer t (of_nat i)"

lemma on_screen_bounds: "on_screen t \<longleftrightarrow> unat (terminal_row t) < 25 \<and> unat (terminal_column t) < 80"
  by (simp add: on_screen_def VGA_HEIGHT_def VGA_WIDTH_def word_less_nat_alt)

lemma cursor_less: "on_screen t \<Longrightarrow> cursor t < 2000"
  by (simp add: on_screen_bounds cursor_def)

lemma cursor_index:
  assumes "on_screen t"
  shows "terminal_row t * VGA_WIDTH + terminal_column t = of_nat (cursor t)"
  by (simp add: VGA_WIDTH_def cursor_def)

lemma putchar_cursor:
  assumes "on_screen t" "c \<noteq> 10"
  shows "on_screen (terminal_putchar c t)"
    and "cursor (terminal_putchar c t) = (cursor t + 1) mod 2000"
    and "terminal_buffer (terminal_putchar c t) =
      (terminal_buffer t)(of_nat (cursor t) := vga_entry c (terminal_color t))"
    and "terminal_color (terminal_putchar c t) = terminal_color t"
proof -
  let ?r = "terminal_row t" and ?k = "terminal_column t"
  have b: "unat ?r < 25" "unat ?k < 80" using assms(1) by (simp_all add: on_screen_bounds)
  have inc: "unat (?r + 1) = unat ?r + 1" "unat (?k + 1) = unat ?k + 1"
    using b by (simp_all add: unat_add_lt)
  have eqs: "?k + 1 = VGA_WIDTH \<longleftrightarrow> unat ?k = 79" "?r + 1 = VGA_HEIGHT \<longleftrightarrow> unat ?r = 24"
    using inc by (simp_all add: word_unat_eq_iff VGA_WIDTH_def VGA_HEIGHT_def)
  note defs = terminal_putchar_def terminal_putentryat_def Let_def cursor_index [OF assms(1)]
  show "on_screen (terminal_putchar c t)"
    using assms b inc eqs by (auto simp: on_screen_bounds defs)
  show "cursor (terminal_putchar c t) = (cursor t + 1) mod 2000"
    using assms b inc eqs by (auto simp: cursor_def defs mod_less)
  show "terminal_buffer (terminal_putchar c t) =
      (terminal_buffer t)(of_nat (cursor t) := vga_entry c (terminal_color t))"
    and "terminal_color (terminal_putchar c t) = terminal_color t"
    using assms by (simp_all add: defs)
qed

lemma terminal_puts_snoc: "terminal_puts (xs @ [c]) t = terminal_putchar c (terminal_puts xs t)"
  by (induction xs arbitrary: t) auto

lemma mod_cell_neq: "j < k \<Longrightarrow> k < 2000 \<Longrightarrow> (p + k) mod 2000 \<noteq> (p + j) mod (2000 :: nat)"
  by (auto simp: mod_eq_dvd_iff_nat dest: dvd_imp_le)

lemma mod_cell_eq:
  "j < 2000 \<Longrightarrow> k < 2000 \<Longrightarrow> (p + j) mod 2000 = (p + k) mod 2000 \<longleftrightarrow> j = (k :: nat)"
  by (metis mod_cell_neq nat_neq_iff)

lemma of_nat_cell_eq:
  "i < 2000 \<Longrightarrow> j < 2000 \<Longrightarrow> (of_nat i :: u32) = of_nat j \<longleftrightarrow> i = j"
  by (simp add: of_nat_eq_iff32)

lemma terminal_puts_line:
  assumes "on_screen t"
  shows "10 \<notin> set cs \<Longrightarrow> length cs \<le> 2000 \<Longrightarrow>
    on_screen (terminal_puts cs t) \<and> cursor (terminal_puts cs t) = (cursor t + length cs) mod 2000
    \<and> terminal_color (terminal_puts cs t) = terminal_color t
    \<and> (\<forall>k < length cs. cell (terminal_puts cs t) ((cursor t + k) mod 2000) = vga_entry (cs ! k) (terminal_color t))
    \<and> (\<forall>i. (\<forall>k < length cs. i \<noteq> of_nat ((cursor t + k) mod 2000)) \<longrightarrow>
        terminal_buffer (terminal_puts cs t) i = terminal_buffer t i)"
proof (induction cs rule: rev_induct)
  case Nil
  then show ?case using assms cursor_less [OF assms] by simp
next
  case (snoc c cs)
  define t' where "t' = terminal_puts cs t"
  have n: "length cs < 2000" and c: "c \<noteq> 10" using snoc.prems by auto
  have IH: "on_screen t'" "cursor t' = (cursor t + length cs) mod 2000"
      "terminal_color t' = terminal_color t"
      "\<And>k. k < length cs \<Longrightarrow> cell t' ((cursor t + k) mod 2000) = vga_entry (cs ! k) (terminal_color t)"
      "\<And>i. (\<And>k. k < length cs \<Longrightarrow> i \<noteq> of_nat ((cursor t + k) mod 2000)) \<Longrightarrow>
        terminal_buffer t' i = terminal_buffer t i"
    using snoc unfolding t'_def by auto
  note put = putchar_cursor [OF IH(1) c]
  have ne: "(of_nat ((cursor t + k) mod 2000) :: u32) \<noteq> of_nat (cursor t')" if "k < length cs" for k
    using that n unfolding IH(2) by (simp add: of_nat_cell_eq mod_cell_eq)
  have "cell (terminal_putchar c t') ((cursor t + k) mod 2000) = vga_entry ((cs @ [c]) ! k) (terminal_color t)"
    if "k < length (cs @ [c])" for k
    using that ne [of k] IH(3) IH(4) [of k] unfolding cell_def put(3)
    by (cases "k = length cs") (auto simp: nth_append IH(2))
  moreover have "terminal_buffer (terminal_putchar c t') i = terminal_buffer t i"
    if "\<forall>k < length (cs @ [c]). i \<noteq> of_nat ((cursor t + k) mod 2000)" for i
    using that IH(5) [of i] unfolding put(3) IH(2) by auto
  ultimately show ?case
    using put IH by (simp add: terminal_puts_snoc mod_Suc_eq flip: t'_def)
qed

text \<open>Below the last row nothing brings the cursor back.\<close>

definition below_screen :: "terminal \<Rightarrow> nat \<Rightarrow> bool" where
  "below_screen t n \<longleftrightarrow> 25 \<le> unat (terminal_row t) \<and> unat (terminal_row t) + n < 2 ^ 25
     \<and> unat (terminal_column t) < 80"

lemma below_screen_putchar:
  assumes "below_screen t (Suc n)"
  shows "below_screen (terminal_putchar c t) n"
    and "unat i < 2000 \<Longrightarrow> terminal_buffer (terminal_putchar c t) i = terminal_buffer t i"
proof -
  let ?r = "terminal_row t" and ?k = "terminal_column t"
  have b: "25 \<le> unat ?r" "unat ?r + Suc n < 2 ^ 25" "unat ?k < 80"
    using assms by (simp_all add: below_screen_def)
  have inc: "unat (?r + 1) = unat ?r + 1" "unat (?k + 1) = unat ?k + 1"
    using b by (simp_all add: unat_add_lt)
  have eqs: "?k + 1 = VGA_WIDTH \<longleftrightarrow> unat ?k = 79" "?r + 1 \<noteq> VGA_HEIGHT"
    using inc b by (simp_all add: word_unat_eq_iff VGA_WIDTH_def VGA_HEIGHT_def)
  show "below_screen (terminal_putchar c t) n"
    using b inc eqs by (auto simp: below_screen_def terminal_putchar_def terminal_putentryat_def Let_def)
  have "unat (?r * VGA_WIDTH) = unat ?r * 80"
    using b unat_mult_lem [THEN iffD1, of ?r VGA_WIDTH] by (simp add: VGA_WIDTH_def)
  then have "unat (?r * VGA_WIDTH + ?k) = unat ?r * 80 + unat ?k"
    using b by (simp add: unat_add_lt)
  moreover assume "unat i < 2000"
  ultimately have "i \<noteq> ?r * VGA_WIDTH + ?k" using b by auto
  then show "terminal_buffer (terminal_putchar c t) i = terminal_buffer t i"
    using eqs by (simp add: terminal_putchar_def terminal_putentryat_def Let_def)
qed

lemma below_screen_puts:
  "below_screen t (length cs) \<Longrightarrow> unat (i :: u32) < 2000 \<Longrightarrow>
    terminal_buffer (terminal_puts cs t) i = terminal_buffer t i"
proof (induction cs arbitrary: t)
  case (Cons c cs)
  then show ?case using below_screen_putchar(1) [of t "length cs" c] below_screen_putchar(2) [of t "length cs" i c] by simp
qed simp

subsection \<open>Clearing the screen\<close>

lemma clear_row_spec:
  "clear_row buf e y n i = (if \<exists>x < n. i = y * VGA_WIDTH + of_nat x then e else buf i)"
  by (induction n) (auto simp: less_Suc_eq)

lemma unat_width: "unat VGA_WIDTH = 80"
  by (simp add: VGA_WIDTH_def)

lemma clear_rows_spec:
  assumes "m \<le> 25"
  shows "clear_rows buf e m i = (if unat i < m * 80 then e else buf i)"
  using assms
proof (induction m)
  case (Suc m)
  have "(\<exists>x < unat VGA_WIDTH. i = of_nat m * VGA_WIDTH + of_nat x) \<longleftrightarrow>
      m * 80 \<le> unat i \<and> unat i < Suc m * 80"
  proof -
    have "of_nat m * VGA_WIDTH + of_nat x = (of_nat (m * 80 + x) :: u32)" for x
      by (simp add: VGA_WIDTH_def)
    moreover have "i = of_nat (m * 80 + x) \<longleftrightarrow> unat i = m * 80 + x" if "x < 80" for x
    proof -
      have "unat (of_nat (m * 80 + x) :: u32) = m * 80 + x"
        using that Suc.prems by (intro unat_of_nat32) simp
      then show ?thesis by (simp only: word_unat_eq_iff)
    qed
    moreover have "(\<exists>x < 80. u = m * 80 + x) \<longleftrightarrow> m * 80 \<le> u \<and> u < Suc m * 80" for u :: nat
      by (auto intro: exI [of _ "u - m * 80"])
    ultimately show ?thesis by (metis (no_types, lifting) unat_width)
  qed
  then show ?case using Suc by (auto simp: clear_row_spec)
qed simp

subsection \<open>Properties\<close>

text \<open>
  C35. From the cleared screen, a text of at most one screen without newlines is laid out
  in order: the cell at position \<open>k\<close> holds the \<open>k\<close>-th character in light grey on black, the cells
  not reached are blank, the cursor stands after the last character (at the top again when the
  screen is full), and nothing outside of the 2000 cells is written.
\<close>

theorem terminal_shows_text:
  assumes "10 \<notin> set cs" and "length cs \<le> 2000"
  shows "(\<forall>k < 2000. cell (terminal_puts cs (terminal_initialize t)) k =
        (if k < length cs then vga_entry (cs ! k) 7 else vga_entry 32 7))
    \<and> on_screen (terminal_puts cs (terminal_initialize t))
    \<and> cursor (terminal_puts cs (terminal_initialize t)) = length cs mod 2000
    \<and> (\<forall>i. 2000 \<le> unat i \<longrightarrow>
        terminal_buffer (terminal_puts cs (terminal_initialize t)) i = terminal_buffer t i)"
proof -
  let ?t = "terminal_initialize t"
  have color: "vga_entry_color VGA_COLOR_LIGHT_GREY VGA_COLOR_BLACK = 7"
    by (simp add: vga_entry_color_def)
  have init: "on_screen ?t" "cursor ?t = 0" "terminal_color ?t = 7"
      "terminal_buffer ?t i = (if unat i < 2000 then vga_entry 32 7 else terminal_buffer t i)" for i
    by (simp_all add: terminal_initialize_def Let_def color on_screen_bounds cursor_def
        clear_rows_spec VGA_HEIGHT_def)
  note line = terminal_puts_line [OF init(1) assms, unfolded init(2,3) add_0]
  have far: "i \<noteq> of_nat (k mod 2000)" if "k < length cs" "length cs \<le> unat i" for i :: u32 and k
    using that assms(2) unat_of_nat32 [of k] by auto
  have "cell (terminal_puts cs ?t) k = (if k < length cs then vga_entry (cs ! k) 7 else vga_entry 32 7)"
    if "k < 2000" for k
  proof (cases "k < length cs")
    case True
    then show ?thesis using line that by (metis mod_less)
  next
    case False
    have u: "unat (of_nat k :: u32) = k" using that by (intro unat_of_nat32) simp
    then have "terminal_buffer (terminal_puts cs ?t) (of_nat k) = terminal_buffer ?t (of_nat k)"
      using line far [of _ "of_nat k"] False by auto
    then show ?thesis using False that u by (simp add: cell_def init)
  qed
  moreover have "terminal_buffer (terminal_puts cs ?t) i = terminal_buffer t i" if "2000 \<le> unat i" for i
    using line far [of _ i] that assms(2) by (auto simp: init)
  ultimately show ?thesis using line by blast
qed

theorem terminal_shows_text_witness:
  "cell (terminal_puts [104, 105] (terminal_initialize
     \<lparr>terminal_row = 30, terminal_column = 5, terminal_color = 0, terminal_buffer = (\<lambda>_. 0)\<rparr>)) 1 = vga_entry 105 7"
  using terminal_shows_text [of "[104, 105]"] by simp

text \<open>
  A newline never wraps the cursor to the top, as the end of a line does: after it in
  the last row the cursor is below the screen, from where (within the next \<open>2 ^ 25 - 26\<close>
  characters) no text reaches a cell of the screen again.
\<close>

theorem terminal_newline_leaves_screen:
  assumes "terminal_row t = 24" and "length cs < 2 ^ 25 - 26" and "unat i < 2000"
  shows "terminal_buffer (terminal_puts (10 # cs) t) i = terminal_buffer t i"
proof -
  have "below_screen (terminal_putchar 10 t) (length cs)"
    using assms(1,2) by (simp add: below_screen_def terminal_putchar_def)
  from below_screen_puts [OF this assms(3)] show ?thesis
    by (simp add: terminal_putchar_def)
qed

theorem terminal_newline_leaves_screen_witness:
  "terminal_buffer (terminal_puts (10 # [104, 105])
     \<lparr>terminal_row = 24, terminal_column = 5, terminal_color = 7, terminal_buffer = (\<lambda>_. 0)\<rparr>) 3 = 0"
  by (subst terminal_newline_leaves_screen) simp_all

end
