(* ===== verification/Uart.thy ===== *)
theory Uart
  imports Port_IO
begin

text \<open>
  kernel/kernel/io/uart.c: sending a byte waits until the line status register says that the
  transmitter is empty. The wait need not end: \<open>None\<close> is the wait for ever. The hypothesis on the
  device is that it gets empty after some number of polls, from every history.
\<close>

definition COM1 :: u16 where "COM1 = 0x3F8"
definition DATA_REG :: u16 where "DATA_REG = COM1"
definition INTERRUPT_ENABLE_REG :: u16 where "INTERRUPT_ENABLE_REG = COM1 + 1"
definition FIFO_CTRL_REG :: u16 where "FIFO_CTRL_REG = COM1 + 2"
definition LINE_CTRL_REG :: u16 where "LINE_CTRL_REG = COM1 + 3"
definition MODEM_CTRL_REG :: u16 where "MODEM_CTRL_REG = COM1 + 4"
definition LINE_STATUS_REG :: u16 where "LINE_STATUS_REG = COM1 + 5"

definition is_transmit_ready :: "devices \<Rightarrow> trace \<Rightarrow> bool \<times> trace" where
  "is_transmit_ready D tr =
     (let (v, tr) = inb D LINE_STATUS_REG tr in (if and v 0x20 = 0 then (False, tr) else (True, tr)))"

partial_function (option) wait_transmit :: "devices \<Rightarrow> trace \<Rightarrow> trace option" where
  "wait_transmit D tr =
     (case is_transmit_ready D tr of (ready, tr) \<Rightarrow> if ready then Some tr else wait_transmit D tr)"

declare wait_transmit.simps [code]

definition serial_putchar :: "devices \<Rightarrow> u8 \<Rightarrow> trace \<Rightarrow> trace option" where
  "serial_putchar D c tr = (case wait_transmit D tr of None \<Rightarrow> None | Some tr \<Rightarrow> Some (outb DATA_REG c tr))"

definition exit_debug :: "u8 \<Rightarrow> trace \<Rightarrow> trace" where
  "exit_debug code tr = outb 0xF4 code tr"

subsection \<open>Waiting for the transmitter\<close>

text \<open>
  What the output path adds to the history: polls of the line status and bytes for the
  transmitter.
\<close>

fun uart_event :: "io_event \<Rightarrow> bool" where
  "uart_event (Out8 p v) = (p = DATA_REG)"
| "uart_event (In8 p v) = (p = LINE_STATUS_REG)"
| "uart_event _ = False"

definition uart_only :: "trace \<Rightarrow> trace \<Rightarrow> bool" where
  "uart_only tr tr' \<longleftrightarrow> (\<exists>es. tr' = es @ tr \<and> list_all uart_event es)"

lemma uart_only_refl [simp]: "uart_only tr tr"
  by (simp add: uart_only_def)

lemma uart_only_trans: "uart_only a b \<Longrightarrow> uart_only b c \<Longrightarrow> uart_only a c"
  unfolding uart_only_def by (metis append_assoc list_all_append)

lemma uart_only_Cons: "uart_event e \<Longrightarrow> uart_only tr tr' \<Longrightarrow> uart_only tr (e # tr')"
  unfolding uart_only_def by (metis append_Cons list.pred_inject(2))

lemma uart_only_induct [consumes 1, case_names refl step]:
  assumes "uart_only tr tr'" "P tr" "\<And>e t. uart_event e \<Longrightarrow> P t \<Longrightarrow> P (e # t)"
  shows "P tr'"
proof -
  have "list_all uart_event es \<Longrightarrow> P (es @ tr)" for es
    by (induction es) (simp_all add: assms(2,3))
  then show ?thesis using assms(1) by (auto simp: uart_only_def)
qed

lemma uart_only_flag: "uart_only tr tr' \<Longrightarrow> interrupt_flag b tr' = interrupt_flag b tr"
  by (induction rule: uart_only_induct) (auto elim: uart_event.elims)

primrec polls :: "devices \<Rightarrow> nat \<Rightarrow> trace \<Rightarrow> trace" where
  "polls D 0 tr = tr"
| "polls D (Suc n) tr = polls D n (snd (inb D LINE_STATUS_REG tr))"

definition transmitter_empties :: "devices \<Rightarrow> bool" where
  "transmitter_empties D \<longleftrightarrow> (\<forall>tr. \<exists>n. and (dev8 D (polls D n tr) LINE_STATUS_REG) 0x20 \<noteq> 0)"

lemma wait_transmit_polls:
  "and (dev8 D (polls D n tr) LINE_STATUS_REG) 0x20 \<noteq> 0 \<Longrightarrow> \<exists>m. wait_transmit D tr = Some (polls D m tr)"
proof (induction n arbitrary: tr)
  case 0
  then have "wait_transmit D tr = Some (polls D 1 tr)"
    by (simp add: wait_transmit.simps [of D tr] is_transmit_ready_def inb_def Let_def)
  then show ?case by blast
next
  case (Suc n)
  let ?tr' = "snd (inb D LINE_STATUS_REG tr)"
  obtain m where m: "wait_transmit D ?tr' = Some (polls D m ?tr')" using Suc by auto
  show ?case
  proof (cases "and (dev8 D tr LINE_STATUS_REG) 0x20 = 0")
    case True
    then have "wait_transmit D tr = Some (polls D (Suc m) tr)"
      using m by (simp add: wait_transmit.simps [of D tr] is_transmit_ready_def inb_def Let_def)
    then show ?thesis by blast
  next
    case False
    then have "wait_transmit D tr = Some (polls D 1 tr)"
      by (simp add: wait_transmit.simps [of D tr] is_transmit_ready_def inb_def Let_def)
    then show ?thesis by blast
  qed
qed

lemma polls_quiet:
  "written_to p (polls D n tr) = written_to p tr \<and> uart_only tr (polls D n tr)"
proof (induction n arbitrary: tr)
  case (Suc n)
  have "uart_only tr (snd (inb D LINE_STATUS_REG tr))" by (simp add: inb_def Let_def uart_only_Cons)
  then show ?case using Suc [of "snd (inb D LINE_STATUS_REG tr)"] by (auto simp: inb_def Let_def intro: uart_only_trans)
qed simp

lemma serial_putchar_sends:
  assumes "transmitter_empties D"
  shows "\<exists>tr'. serial_putchar D c tr = Some tr' \<and> written_to DATA_REG tr' = written_to DATA_REG tr @ [c]
    \<and> uart_only tr tr'"
proof -
  obtain n where "and (dev8 D (polls D n tr) LINE_STATUS_REG) 0x20 \<noteq> 0"
    using assms by (auto simp: transmitter_empties_def)
  from wait_transmit_polls [OF this] obtain m where "wait_transmit D tr = Some (polls D m tr)" by blast
  then show ?thesis by (simp add: serial_putchar_def outb_def polls_quiet uart_only_Cons)
qed

text \<open>A transmitter that is busy for \<open>k\<close> polls after every byte; \<open>k = 0\<close> is the emulated one.\<close>

fun sends :: "io_event \<Rightarrow> bool" where
  "sends (Out8 p v) = (p = DATA_REG)"
| "sends _ = False"

definition idle :: "trace \<Rightarrow> nat" where
  "idle tr = length (takeWhile (\<lambda>e. \<not> sends e) tr)"

definition uart_device :: "nat \<Rightarrow> devices" where
  "uart_device k = \<lparr>dev8 = (\<lambda>tr port. if port = LINE_STATUS_REG \<and> k \<le> idle tr then 0x60 else 0),
     dev32 = (\<lambda>_ _. 0xFFFFFFFF)\<rparr>"

lemma idle_polls: "idle (polls D n tr) = idle tr + n"
  by (induction n arbitrary: tr) (simp_all add: inb_def Let_def idle_def)

lemma uart_device_empties: "transmitter_empties (uart_device k)"
proof -
  have "and (dev8 (uart_device k) (polls (uart_device k) k tr) LINE_STATUS_REG) 0x20 \<noteq> 0" for tr
    by (simp add: uart_device_def idle_polls)
  then show ?thesis by (auto simp: transmitter_empties_def)
qed

end
