(* ===== verification/Memory.thy ===== *)
theory Memory
  imports Prelude
begin

text \<open>
  The memory of the i386: a function from 32 bit addresses to bytes, with little-endian loads and
  stores of 32 bit words. Addresses wrap around at the end of the address space.
\<close>

type_synonym mem = "u32 \<Rightarrow> u8"

definition load32 :: "mem \<Rightarrow> u32 \<Rightarrow> u32" where
  "load32 m a = ucast (m a) OR push_bit 8 (ucast (m (a + 1)))
     OR push_bit 16 (ucast (m (a + 2))) OR push_bit 24 (ucast (m (a + 3)))"

definition store32 :: "mem \<Rightarrow> u32 \<Rightarrow> u32 \<Rightarrow> mem" where
  "store32 m a v = m(a := ucast v, a + 1 := ucast (drop_bit 8 v),
     a + 2 := ucast (drop_bit 16 v), a + 3 := ucast (drop_bit 24 v))"

lemma bytes_of_word32:
  "(ucast (ucast v :: u8) :: u32) OR push_bit 8 (ucast (ucast (drop_bit 8 v) :: u8))
     OR push_bit 16 (ucast (ucast (drop_bit 16 v) :: u8))
     OR push_bit 24 (ucast (ucast (drop_bit 24 v) :: u8)) = (v :: u32)"
proof (rule bit_word_eqI)
  fix n :: nat
  assume "n < LENGTH(32)"
  then consider "n < 8" | "8 \<le> n" "n < 16" | "16 \<le> n" "n < 24" | "24 \<le> n" "n < 32"
    by fastforce
  then show "bit ((ucast (ucast v :: u8) :: u32) OR push_bit 8 (ucast (ucast (drop_bit 8 v) :: u8))
     OR push_bit 16 (ucast (ucast (drop_bit 16 v) :: u8))
     OR push_bit 24 (ucast (ucast (drop_bit 24 v) :: u8))) n = bit v n"
    by cases (auto simp: bit_simps)
qed

lemma load32_store32_same: "load32 (store32 m a v) a = v"
  by (simp add: load32_def store32_def bytes_of_word32)

definition range32 :: "nat \<Rightarrow> nat \<Rightarrow> u32 set" where
  "range32 lo hi = {x. lo \<le> unat x \<and> unat x < hi}"

lemma unat_plus_small: "unat a + k < 2 ^ 32 \<Longrightarrow> unat (a + of_nat k :: u32) = unat a + k"
  by (simp add: unat_word_ariths unat_of_nat take_bit_eq_mod)

lemma store32_other:
  assumes "unat a + 4 \<le> 2 ^ 32" and "unat x < unat a \<or> unat a + 4 \<le> unat x"
  shows "store32 m a v x = m x"
proof -
  have "unat (a + 1) = unat a + 1" "unat (a + 2) = unat a + 2" "unat (a + 3) = unat a + 3"
    using assms(1) unat_plus_small [of a 1] unat_plus_small [of a 2] unat_plus_small [of a 3]
    by simp_all
  with assms(2) have "x \<noteq> a" "x \<noteq> a + 1" "x \<noteq> a + 2" "x \<noteq> a + 3"
    by auto
  then show ?thesis by (simp add: store32_def)
qed

lemma load32_cong:
  assumes "unat a + 4 \<le> 2 ^ 32" and "\<And>x. unat a \<le> unat x \<Longrightarrow> unat x < unat a + 4 \<Longrightarrow> m' x = m x"
  shows "load32 m' a = load32 m a"
proof -
  have "unat (a + 1) = unat a + 1" "unat (a + 2) = unat a + 2" "unat (a + 3) = unat a + 3"
    using assms(1) unat_plus_small [of a 1] unat_plus_small [of a 2] unat_plus_small [of a 3]
    by simp_all
  then show ?thesis by (simp add: load32_def assms(2))
qed

lemma load32_store32_other:
  assumes "unat a + 4 \<le> 2 ^ 32" "unat b + 4 \<le> 2 ^ 32"
    and "unat a + 4 \<le> unat b \<or> unat b + 4 \<le> unat a"
  shows "load32 (store32 m a v) b = load32 m b"
  using assms by (intro load32_cong store32_other) auto

end
