(* ===== verification/Cstring.thy ===== *)
theory Cstring
  imports Memory
begin

text \<open>
  libc/string. The byte operations work on the memory; the operations on C strings read
  through an accessor \<open>nat \<Rightarrow> u8\<close> (the character at an offset from the pointer), so that they
  apply to strings in memory and to character arrays held as lists.
\<close>

subsection \<open>memset, memcpy, memmove, memcmp\<close>

function memset_loop :: "mem \<Rightarrow> u32 \<Rightarrow> u8 \<Rightarrow> nat \<Rightarrow> nat \<Rightarrow> mem" where
  "memset_loop m buf v i sz =
     (if i < sz then memset_loop (m(buf + of_nat i := v)) buf v (i + 1) sz else m)"
  by pat_completeness auto
termination
  by (relation "measure (\<lambda>(m, buf, v, i, sz). sz - i)") auto

definition memset :: "mem \<Rightarrow> u32 \<Rightarrow> u32 \<Rightarrow> u32 \<Rightarrow> mem" where
  "memset m bufptr value sz = memset_loop m bufptr (ucast value) 0 (unat sz)"

function memcpy_loop :: "mem \<Rightarrow> u32 \<Rightarrow> u32 \<Rightarrow> nat \<Rightarrow> nat \<Rightarrow> mem" where
  "memcpy_loop m dst src i sz =
     (if i < sz then memcpy_loop (m(dst + of_nat i := m (src + of_nat i))) dst src (i + 1) sz else m)"
  by pat_completeness auto
termination
  by (relation "measure (\<lambda>(m, dst, src, i, sz). sz - i)") auto

definition memcpy :: "mem \<Rightarrow> u32 \<Rightarrow> u32 \<Rightarrow> u32 \<Rightarrow> mem" where
  "memcpy m dstptr srcptr sz = memcpy_loop m dstptr srcptr 0 (unat sz)"

fun memmove_down :: "mem \<Rightarrow> u32 \<Rightarrow> u32 \<Rightarrow> nat \<Rightarrow> mem" where
  "memmove_down m dst src 0 = m"
| "memmove_down m dst src (Suc i) = memmove_down (m(dst + of_nat i := m (src + of_nat i))) dst src i"

definition memmove :: "mem \<Rightarrow> u32 \<Rightarrow> u32 \<Rightarrow> u32 \<Rightarrow> mem" where
  "memmove m dstptr srcptr sz =
     (if dstptr < srcptr then memcpy_loop m dstptr srcptr 0 (unat sz)
      else memmove_down m dstptr srcptr (unat sz))"

function memcmp_loop :: "(nat \<Rightarrow> u8) \<Rightarrow> (nat \<Rightarrow> u8) \<Rightarrow> nat \<Rightarrow> nat \<Rightarrow> int" where
  "memcmp_loop a b i sz =
     (if i < sz then if a i < b i then -1 else if b i < a i then 1 else memcmp_loop a b (i + 1) sz
      else 0)"
  by pat_completeness auto
termination
  by (relation "measure (\<lambda>(a, b, i, sz). sz - i)") auto

definition memcmp :: "(nat \<Rightarrow> u8) \<Rightarrow> (nat \<Rightarrow> u8) \<Rightarrow> nat \<Rightarrow> int" where
  "memcmp a b sz = memcmp_loop a b 0 sz"

declare memset_loop.simps [simp del] memcpy_loop.simps [simp del] memcmp_loop.simps [simp del]

subsection \<open>strlen and strncmp\<close>

partial_function (option) strlen_from :: "(nat \<Rightarrow> u8) \<Rightarrow> nat \<Rightarrow> nat option" where
  "strlen_from str len = (if str len = 0 then Some len else strlen_from str (len + 1))"

declare strlen_from.simps [code]

definition strlen :: "(nat \<Rightarrow> u8) \<Rightarrow> nat option" where
  "strlen str = strlen_from str 0"

function strncmp_loop :: "(nat \<Rightarrow> u8) \<Rightarrow> (nat \<Rightarrow> u8) \<Rightarrow> nat \<Rightarrow> nat \<Rightarrow> int" where
  "strncmp_loop str1 str2 i num =
     (if i < num
      then if str1 i = 0 \<or> str2 i = 0 then 0
           else if str1 i = str2 i then strncmp_loop str1 str2 (i + 1) num
           else if sint (str1 i) < sint (str2 i) then -1 else 1
      else 0)"
  by pat_completeness auto
termination
  by (relation "measure (\<lambda>(a, b, i, num). num - i)") auto

definition strncmp :: "(nat \<Rightarrow> u8) \<Rightarrow> (nat \<Rightarrow> u8) \<Rightarrow> nat \<Rightarrow> int" where
  "strncmp str1 str2 num = strncmp_loop str1 str2 0 num"

declare strncmp_loop.simps [simp del]

definition at :: "mem \<Rightarrow> u32 \<Rightarrow> nat \<Rightarrow> u8" where
  "at m p i = m (p + of_nat i)"

text \<open>A list of bytes as a C string: the terminator follows the last element.\<close>

definition c_str :: "u8 list \<Rightarrow> nat \<Rightarrow> u8" where
  "c_str xs i = (if i < length xs then xs ! i else 0)"

definition lit :: "string \<Rightarrow> u8 list" where
  "lit s = map of_char s"

subsection \<open>The memory operations\<close>

lemma add_of_nat_inj: "i < 2 ^ 32 \<Longrightarrow> j < 2 ^ 32 \<Longrightarrow> (p :: u32) + of_nat i = p + of_nat j \<longleftrightarrow> i = j"
  by (simp add: of_nat_eq_iff32)

lemma memset_loop_spec:
  "memset_loop m p v i sz x = (if \<exists>j. i \<le> j \<and> j < sz \<and> x = p + of_nat j then v else m x)"
proof (induction m p v i sz rule: memset_loop.induct)
  case (1 m p v i sz)
  define m1 where "m1 = m(p + of_nat i := v)"
  show ?case
  proof (cases "i < sz")
    case True
    have IH: "memset_loop m1 p v (i + 1) sz x =
        (if \<exists>j. i + 1 \<le> j \<and> j < sz \<and> x = p + of_nat j then v else m1 x)"
      unfolding m1_def by (rule "1.IH" [OF True])
    have eq: "memset_loop m p v i sz = memset_loop m1 p v (i + 1) sz"
      using True by (subst memset_loop.simps) (simp add: m1_def)
    show ?thesis
      unfolding eq IH ex_from_split [of i "\<lambda>j. j < sz \<and> x = p + of_nat j"]
      using True by (cases "x = p + of_nat i") (auto simp: m1_def)
  qed (auto simp: memset_loop.simps [of m p v i sz])
qed

text \<open>
  Copying upwards from \<open>i\<close> is right when no write hits a source byte that is still to be read.
\<close>

lemma memcpy_loop_spec:
  assumes "sz \<le> 2 ^ 32"
    and "\<And>k j. i \<le> k \<Longrightarrow> k < j \<Longrightarrow> j < sz \<Longrightarrow> dst + of_nat k \<noteq> src + of_nat j"
  shows "(\<forall>j. i \<le> j \<and> j < sz \<longrightarrow> memcpy_loop m dst src i sz (dst + of_nat j) = m (src + of_nat j))
    \<and> (\<forall>x. (\<forall>j. i \<le> j \<and> j < sz \<longrightarrow> x \<noteq> dst + of_nat j) \<longrightarrow> memcpy_loop m dst src i sz x = m x)"
  using assms
proof (induction m dst src i sz rule: memcpy_loop.induct)
  case (1 m dst src i sz)
  show ?case
  proof (cases "i < sz")
    case False
    then show ?thesis by (auto simp: memcpy_loop.simps)
  next
    case True
    define m1 where "m1 = m(dst + of_nat i := m (src + of_nat i))"
    define r where "r = memcpy_loop m1 dst src (i + 1) sz"
    have eq: "memcpy_loop m dst src i sz = r"
      using True by (simp add: memcpy_loop.simps [of m] r_def m1_def)
    have IH: "(\<forall>j. i + 1 \<le> j \<and> j < sz \<longrightarrow> r (dst + of_nat j) = m1 (src + of_nat j))
      \<and> (\<forall>x. (\<forall>j. i + 1 \<le> j \<and> j < sz \<longrightarrow> x \<noteq> dst + of_nat j) \<longrightarrow> r x = m1 x)"
      unfolding r_def m1_def using True "1.prems" by (intro "1.IH") auto
    have s: "m1 (src + of_nat j) = m (src + of_nat j)" if "i < j" "j < sz" for j
      using "1.prems"(2) [of i j] that by (auto simp: m1_def)
    have d: "dst + of_nat i \<noteq> dst + of_nat j" if "i < j" "j < sz" for j
      using that "1.prems"(1) by (simp add: of_nat_eq_iff32)
    have "r (dst + of_nat i) = m (src + of_nat i)"
      using IH d by (auto simp: m1_def)
    moreover have "r x = m x" if "\<forall>j. i \<le> j \<and> j < sz \<longrightarrow> x \<noteq> dst + of_nat j" for x
      using IH that True by (auto simp: m1_def)
    moreover have "r (dst + of_nat j) = m (src + of_nat j)" if "i < j" "j < sz" for j
      using IH s that by auto
    ultimately show ?thesis unfolding eq by (metis le_neq_implies_less)
  qed
qed

lemma memmove_down_spec:
  assumes "sz \<le> 2 ^ 32" and "\<And>k j. j < k \<Longrightarrow> k < sz \<Longrightarrow> dst + of_nat k \<noteq> src + of_nat j"
  shows "(\<forall>j < sz. memmove_down m dst src sz (dst + of_nat j) = m (src + of_nat j))
    \<and> (\<forall>x. (\<forall>j < sz. x \<noteq> dst + of_nat j) \<longrightarrow> memmove_down m dst src sz x = m x)"
  using assms
proof (induction m dst src sz rule: memmove_down.induct)
  case (2 m dst src i)
  define m1 where "m1 = m(dst + of_nat i := m (src + of_nat i))"
  have IH: "(\<forall>j < i. memmove_down m1 dst src i (dst + of_nat j) = m1 (src + of_nat j))
    \<and> (\<forall>x. (\<forall>j < i. x \<noteq> dst + of_nat j) \<longrightarrow> memmove_down m1 dst src i x = m1 x)"
    unfolding m1_def using "2.prems" by (intro "2.IH") auto
  have s: "m1 (src + of_nat j) = m (src + of_nat j)" if "j < i" for j
    using "2.prems"(2) [of j i] that by (auto simp: m1_def)
  have d: "dst + of_nat i \<noteq> dst + of_nat j" if "j < i" for j
    using that "2.prems"(1) by (simp add: of_nat_eq_iff32)
  have eq: "memmove_down m dst src (Suc i) = memmove_down m1 dst src i" by (simp add: m1_def)
  show ?case unfolding eq
  proof (intro conjI allI impI)
    fix j assume "j < Suc i"
    then show "memmove_down m1 dst src i (dst + of_nat j) = m (src + of_nat j)"
      using IH s d by (cases "j = i") (auto simp: m1_def)
  next
    fix x assume "\<forall>j < Suc i. x \<noteq> dst + of_nat j"
    then show "memmove_down m1 dst src i x = m x" using IH by (auto simp: m1_def)
  qed
qed simp

lemma no_wrap_less:
  assumes "unat p + n \<le> 2 ^ 32" and "j < n"
  shows "unat (p + of_nat j :: u32) = unat p + j"
  using assms by (intro unat_plus_small) simp

lemma memmove_spec:
  assumes "unat dst + unat sz \<le> 2 ^ 32" and "unat src + unat sz \<le> 2 ^ 32"
  shows "(\<forall>j < unat sz. memmove m dst src sz (dst + of_nat j) = m (src + of_nat j))
    \<and> (\<forall>x. (\<forall>j < unat sz. x \<noteq> dst + of_nat j) \<longrightarrow> memmove m dst src sz x = m x)"
proof -
  note w = no_wrap_less [OF assms(1)] no_wrap_less [OF assms(2)]
  have n: "unat sz \<le> 2 ^ 32" using assms(1) by simp
  show ?thesis
  proof (cases "dst < src")
    case True
    have "dst + of_nat k \<noteq> src + of_nat j" if "0 \<le> k" "k < j" "j < unat sz" for k j
      using w(1) [of k] w(2) [of j] that True by (auto simp: word_less_nat_alt)
    from memcpy_loop_spec [OF n this] True show ?thesis by (simp add: memmove_def)
  next
    case False
    have "dst + of_nat k \<noteq> src + of_nat j" if "j < k" "k < unat sz" for k j
      using w(1) [of k] w(2) [of j] that False by (auto simp: word_less_nat_alt)
    from memmove_down_spec [OF n this] False show ?thesis by (simp add: memmove_def)
  qed
qed

subsection \<open>C strings\<close>

lemma strlen_from_reaches:
  assumes "str n = 0" and "\<And>k. k < n \<Longrightarrow> str k \<noteq> 0"
  shows "i \<le> n \<Longrightarrow> strlen_from str i = Some n"
proof (induction "n - i" arbitrary: i)
  case 0
  then show ?case using assms(1) by (simp add: strlen_from.simps)
next
  case (Suc d)
  then have "strlen_from str (i + 1) = Some n" by simp
  with Suc assms(2) show ?case by (subst strlen_from.simps) simp
qed

definition c_content :: "u8 list \<Rightarrow> u8 list" where
  "c_content xs = takeWhile (\<lambda>b. b \<noteq> 0) xs"

lemma c_content_no_nul: "0 \<notin> set xs \<Longrightarrow> c_content (xs @ 0 # ys) = xs"
  by (simp add: c_content_def takeWhile_append)

lemma c_content_id: "0 \<notin> set xs \<Longrightarrow> c_content xs = xs"
  by (simp add: c_content_def takeWhile_eq_all_conv) blast

lemma strlen_c_str: "strlen (c_str xs) = Some (length (c_content xs))"
proof -
  let ?n = "length (c_content xs)"
  have "c_str xs ?n = 0"
    using nth_length_takeWhile [of "\<lambda>b. b \<noteq> 0" xs] by (auto simp: c_str_def c_content_def)
  moreover have "c_str xs k \<noteq> 0" if "k < ?n" for k
  proof -
    have "k < length xs" using that length_takeWhile_le [of _ xs] by (simp add: c_content_def order_less_le_trans)
    moreover have "xs ! k \<noteq> 0"
      using that nth_mem [of k "c_content xs"] by (simp add: c_content_def takeWhile_nth) (metis set_takeWhileD)
    ultimately show ?thesis by (simp add: c_str_def)
  qed
  ultimately show ?thesis by (simp add: strlen_def strlen_from_reaches)
qed

text \<open>
  \<open>strncmp\<close> stops at the first terminator of either string, so it finds strings equal that agree
  only as far as the shorter one goes.
\<close>

lemma strncmp_loop_zero:
  assumes "0 \<notin> set xs" "0 \<notin> set ys"
  shows "strncmp_loop (c_str xs) (c_str ys) i n = 0 \<longleftrightarrow>
    (\<forall>k. i \<le> k \<and> k < n \<and> k < length xs \<and> k < length ys \<longrightarrow> xs ! k = ys ! k)"
proof (induction "c_str xs" "c_str ys" i n rule: strncmp_loop.induct)
  case (1 i n)
  have z: "c_str zs i = 0 \<longleftrightarrow> length zs \<le> i" if "0 \<notin> set zs" for zs
    using that by (metis c_str_def leD not_le_imp_less nth_mem)
  show ?case
  proof (cases "i < n \<and> i < length xs \<and> i < length ys")
    case True
    then have nz: "\<not> (c_str xs i = 0 \<or> c_str ys i = 0)" using z assms by auto
    show ?thesis
      using True nz 1 [OF _ nz]
        all_from_split [of i "\<lambda>k. k < n \<and> k < length xs \<and> k < length ys \<longrightarrow> xs ! k = ys ! k"]
      by (subst strncmp_loop.simps) (auto simp: c_str_def)
  next
    case False
    then show ?thesis using z assms
      by (subst strncmp_loop.simps) (auto simp: not_less)
  qed
qed

lemma strncmp_zero_iff:
  assumes "0 \<notin> set xs" "0 \<notin> set ys"
  shows "strncmp (c_str xs) (c_str ys) n = 0 \<longleftrightarrow>
    take (min n (min (length xs) (length ys))) xs = take (min n (min (length xs) (length ys))) ys"
  using strncmp_loop_zero [OF assms, of 0 n] by (auto simp: strncmp_def list_eq_iff_nth_eq)

lemma memcmp_loop_zero: "memcmp_loop a b i n = 0 \<longleftrightarrow> (\<forall>k. i \<le> k \<longrightarrow> k < n \<longrightarrow> a k = b k)"
proof (induction a b i n rule: memcmp_loop.induct)
  case (1 a b i n)
  then show ?case
    using all_from_split [of i "\<lambda>k. k < n \<longrightarrow> a k = b k"] by (subst memcmp_loop.simps) (auto simp: less_irrefl)
qed

lemma memcmp_zero_iff: "memcmp a b n = 0 \<longleftrightarrow> (\<forall>k < n. a k = b k)"
  by (simp add: memcmp_def memcmp_loop_zero)

lemma memset_outside:
  assumes "unat p + unat n \<le> 2 ^ 32" "unat x < unat p \<or> unat p + unat n \<le> unat x"
  shows "memset m p v n x = m x"
proof -
  have "x \<noteq> p + of_nat j" if "j < unat n" for j using no_wrap_less [OF assms(1) that] assms(2) that by auto
  then show ?thesis by (auto simp: memset_def memset_loop_spec)
qed

lemma memcpy_loop_outside: "(\<And>j. j < n \<Longrightarrow> x \<noteq> dst + of_nat j) \<Longrightarrow> memcpy_loop m dst src i n x = m x"
proof (induction m dst src i n rule: memcpy_loop.induct)
  case (1 m dst src i n)
  show ?case
  proof (cases "i < n")
    case True
    define m1 where "m1 = m(dst + of_nat i := m (src + of_nat i))"
    have "memcpy_loop m1 dst src (i + 1) n x = m1 x" unfolding m1_def by (rule "1.IH" [OF True "1.prems"])
    then show ?thesis using True "1.prems" [OF True] by (subst memcpy_loop.simps) (simp add: m1_def)
  qed (simp add: memcpy_loop.simps)
qed

lemma memcpy_outside:
  assumes "unat p + unat n \<le> 2 ^ 32" "unat x < unat p \<or> unat p + unat n \<le> unat x"
  shows "memcpy m p q n x = m x"
  unfolding memcpy_def
proof (rule memcpy_loop_outside)
  show "x \<noteq> p + of_nat j" if "j < unat n" for j using no_wrap_less [OF assms(1) that] assms(2) that by auto
qed

subsection \<open>Properties\<close>

text \<open>
  C33. \<open>memmove\<close> copies \<open>sz\<close> bytes whatever the overlap of the two ranges: afterwards the
  destination holds the bytes the source held before, and no other byte has changed. The ranges
  must not wrap around the address space.
\<close>

theorem memmove_any_overlap:
  assumes "unat dst + unat sz \<le> 2 ^ 32" and "unat src + unat sz \<le> 2 ^ 32"
  shows "memmove m dst src sz =
    (\<lambda>x. if unat dst \<le> unat x \<and> unat x < unat dst + unat sz then m (src + (x - dst)) else m x)"
proof
  fix x
  note spec = memmove_spec [OF assms, of m]
  note w = no_wrap_less [OF assms(1)]
  show "memmove m dst src sz x =
      (if unat dst \<le> unat x \<and> unat x < unat dst + unat sz then m (src + (x - dst)) else m x)"
  proof (cases "unat dst \<le> unat x \<and> unat x < unat dst + unat sz")
    case True
    then have "x = dst + of_nat (unat x - unat dst)" "unat x - unat dst < unat sz"
      using w [of "unat x - unat dst"] by (auto simp: word_unat_eq_iff)
    moreover from this have "of_nat (unat x - unat dst) = x - dst"
      by (metis add_diff_cancel_left')
    ultimately show ?thesis using spec True by metis
  next
    case False
    then have "x \<noteq> dst + of_nat j" if "j < unat sz" for j using w [OF that] that by auto
    then show ?thesis using spec False by metis
  qed
qed

theorem memmove_any_overlap_witness:
  "memmove ((\<lambda>_. 0)(10 := 1, 11 := 2, 12 := 3)) 11 10 3 13 = 3"
  by (subst memmove_any_overlap) simp_all

text \<open>
  \<open>strncmp\<close> compares at most the first \<open>n\<close> characters and stops at the first terminator of
  either string: it finds two strings equal exactly when they agree on the first \<open>n\<close> characters
  that both of them have. A proper prefix is therefore equal to its extensions.
\<close>

theorem strncmp_equal_up_to_prefix:
  assumes "0 \<notin> set xs" "0 \<notin> set ys"
  shows "strncmp (c_str xs) (c_str ys) n = 0 \<longleftrightarrow>
    (\<forall>k < min n (min (length xs) (length ys)). xs ! k = ys ! k)"
  unfolding strncmp_zero_iff [OF assms] by (auto simp: list_eq_iff_nth_eq)

theorem strncmp_equal_up_to_prefix_witness:
  "strncmp (c_str (lit ''l'')) (c_str (lit ''llx'')) 3 = 0"
  by (subst strncmp_equal_up_to_prefix) (simp_all add: lit_def)

end
