(* ===== verification/Utils.thy ===== *)
theory Utils
  imports Cstring
begin

text \<open>
  kernel/kernel/utils.c: \<open>reverse\<close> and \<open>to_str\<close> on a character buffer. A buffer is the list of the
  bytes it can hold; an access outside of it, and the overflow of \<open>-1 * val\<close> on the least \<open>int\<close>,
  are undefined behaviour and show as \<open>Inl (Undefined ...)\<close>. The abstract side is the
  decimal notation of an integer, with a parser that reads it back.
\<close>

subsection \<open>reverse\<close>

function reverse_loop :: "u8 list \<Rightarrow> int \<Rightarrow> int \<Rightarrow> kerror + u8 list" where
  "reverse_loop msg start end =
     (if start < end
      then if 0 \<le> start \<and> end < int (length msg)
           then reverse_loop (msg[nat start := msg ! nat end, nat end := msg ! nat start])
                  (start + 1) (end - 1)
           else Inl (Undefined ''reverse: index out of bounds'')
      else Inr msg)"
  by pat_completeness auto
termination
  by (relation "measure (\<lambda>(msg, start, end). nat (end - start))") auto

declare reverse_loop.simps [simp del]

definition reverse :: "u8 list \<Rightarrow> int \<Rightarrow> kerror + u8 list" where
  "reverse msg len = reverse_loop msg 0 (len - 1)"

subsection \<open>to_str\<close>

function digits_loop :: "u8 list \<Rightarrow> nat \<Rightarrow> nat \<Rightarrow> kerror + (u8 list \<times> nat)" where
  "digits_loop msg i tmp =
     (if tmp \<noteq> 0
      then if i < length msg
           then digits_loop (msg[i := of_nat (tmp mod 10) + 48]) (i + 1) (tmp div 10)
           else Inl (Undefined ''to_str: buffer overflow'')
      else Inr (msg, i))"
  by pat_completeness auto
termination
  by (relation "measure (\<lambda>(msg, i, tmp). tmp)") auto

declare digits_loop.simps [simp del]

definition store_at :: "u8 list \<Rightarrow> nat \<Rightarrow> u8 \<Rightarrow> kerror + u8 list" where
  "store_at msg i c = (if i < length msg then Inr (msg[i := c])
     else Inl (Undefined ''buffer overflow''))"

definition clear_str :: "u8 list \<Rightarrow> kerror + u8 list" where
  "clear_str msg =
     (if 0 \<in> set msg
      then Inr (replicate (length (c_content msg)) 0 @ drop (length (c_content msg)) msg)
      else Inl (Undefined ''strlen: no terminator in the buffer''))"

definition to_str :: "u8 list \<Rightarrow> int \<Rightarrow> kerror + u8 list" where
  "to_str msg val =
     (let isNeg = val < 0 in
      if val = - (2 ^ 31) then Inl (Undefined ''to_str: -1 * INT_MIN'')
      else
        let tmp = (if isNeg then -1 * val else val) in
        case clear_str msg of Inl e \<Rightarrow> Inl e
        | Inr msg \<Rightarrow>
          if tmp = 0
          then (case store_at msg 0 48 of Inl e \<Rightarrow> Inl e | Inr msg \<Rightarrow> store_at msg 1 0)
          else
            (case digits_loop msg 0 (nat tmp) of Inl e \<Rightarrow> Inl e
             | Inr (msg, i) \<Rightarrow>
               (case (if isNeg then store_at msg i 45 else Inr msg) of Inl e \<Rightarrow> Inl e
                | Inr msg \<Rightarrow>
                  let i = (if isNeg then i + 1 else i) in
                  (case store_at msg i 0 of Inl e \<Rightarrow> Inl e | Inr msg \<Rightarrow> reverse msg (int i)))))"

subsection \<open>Decimal notation\<close>

fun dec :: "nat \<Rightarrow> u8 list" where
  "dec n = (if n < 10 then [of_nat n + 48] else dec (n div 10) @ [of_nat (n mod 10) + 48])"

declare dec.simps [simp del]

definition decimal :: "int \<Rightarrow> u8 list" where
  "decimal v = (if v < 0 then 45 # dec (nat (- v)) else dec (nat v))"

definition digits_value :: "u8 list \<Rightarrow> nat" where
  "digits_value ds = foldl (\<lambda>n d. 10 * n + unat (d - 48)) 0 ds"

definition read_decimal :: "u8 list \<Rightarrow> int" where
  "read_decimal cs = (case cs of [] \<Rightarrow> 0
     | c # ds \<Rightarrow> if c = 45 then - int (digits_value ds) else int (digits_value cs))"

lemma unat_digit: "d < 10 \<Longrightarrow> unat (of_nat d :: u8) = d"
  by (simp add: unat_of_nat take_bit_eq_mod)

lemma digits_value_dec: "digits_value (dec n) = n"
proof (induction n rule: dec.induct)
  case (1 n)
  then show ?case
    by (cases "n < 10") (auto simp: dec.simps [of n] digits_value_def unat_digit)
qed

lemma digit_range:
  assumes "d < 10"
  shows "48 \<le> of_nat d + (48 :: u8) \<and> of_nat d + (48 :: u8) \<le> 57"
proof -
  have "unat (of_nat d + (48 :: u8)) = d + 48"
    using assms unat_digit [OF assms] by (subst unat_add_lem [THEN iffD1]) auto
  then show ?thesis using assms by (simp add: word_le_nat_alt)
qed

lemma dec_digits: "c \<in> set (dec n) \<Longrightarrow> 48 \<le> c \<and> c \<le> 57"
proof (induction n rule: dec.induct)
  case (1 n)
  then show ?case
    using digit_range [of n] digit_range [of "n mod 10"]
    by (cases "n < 10") (auto simp: dec.simps [of n])
qed

lemma dec_no_nul: "0 \<notin> set (dec n)"
  using dec_digits [of 0 n] by auto

lemma decimal_no_nul: "0 \<notin> set (decimal v)"
  by (simp add: decimal_def dec_no_nul)

lemma dec_not_Nil [simp]: "dec n \<noteq> []"
  by (subst dec.simps) simp

lemma read_decimal_decimal: "read_decimal (decimal v) = v"
proof (cases "v < 0")
  case True
  then show ?thesis by (simp add: read_decimal_def decimal_def digits_value_dec)
next
  case False
  obtain c ds where d: "dec (nat v) = c # ds" by (cases "dec (nat v)") auto
  have "c \<noteq> 45" using dec_digits [of c "nat v"] d by auto
  with False d digits_value_dec [of "nat v"] show ?thesis
    by (simp add: read_decimal_def decimal_def)
qed

lemma length_dec: "0 < k \<Longrightarrow> n < 10 ^ k \<Longrightarrow> length (dec n) \<le> k"
proof (induction k arbitrary: n)
  case (Suc k)
  show ?case
  proof (cases "n < 10")
    case False
    then have "0 < k" using Suc.prems by (cases k) auto
    moreover have "n div 10 < 10 ^ k" using Suc.prems by auto
    ultimately show ?thesis using Suc.IH False by (simp add: dec.simps [of n])
  qed (simp add: dec.simps [of n])
qed simp

lemma length_decimal:
  assumes "- (2 ^ 31) \<le> v" "v < 2 ^ 31"
  shows "length (decimal v) \<le> 11"
proof -
  have "length (dec n) \<le> 10" if "n \<le> 2 ^ 31" for n :: nat
    using that by (intro length_dec) auto
  from this [of "nat (- v)"] this [of "nat v"] show ?thesis
    using assms by (auto simp: decimal_def nat_le_iff)
qed

subsection \<open>reverse reverses\<close>

text \<open>The buffer seen as the two ends already exchanged, the middle still to do, and the rest.\<close>

lemma reverse_loop_split:
  assumes "length ls = length rs"
  shows "reverse_loop (ls @ xs @ rs @ zs) (int (length ls)) (int (length ls) + int (length xs) - 1) =
    Inr (ls @ rev xs @ rs @ zs)"
  using assms
proof (induction "length xs" arbitrary: xs ls rs rule: less_induct)
  case less
  show ?case
  proof (cases "length xs \<le> 1")
    case True
    then have "rev xs = xs" by (cases xs) auto
    with True show ?thesis by (subst reverse_loop.simps) auto
  next
    case False
    then obtain a ys where xs1: "xs = a # ys" "ys \<noteq> []" by (cases xs) auto
    then obtain bs b where xs: "xs = a # bs @ [b]" by (metis rev_exhaust)
    let ?l = "length ls"
    have n: "nat (int ?l + int (length xs) - 1) = ?l + length bs + 1" by (simp add: xs)
    have upd: "(ls @ xs @ rs @ zs)[?l := b, ?l + length bs + 1 := a] = (ls @ [b]) @ bs @ (a # rs) @ zs"
      by (simp add: xs list_update_append)
    have get: "(ls @ xs @ rs @ zs) ! ?l = a" "(ls @ xs @ rs @ zs) ! (?l + length bs + 1) = b"
      by (simp_all add: xs nth_append)
    define m where "m = ls @ xs @ rs @ zs"
    have "reverse_loop m (int ?l) (int ?l + int (length xs) - 1) =
      reverse_loop (m[?l := m ! (?l + length bs + 1), ?l + length bs + 1 := m ! ?l])
        (int ?l + 1) (int ?l + int (length xs) - 1 - 1)"
      using False n by (subst reverse_loop.simps) (simp add: m_def xs)
    also have "\<dots> = reverse_loop ((ls @ [b]) @ bs @ (a # rs) @ zs) (int (length (ls @ [b])))
        (int (length (ls @ [b])) + int (length bs) - 1)"
      unfolding m_def get upd by (simp add: xs add.commute)
    finally have step: "reverse_loop (ls @ xs @ rs @ zs) (int ?l) (int ?l + int (length xs) - 1) =
      reverse_loop ((ls @ [b]) @ bs @ (a # rs) @ zs) (int (length (ls @ [b])))
        (int (length (ls @ [b])) + int (length bs) - 1)"
      unfolding m_def .
    show ?thesis
      unfolding step using less.hyps [of bs "ls @ [b]" "a # rs"] less.prems by (simp add: xs)
  qed
qed

lemma reverse_spec:
  assumes "n \<le> length msg"
  shows "reverse msg (int n) = Inr (rev (take n msg) @ drop n msg)"
  using reverse_loop_split [of "[]" "[]" "take n msg" "drop n msg"] assms
  by (simp add: reverse_def)

subsection \<open>to_str writes the decimal notation\<close>

lemma digits_loop_spec:
  assumes "0 < tmp" and "i + length (dec tmp) \<le> length msg"
  shows "digits_loop msg i tmp =
    Inr (take i msg @ rev (dec tmp) @ drop (i + length (dec tmp)) msg, i + length (dec tmp))"
  using assms
proof (induction msg i tmp rule: digits_loop.induct)
  case (1 msg i tmp)
  let ?c = "of_nat (tmp mod 10) + 48 :: u8"
  have i: "i < length msg" using "1.prems" length_greater_0_conv [of "dec tmp"] by (simp del: length_greater_0_conv)
  have upd: "msg[i := ?c] = take i msg @ ?c # drop (Suc i) msg"
    using i by (simp add: upd_conv_take_nth_drop)
  show ?case
  proof (cases "tmp < 10")
    case True
    then show ?thesis using "1.prems" i upd
      by (subst digits_loop.simps) (simp add: digits_loop.simps [of _ _ 0] dec.simps [of tmp])
  next
    case False
    define ds where "ds = dec (tmp div 10)"
    have d: "dec tmp = ds @ [?c]" using False by (simp add: dec.simps [of tmp] ds_def)
    have "digits_loop (msg[i := ?c]) (i + 1) (tmp div 10) =
      Inr (take (i + 1) (msg[i := ?c]) @ rev ds @ drop (i + 1 + length ds) (msg[i := ?c]),
        i + 1 + length ds)"
      unfolding ds_def using False "1.prems"(1) i "1.prems"(2) d
      by (intro "1.IH") (auto simp: ds_def)
    then show ?thesis using "1.prems" i d upd
      by (subst digits_loop.simps) (simp add: min_def add.commute)
  qed
qed

lemma clear_str_spec:
  "0 \<in> set msg \<Longrightarrow> \<exists>msg'. clear_str msg = Inr msg' \<and> length msg' = length msg \<and>
     msg' = map (\<lambda>i. if i < length (c_content msg) then 0 else msg ! i) [0..<length msg]"
  using length_takeWhile_le [of "\<lambda>b. b \<noteq> 0" msg]
  by (auto simp: clear_str_def c_content_def nth_append intro!: nth_equalityI)

lemma store_at_app: "store_at (xs @ a # ys) (length xs) c = Inr (xs @ c # ys)"
  by (simp add: store_at_def)

lemma reverse_terminated:
  "reverse (rev xs @ 0 # rest) (int (length xs)) = Inr (xs @ 0 # rest)"
  using reverse_spec [of "length xs" "rev xs @ 0 # rest"] by simp

lemma to_str_nonzero:
  assumes m: "clear_str msg = Inr m" "length m = length msg"
    and "val \<noteq> 0" and "- (2 ^ 31) < val" and len: "length (decimal val) < length msg"
  shows "\<exists>rest. to_str msg val = Inr (decimal val @ 0 # rest) \<and>
    length (decimal val) + 1 + length rest = length msg"
proof -
  define d where "d = dec (nat \<bar>val\<bar>)"
  have ld: "length d \<le> length (decimal val)" by (simp add: decimal_def d_def abs_if)
  have dl: "digits_loop m 0 (nat \<bar>val\<bar>) = Inr (rev d @ drop (length d) m, length d)"
    using digits_loop_spec [of "nat \<bar>val\<bar>" 0 m] assms ld by (simp add: d_def)
  obtain a r where r: "drop (length d) m = a # r" and "length m = length d + 1 + length r"
    using ld len m(2) by (cases "drop (length d) m") (auto dest: arg_cong [of _ _ length])
  show ?thesis
  proof (cases "val < 0")
    case True
    have dv: "decimal val = 45 # d" "\<bar>val\<bar> = - val" using True by (simp_all add: decimal_def d_def)
    obtain b r' where r': "r = b # r'"
      using len m(2) \<open>length m = length d + 1 + length r\<close> dv by (cases r) auto
    have s1: "store_at (rev d @ a # r) (length d) 45 = Inr ((rev d @ [45]) @ r)"
      using store_at_app [of "rev d" a r 45] by simp
    have s2: "store_at ((rev d @ [45]) @ r) (length d + 1) 0 = Inr (rev (45 # d) @ 0 # r')"
      using store_at_app [of "rev d @ [45]" b r' 0] r' by simp
    have "reverse (rev (45 # d) @ 0 # r') (int (length d + 1)) = Inr (decimal val @ 0 # r')"
      using reverse_terminated [of "45 # d" r'] dv by simp
    then show ?thesis
      using True assms dl r r' s1 s2 dv \<open>length m = length d + 1 + length r\<close>
      by (intro exI [of _ r']) (simp add: to_str_def del: rev.simps append_assoc)
  next
    case False
    have dv: "decimal val = d" "\<bar>val\<bar> = val" using False by (simp_all add: decimal_def d_def)
    have "store_at (rev d @ a # r) (length d) 0 = Inr (rev d @ 0 # r)"
      using store_at_app [of "rev d" a r 0] by simp
    then show ?thesis
      using False assms dl r dv reverse_terminated [of d r] \<open>length m = length d + 1 + length r\<close>
      by (intro exI [of _ r]) (simp add: to_str_def)
  qed
qed

lemma to_str_spec:
  assumes "0 \<in> set msg" and "- (2 ^ 31) < val" and "length (decimal val) < length msg"
  shows "\<exists>rest. to_str msg val = Inr (decimal val @ 0 # rest) \<and>
    length (decimal val) + 1 + length rest = length msg"
proof -
  obtain m where m: "clear_str msg = Inr m" "length m = length msg"
    using clear_str_spec [OF assms(1)] by blast
  show ?thesis
  proof (cases "val = 0")
    case True
    then have "2 \<le> length m" using assms(3) m by (simp add: decimal_def dec.simps)
    then obtain a b r where "m = a # b # r" by (cases m rule: remdups_adj.cases) auto
    then show ?thesis using True m by (auto simp: to_str_def decimal_def dec.simps store_at_def)
  next
    case False
    show ?thesis by (rule to_str_nonzero [OF m False assms(2,3)])
  qed
qed

lemma to_str_INT_MIN: "to_str msg (- (2 ^ 31)) = Inl (Undefined ''to_str: -1 * INT_MIN'')"
  by (simp add: to_str_def)

subsection \<open>Properties\<close>

text \<open>
  C34. \<open>to_str\<close> writes the decimal notation of every \<open>int\<close> but the least one, with a terminator,
  into a buffer that holds a terminated string and has room for it; the notation reads back as
  the number, and is at most 11 characters long. On the least \<open>int\<close> the negation overflows.
\<close>

theorem to_str_decimal:
  assumes "0 \<in> set msg" and "length (decimal val) < length msg" and "- (2 ^ 31) \<le> val" "val < 2 ^ 31"
  shows "(val = - (2 ^ 31) \<longrightarrow> to_str msg val = Inl (Undefined ''to_str: -1 * INT_MIN''))
    \<and> (val \<noteq> - (2 ^ 31) \<longrightarrow> (\<exists>msg'. to_str msg val = Inr msg' \<and> length msg' = length msg
        \<and> c_content msg' = decimal val \<and> strlen (c_str msg') = Some (length (decimal val))
        \<and> read_decimal (c_content msg') = val \<and> length (decimal val) \<le> 11))"
proof (intro conjI impI)
  assume "val \<noteq> - (2 ^ 31)"
  then have lo: "- (2 ^ 31) < val" using assms(3) by simp
  obtain rest where "to_str msg val = Inr (decimal val @ 0 # rest)"
    and "length (decimal val) + 1 + length rest = length msg"
    using to_str_spec [OF assms(1) lo assms(2)] by blast
  then show "\<exists>msg'. to_str msg val = Inr msg' \<and> length msg' = length msg
        \<and> c_content msg' = decimal val \<and> strlen (c_str msg') = Some (length (decimal val))
        \<and> read_decimal (c_content msg') = val \<and> length (decimal val) \<le> 11"
    using length_decimal [OF assms(3,4)]
    by (intro exI [of _ "decimal val @ 0 # rest"])
      (simp add: c_content_no_nul decimal_no_nul read_decimal_decimal strlen_c_str)
qed (simp only: to_str_INT_MIN)

theorem to_str_decimal_witness:
  "\<exists>msg'. to_str (replicate 100 0) (-134) = Inr msg' \<and> length msg' = 100 \<and> c_content msg' = lit ''-134''"
proof -
  have d: "decimal (-134) = lit ''-134''" by code_simp
  show ?thesis
    using to_str_decimal [of "replicate 100 0" "-134"] d by (auto simp: lit_def)
qed

text \<open>
  \<open>reverse\<close> exchanges the first \<open>len\<close> characters of a buffer end for end and leaves the
  others; applied twice it restores the buffer. A length beyond the buffer is an access out of
  bounds.
\<close>

theorem reverse_reverses:
  "reverse msg (int n) =
    (if n \<le> length msg then Inr (rev (take n msg) @ drop n msg)
     else if n \<le> 1 then Inr msg else Inl (Undefined ''reverse: index out of bounds''))"
  by (auto simp: reverse_spec) (auto simp: reverse_def reverse_loop.simps)

end
