(* ===== verification/Printf.thy ===== *)
theory Printf
  imports Utils "HOL-Library.Sublist"
begin

text \<open>
  libc/stdio/printf.c: \<open>int_to_hex\<close> and \<open>vsnprintf\<close>. The variable arguments are the 32 bit stack
  slots of the i386 calling convention; a \<open>long long\<close> takes two of them, low half first. A format
  is the bytes before its terminator: position \<open>length fs\<close> reads the terminator, a later one is
  outside of the string. Reading an argument that is not there, or one of another kind, is
  undefined behaviour. \<open>render\<close> is the reference: a format is parsed into pieces by a table of
  directives, and each piece is printed.
\<close>

subsection \<open>Arguments\<close>

datatype vslot = VWord u32 | VStr "u8 list"

definition va_int :: "vslot list \<Rightarrow> kerror + (u32 \<times> vslot list)" where
  "va_int args = (case args of VWord w # rest \<Rightarrow> Inr (w, rest)
     | _ \<Rightarrow> Inl (Undefined ''va_arg: int''))"

definition va_str :: "vslot list \<Rightarrow> kerror + (u8 list \<times> vslot list)" where
  "va_str args = (case args of VStr s # rest \<Rightarrow> Inr (s, rest)
     | _ \<Rightarrow> Inl (Undefined ''va_arg: string''))"

definition va_long_long :: "vslot list \<Rightarrow> kerror + (u64 \<times> vslot list)" where
  "va_long_long args = (case args of
       VWord lo # VWord hi # rest \<Rightarrow> Inr (ucast lo + push_bit 32 (ucast hi), rest)
     | _ \<Rightarrow> Inl (Undefined ''va_arg: long long''))"

subsection \<open>Conversions of numbers\<close>

definition hex_digit :: "u64 \<Rightarrow> u8" where
  "hex_digit d = lit ''0123456789abcdef'' ! unat (and d 0xF)"

fun int_to_hex_loop :: "u8 list \<Rightarrow> u64 \<Rightarrow> nat \<Rightarrow> kerror + u8 list" where
  "int_to_hex_loop buf val 0 = Inr buf"
| "int_to_hex_loop buf val (Suc i) =
     (case store_at buf i (hex_digit val) of Inl e \<Rightarrow> Inl e
      | Inr buf \<Rightarrow> int_to_hex_loop buf (drop_bit 4 val) i)"

definition int_to_hex :: "u8 list \<Rightarrow> u64 \<Rightarrow> nat \<Rightarrow> kerror + u8 list" where
  "int_to_hex buf val num_digits =
     (case int_to_hex_loop buf val num_digits of Inl e \<Rightarrow> Inl e
      | Inr buf \<Rightarrow> store_at buf num_digits 0)"

definition to_str_unsigned :: "u8 list \<Rightarrow> u64 \<Rightarrow> kerror + u8 list" where
  "to_str_unsigned buf value = to_str buf (sint (ucast value :: u32))"

subsection \<open>The output buffer\<close>

record outbuf =
  buffer :: "u8 list"
  out :: nat
  written :: u32

definition emit :: "u32 \<Rightarrow> outbuf \<Rightarrow> u8 \<Rightarrow> kerror + outbuf" where
  "emit bufsz st c =
     (if written st + 1 < bufsz
      then (case store_at (buffer st) (out st) c of Inl e \<Rightarrow> Inl e
            | Inr b \<Rightarrow> Inr (st\<lparr>buffer := b, out := out st + 1, written := written st + 1\<rparr>))
      else Inr (st\<lparr>written := written st + 1\<rparr>))"

fun emit_all :: "u32 \<Rightarrow> outbuf \<Rightarrow> u8 list \<Rightarrow> kerror + outbuf" where
  "emit_all bufsz st [] = Inr st"
| "emit_all bufsz st (c # cs) =
     (case emit bufsz st c of Inl e \<Rightarrow> Inl e | Inr st \<Rightarrow> emit_all bufsz st cs)"

subsection \<open>vsnprintf\<close>

text \<open>
  The directives, with \<open>format\<close> after the percent sign. \<open>fresh_temp\<close> is the local buffer \<open>temp\<close> of 32 bytes.
  The result is where \<open>format\<close> stands for the next round, the bytes printed, and the arguments
  left. An unknown directive is printed as it is.
\<close>

definition fresh_temp :: "u8 list" where
  "fresh_temp = replicate 32 0"

definition from_temp :: "nat \<Rightarrow> vslot list \<Rightarrow> kerror + u8 list \<Rightarrow> kerror + (nat \<times> u8 list \<times> vslot list)" where
  "from_temp format args t = (case t of Inl e \<Rightarrow> Inl e
     | Inr tmp \<Rightarrow> (case strlen (c_str tmp) of None \<Rightarrow> Inl (Undefined ''strlen'')
         | Some len \<Rightarrow> Inr (format + 1, take len tmp, args)))"

definition directive :: "u8 list \<Rightarrow> nat \<Rightarrow> vslot list \<Rightarrow> kerror + (nat \<times> u8 list \<times> vslot list)" where
  "directive fs start_fmt vlist =
     (let format = start_fmt + 1; c = c_str fs format;
          at_fmt = (\<lambda>s. strncmp (\<lambda>k. c_str fs (format + k)) (c_str (lit s)) (length s) = 0) in
      if c = of_char CHR ''%'' then Inr (format + 1, [c], vlist)
      else if c = of_char CHR ''c'' then
        (case va_int vlist of Inl e \<Rightarrow> Inl e
         | Inr (x, vlist) \<Rightarrow> Inr (format + 1, [ucast x], vlist))
      else if c = of_char CHR ''s'' then
        (case va_str vlist of Inl e \<Rightarrow> Inl e
         | Inr (s, vlist) \<Rightarrow> (case strlen (c_str s) of None \<Rightarrow> Inl (Undefined ''strlen'')
             | Some slen \<Rightarrow> Inr (format + 1, take slen s, vlist)))
      else if c = of_char CHR ''d'' then
        (case va_int vlist of Inl e \<Rightarrow> Inl e
         | Inr (x, vlist) \<Rightarrow> from_temp format vlist (to_str fresh_temp (sint x)))
      else if c = of_char CHR ''u'' then
        (case va_int vlist of Inl e \<Rightarrow> Inl e
         | Inr (x, vlist) \<Rightarrow> from_temp format vlist (to_str_unsigned fresh_temp (ucast x)))
      else if c = of_char CHR ''x'' then
        (case va_int vlist of Inl e \<Rightarrow> Inl e
         | Inr (x, vlist) \<Rightarrow> from_temp format vlist (int_to_hex fresh_temp (ucast x) 8))
      else if at_fmt ''llx'' then
        (case va_long_long vlist of Inl e \<Rightarrow> Inl e
         | Inr (x, vlist) \<Rightarrow> from_temp (format + 2) vlist (int_to_hex fresh_temp x 16))
      else if at_fmt ''llu'' then
        (case va_long_long vlist of Inl e \<Rightarrow> Inl e
         | Inr (x, vlist) \<Rightarrow> from_temp (format + 2) vlist (to_str_unsigned fresh_temp x))
      else if at_fmt ''lu'' then
        (case va_int vlist of Inl e \<Rightarrow> Inl e
         | Inr (x, vlist) \<Rightarrow> from_temp (format + 1) vlist (to_str_unsigned fresh_temp (ucast x)))
      else Inr (format + 1, map (c_str fs) [start_fmt..<format + 1], vlist))"

lemma from_temp_next: "from_temp format args t = Inr (j, r) \<Longrightarrow> j = format + 1"
  by (auto simp: from_temp_def split: sum.splits option.splits)

lemma directive_next: "directive fs i args = Inr (j, r) \<Longrightarrow> i < j"
  by (auto simp: directive_def Let_def split: sum.splits option.splits if_splits dest!: from_temp_next)

function vsnprintf_loop ::
  "u32 \<Rightarrow> u8 list \<Rightarrow> nat \<Rightarrow> vslot list \<Rightarrow> outbuf \<Rightarrow> kerror + outbuf" where
  "vsnprintf_loop bufsz fs format vlist st =
     (if length fs < format then Inl (Undefined ''vsnprintf: format read past its end'')
      else let c = c_str fs format in
        if c = 0 then Inr st
        else if c \<noteq> of_char CHR ''%'' then
          (case emit bufsz st c of Inl e \<Rightarrow> Inl e
           | Inr st \<Rightarrow> vsnprintf_loop bufsz fs (format + 1) vlist st)
        else
          (case directive fs format vlist of Inl e \<Rightarrow> Inl e
           | Inr (format', bytes, vlist) \<Rightarrow>
             (case emit_all bufsz st bytes of Inl e \<Rightarrow> Inl e
              | Inr st \<Rightarrow> vsnprintf_loop bufsz fs format' vlist st)))"
  by pat_completeness auto
termination
  by (relation "measure (\<lambda>(bufsz, fs, format, vlist, st). Suc (length fs) - format)")
    (auto dest!: directive_next)

declare vsnprintf_loop.simps [simp del]

definition vsnprintf :: "u8 list \<Rightarrow> u32 \<Rightarrow> u8 list \<Rightarrow> vslot list \<Rightarrow> kerror + (u8 list \<times> u32)" where
  "vsnprintf buf bufsz fs vlist =
     (case vsnprintf_loop bufsz fs 0 vlist \<lparr>buffer = buf, out = 0, written = 0\<rparr> of Inl e \<Rightarrow> Inl e
      | Inr st \<Rightarrow>
        (if 0 < bufsz
         then (case store_at (buffer st)
                 (if bufsz \<le> written st then unat (bufsz - 1) else unat (written st)) 0 of
                 Inl e \<Rightarrow> Inl e
               | Inr b \<Rightarrow> Inr (b, written st))
         else Inr (buffer st, written st)))"

subsection \<open>Reference: pieces of a format\<close>

datatype piece = Plain u8 | Arg_c | Arg_s | Arg_d | Arg_u | Arg_x | Arg_llx | Arg_llu | Arg_lu

definition directives :: "(string \<times> piece) list" where
  "directives = [(''%'', Plain 37), (''c'', Arg_c), (''s'', Arg_s), (''d'', Arg_d), (''u'', Arg_u),
     (''x'', Arg_x), (''llx'', Arg_llx), (''llu'', Arg_llu), (''lu'', Arg_lu)]"

function pieces :: "u8 list \<Rightarrow> piece list option" where
  "pieces [] = Some []"
| "pieces (c # cs) =
     (if c \<noteq> 37 then map_option (\<lambda>ps. Plain c # ps) (pieces cs)
      else case find (\<lambda>(s, p). prefix (lit s) cs) directives of
        Some (s, p) \<Rightarrow> map_option (\<lambda>ps. p # ps) (pieces (drop (length s) cs))
      | None \<Rightarrow> if cs = [] \<or> cs = lit ''l'' \<or> cs = lit ''ll'' then None
          else map_option (\<lambda>ps. Plain c # Plain (hd cs) # ps) (pieces (tl cs)))"
  by pat_completeness auto
termination
  by (relation "measure length") auto

declare pieces.simps(2) [simp del]

primrec hex :: "nat \<Rightarrow> u64 \<Rightarrow> u8 list" where
  "hex 0 v = []"
| "hex (Suc n) v = hex n (drop_bit 4 v) @ [hex_digit v]"

definition print_signed :: "u32 \<Rightarrow> u8 list option" where
  "print_signed w = (if w = 0x80000000 then None else Some (decimal (sint w)))"

fun print_piece :: "piece \<Rightarrow> vslot list \<Rightarrow> (u8 list \<times> vslot list) option" where
  "print_piece (Plain c) args = Some ([c], args)"
| "print_piece Arg_c (VWord w # args) = Some ([ucast w], args)"
| "print_piece Arg_s (VStr s # args) = Some (c_content s, args)"
| "print_piece Arg_d (VWord w # args) = map_option (\<lambda>bs. (bs, args)) (print_signed w)"
| "print_piece Arg_u (VWord w # args) = map_option (\<lambda>bs. (bs, args)) (print_signed w)"
| "print_piece Arg_lu (VWord w # args) = map_option (\<lambda>bs. (bs, args)) (print_signed w)"
| "print_piece Arg_llu (VWord lo # VWord hi # args) = map_option (\<lambda>bs. (bs, args)) (print_signed lo)"
| "print_piece Arg_x (VWord w # args) = Some (hex 8 (ucast w), args)"
| "print_piece Arg_llx (VWord lo # VWord hi # args) = Some (hex 8 (ucast hi) @ hex 8 (ucast lo), args)"
| "print_piece _ _ = None"

fun print_pieces :: "piece list \<Rightarrow> vslot list \<Rightarrow> u8 list option" where
  "print_pieces [] args = Some []"
| "print_pieces (p # ps) args = (case print_piece p args of None \<Rightarrow> None
     | Some (bs, args) \<Rightarrow> map_option (\<lambda>rest. bs @ rest) (print_pieces ps args))"

definition render :: "u8 list \<Rightarrow> vslot list \<Rightarrow> u8 list option" where
  "render fs args = Option.bind (pieces fs) (\<lambda>ps. print_pieces ps args)"

subsection \<open>Hexadecimal numbers\<close>

lemma int_to_hex_loop_spec:
  "n \<le> length buf \<Longrightarrow> int_to_hex_loop buf v n = Inr (hex n v @ drop n buf)"
  by (induction n arbitrary: buf v)
    (auto simp: store_at_def drop_update_swap Cons_nth_drop_Suc [symmetric])

lemma length_hex [simp]: "length (hex n v) = n"
  by (induction n arbitrary: v) auto

lemma int_to_hex_spec:
  "n < length buf \<Longrightarrow> int_to_hex buf v n = Inr (hex n v @ 0 # drop (Suc n) buf)"
  using store_at_app [of "hex n v" "buf ! n" "drop (Suc n) buf" 0]
  by (simp add: int_to_hex_def int_to_hex_loop_spec Cons_nth_drop_Suc)

lemma hex_split: "hex (m + n) v = hex m (drop_bit (4 * n) v) @ hex n v"
  by (induction n arbitrary: v) (auto simp: add.commute)

lemma hex_digit_take_bit: "hex_digit v = lit ''0123456789abcdef'' ! unat (take_bit 4 v)"
  by (simp add: hex_digit_def take_bit_eq_mask mask_eq_exp_minus_1)

lemma hex_take_bit: "n \<le> k \<Longrightarrow> hex n (take_bit (4 * k) v) = hex n v"
proof (induction n arbitrary: v k)
  case (Suc n)
  then obtain k' where k: "k = Suc k'" "n \<le> k'" by (cases k) auto
  have "hex_digit (take_bit (4 * k) v) = hex_digit v"
    by (simp add: hex_digit_take_bit k(1) min_def)
  moreover have "drop_bit 4 (take_bit (4 * k) v) = take_bit (4 * k') (drop_bit 4 v)"
    by (simp add: k drop_bit_take_bit)
  ultimately show ?case using Suc.IH [OF k(2)] by simp
qed simp

definition hex_digit_value :: "u8 \<Rightarrow> nat" where
  "hex_digit_value d = (if d < 97 then unat d - 48 else unat d - 87)"

definition hex_value :: "u8 list \<Rightarrow> nat" where
  "hex_value ds = foldl (\<lambda>n d. 16 * n + hex_digit_value d) 0 ds"

lemma hex_digit_table:
  "list_all (\<lambda>k. lit ''0123456789abcdef'' ! k \<noteq> 0 \<and>
     hex_digit_value (lit ''0123456789abcdef'' ! k) = k) [0..<16]"
  by code_simp

lemma hex_digit_facts: "hex_digit v \<noteq> 0 \<and> hex_digit_value (hex_digit v) = unat (take_bit 4 v)"
proof -
  have "unat (take_bit 4 v) < 16"
    using take_bit_nat_less_exp [of 4 "unat v"] by (simp add: unsigned_take_bit_eq)
  with hex_digit_table show ?thesis by (simp add: hex_digit_take_bit list_all_iff)
qed

lemma hex_no_nul: "0 \<notin> set (hex n v)"
proof (induction n arbitrary: v)
  case (Suc n)
  with hex_digit_facts [of v] show ?case by auto
qed simp

lemma hex_value_hex: "hex_value (hex n v) = unat (take_bit (4 * n) v)"
proof (induction n arbitrary: v)
  case (Suc n)
  have "hex_value (hex (Suc n) v) = 16 * unat (take_bit (4 * n) (drop_bit 4 v)) + unat (take_bit 4 v)"
    using Suc [of "drop_bit 4 v"] hex_digit_facts [of v] by (simp add: hex_value_def)
  also have "unat (take_bit (4 * n) (drop_bit 4 v)) = take_bit (4 * n) (drop_bit 4 (unat v))"
    using take_bit_nat_eq_self [OF unsigned_less [of v]]
    by (simp add: unsigned_take_bit_eq unsigned_drop_bit_eq)
  also have "unat (take_bit 4 v) = take_bit 4 (unat v)"
    by (simp only: unsigned_take_bit_eq)
  also have "16 * take_bit (4 * n) (drop_bit 4 (unat v)) + take_bit 4 (unat v) =
      take_bit (4 * Suc n) (unat v)"
    by (simp add: take_bit_eq_mod drop_bit_eq_div mod_mult2_eq power_add)
  finally show ?case by (simp add: unsigned_take_bit_eq)
qed (simp add: hex_value_def)

subsection \<open>Each directive prints its piece\<close>

definition ok :: "kerror + 'a \<Rightarrow> 'a option" where
  "ok r = (case r of Inl e \<Rightarrow> None | Inr x \<Rightarrow> Some x)"

lemma ok_simps [simp]: "ok (Inl e) = None" "ok (Inr x) = Some x"
  by (simp_all add: ok_def)

lemma from_temp_spec:
  "0 \<notin> set xs \<Longrightarrow> from_temp format args (Inr (xs @ 0 # rest)) = Inr (format + 1, xs, args)"
  by (simp add: from_temp_def strlen_c_str c_content_no_nul)

lemma from_temp_decimal:
  "ok (from_temp format args (to_str fresh_temp (sint w))) =
    map_option (\<lambda>bs. (format + 1, bs, args)) (print_signed w)" for w :: u32
proof (cases "w = 0x80000000")
  case True
  then show ?thesis by (simp add: print_signed_def to_str_def from_temp_def)
next
  case False
  have lo: "- (2 ^ 31) \<le> sint w" and hi: "sint w < 2 ^ 31"
    using sint_greater_eq [of w] sint_less [of w] by simp_all
  have "sint w \<noteq> - (2 ^ 31)"
  proof
    assume "sint w = - (2 ^ 31)"
    then have "sint w = sint (0x80000000 :: u32)" by simp
    then have "w = 0x80000000" by (rule signed_word_eqI)
    then show False using False by simp
  qed
  with lo have lo': "- (2 ^ 31) < sint w" by simp
  have "0 \<in> set fresh_temp" "length (decimal (sint w)) < length fresh_temp"
    using length_decimal [OF lo hi] by (simp_all add: fresh_temp_def)
  from to_str_spec [OF this(1) lo' this(2)] obtain rest
    where "to_str fresh_temp (sint w) = Inr (decimal (sint w) @ 0 # rest)" by blast
  then show ?thesis
    using False by (simp add: print_signed_def from_temp_spec decimal_no_nul)
qed

lemma from_temp_hex:
  "n < 32 \<Longrightarrow> from_temp format args (int_to_hex fresh_temp v n) = Inr (format + 1, hex n v, args)"
  by (simp add: int_to_hex_spec from_temp_spec hex_no_nul fresh_temp_def)

lemma hex_long_long:
  "hex 16 (ucast lo + push_bit 32 (ucast hi)) = hex 8 (ucast hi) @ hex 8 (ucast lo)"
  for lo hi :: u32
proof -
  define v :: u64 where "v = ucast lo + push_bit 32 (ucast hi)"
  have v: "v = or (ucast lo) (push_bit 32 (ucast hi))"
    unfolding v_def by (rule disjunctive_add) (auto simp: bit_simps dest: bit_imp_le_length)
  have hi: "drop_bit 32 v = ucast hi"
    by (rule bit_word_eqI) (auto simp: v bit_simps dest: bit_imp_le_length)
  have lo: "take_bit 32 v = ucast lo"
    by (rule bit_word_eqI) (auto simp: v bit_simps dest: bit_imp_le_length)
  have "hex 16 v = hex 8 (drop_bit 32 v) @ hex 8 (take_bit 32 v)"
    using hex_split [of 8 8 v] hex_take_bit [of 8 8 v] by simp
  then show ?thesis by (simp add: hi lo flip: v_def)
qed

lemma low_long_long: "ucast (ucast lo + push_bit 32 (ucast hi :: u64) :: u64) = lo" for lo hi :: u32
proof -
  have v: "ucast lo + push_bit 32 (ucast hi) = or (ucast lo) (push_bit 32 (ucast hi) :: u64)"
    by (rule disjunctive_add) (auto simp: bit_simps dest: bit_imp_le_length)
  show ?thesis unfolding v
    by (rule bit_word_eqI) (auto simp: bit_simps)
qed

lemma c_str_drop: "(\<lambda>k. c_str fs (i + k)) = c_str (drop i fs)"
  by (rule ext) (auto simp: c_str_def)

lemma find_directive_unknown:
  "find (\<lambda>(s, p). prefix (lit s) cs) directives = None \<longleftrightarrow>
    (cs = [] \<or> hd cs \<notin> set (lit ''%csdux'')) \<and> \<not> prefix (lit ''llx'') cs \<and> \<not> prefix (lit ''llu'') cs
    \<and> \<not> prefix (lit ''lu'') cs"
  by (cases cs) (auto simp: find_None_iff directives_def lit_def)

lemma take_eq_prefix: "take (length xs) ys = xs \<longleftrightarrow> prefix xs ys"
  by (metis append_eq_conv_conj prefix_def)

lemma prefix_either:
  "take (min (length xs) (length ys)) xs = take (min (length xs) (length ys)) ys \<longleftrightarrow>
    prefix xs ys \<or> prefix ys xs"
proof (cases "length xs \<le> length ys")
  case True
  have "prefix ys xs \<Longrightarrow> prefix xs ys"
    using True by (metis prefix_length_le le_antisym prefix_order.order_refl take_all take_eq_prefix)
  with True show ?thesis using take_eq_prefix [of xs ys] by (auto simp: min_def)
next
  case False
  have "prefix xs ys \<Longrightarrow> prefix ys xs"
    using False prefix_length_le by blast
  with False show ?thesis using take_eq_prefix [of ys xs] by (auto simp: min_def)
qed

lemma strncmp_lit:
  assumes "0 \<notin> set cs" "0 \<notin> set (lit s)"
  shows "strncmp (c_str cs) (c_str (lit s)) (length s) = 0 \<longleftrightarrow> prefix (lit s) cs \<or> prefix cs (lit s)"
proof -
  have "min (length s) (min (length cs) (length (lit s))) = min (length cs) (length (lit s))"
    by (simp add: lit_def)
  then show ?thesis
    using prefix_either [of cs "lit s"] by (simp add: strncmp_zero_iff [OF assms] disj_commute)
qed

lemma print_piece_cases:
  "print_piece Arg_c args = map_option (\<lambda>(w, r). ([ucast w], r)) (ok (va_int args))"
  "print_piece Arg_s args = map_option (\<lambda>(s, r). (c_content s, r)) (ok (va_str args))"
  "print_piece Arg_d args = Option.bind (ok (va_int args)) (\<lambda>(w, r). map_option (\<lambda>bs. (bs, r)) (print_signed w))"
  "print_piece Arg_u args = Option.bind (ok (va_int args)) (\<lambda>(w, r). map_option (\<lambda>bs. (bs, r)) (print_signed w))"
  "print_piece Arg_lu args = Option.bind (ok (va_int args)) (\<lambda>(w, r). map_option (\<lambda>bs. (bs, r)) (print_signed w))"
  "print_piece Arg_x args = map_option (\<lambda>(w, r). (hex 8 (ucast w), r)) (ok (va_int args))"
  "print_piece Arg_llx args = map_option (\<lambda>(v, r). (hex 16 v, r)) (ok (va_long_long args))"
  "print_piece Arg_llu args = Option.bind (ok (va_long_long args)) (\<lambda>(v, r). map_option (\<lambda>bs. (bs, r)) (print_signed (ucast v)))"
  by (simp_all add: va_int_def va_str_def va_long_long_def hex_long_long low_long_long
      split: list.split vslot.split)

lemma ucast_up_down: "ucast (ucast w :: u64) = w" for w :: u32
  by (rule bit_word_eqI) (auto simp: bit_simps)

definition directive_at :: "u8 list \<Rightarrow> nat \<Rightarrow> u8 list \<Rightarrow> vslot list \<Rightarrow> (nat \<times> u8 list \<times> vslot list) option" where
  "directive_at cs format lits args =
     (let c = c_str cs 0; at = (\<lambda>s. prefix (lit s) cs \<or> prefix cs (lit s));
        via = (\<lambda>n p. map_option (\<lambda>(bs, r). (format + n, bs, r)) (print_piece p args)) in
      if c = 37 then via 1 (Plain 37) else if c = 99 then via 1 Arg_c
      else if c = 115 then via 1 Arg_s else if c = 100 then via 1 Arg_d
      else if c = 117 then via 1 Arg_u else if c = 120 then via 1 Arg_x
      else if at ''llx'' then via 3 Arg_llx else if at ''llu'' then via 3 Arg_llu
      else if at ''lu'' then via 2 Arg_lu
      else Some (format + 1, lits, args))"

lemma directive_pieces:
  assumes "0 \<notin> set fs"
  shows "ok (directive fs i args) =
    directive_at (drop (i + 1) fs) (i + 1) (map (c_str fs) [i..<i + 2]) args"
proof -
  let ?cs = "drop (i + 1) fs"
  have n: "0 \<notin> set ?cs" using assms by (meson in_set_dropD)
  have l: "0 \<notin> set (lit ''llx'')" "0 \<notin> set (lit ''llu'')" "0 \<notin> set (lit ''lu'')"
    by (simp_all add: lit_def)
  have at: "strncmp (\<lambda>k. c_str fs (i + 1 + k)) (c_str (lit s)) (length s) = 0 \<longleftrightarrow>
      prefix (lit s) ?cs \<or> prefix ?cs (lit s)" if "0 \<notin> set (lit s)" for s
    unfolding c_str_drop by (rule strncmp_lit [OF n that])
  have c: "c_str fs (i + 1) = c_str ?cs 0" using c_str_drop [of fs "i + 1"] by (metis add_0_right)
  have ch: "of_char CHR ''%'' = (37::u8)" "of_char CHR ''c'' = (99::u8)" "of_char CHR ''s'' = (115::u8)"
    "of_char CHR ''d'' = (100::u8)" "of_char CHR ''u'' = (117::u8)" "of_char CHR ''x'' = (120::u8)"
    by simp_all
  have m: "[i..<i + 1 + 1] = [i..<i + 2]" by simp
  have s: "Suc (Suc (Suc (Suc i))) = 4 + i" "Suc (Suc (Suc i)) = 3 + i" by simp_all
  show ?thesis
    unfolding directive_def directive_at_def Let_def at [OF l(1)] at [OF l(2)] at [OF l(3)] c ch m
    by (simp add: print_piece_cases from_temp_decimal from_temp_hex to_str_unsigned_def
        strlen_c_str c_content_def takeWhile_eq_take [symmetric] option.map_comp comp_def
        ucast_up_down s split: sum.split prod.split)
qed

definition format_end :: "u8 list \<Rightarrow> bool" where
  "format_end cs \<longleftrightarrow> cs = [] \<or> cs = lit ''l'' \<or> cs = lit ''ll''"

lemma prefix_of_directive:
  "prefix cs (lit ''llx'') \<longleftrightarrow> format_end cs \<or> cs = lit ''llx''"
  "prefix cs (lit ''llu'') \<longleftrightarrow> format_end cs \<or> cs = lit ''llu''"
  "prefix cs (lit ''lu'') \<Longrightarrow> format_end cs \<or> cs = lit ''lu''"
  by (auto simp: format_end_def lit_def prefix_Cons)

lemma directive_spellings:
  "lit ''%'' = [37]" "lit ''c'' = [99]" "lit ''s'' = [115]" "lit ''d'' = [100]" "lit ''u'' = [117]"
  "lit ''x'' = [120]" "lit ''llx'' = [108, 108, 120]" "lit ''llu'' = [108, 108, 117]"
  "lit ''lu'' = [108, 117]" "lit ''l'' = [108]" "lit ''ll'' = [108, 108]"
  by (simp_all add: lit_def)

lemma c_str_0: "c_str [] 0 = 0" "c_str (a # zs) 0 = a"
  by (simp_all add: c_str_def)

lemma directive_known:
  assumes "find (\<lambda>(s, p). prefix (lit s) cs) directives = Some (s, p)"
  shows "directive_at cs format lits args =
    map_option (\<lambda>(bs, r). (format + length s, bs, r)) (print_piece p args)"
proof -
  have "prefix (lit s) cs \<and> (s, p) \<in> set directives"
    using assms by (auto simp: find_Some_iff in_set_conv_nth)
  then obtain zs where cs: "cs = lit s @ zs" and sp: "(s, p) \<in> set directives"
    by (auto simp: prefix_def)
  show ?thesis
    using sp unfolding cs directives_def list.set
    by (elim insertE emptyE) (simp_all add: directive_at_def Let_def directive_spellings c_str_0 numeral_3_eq_3)
qed

lemma directive_end:
  assumes "format_end cs" and "directive_at cs format lits args = Some (j, r)"
  shows "format + length cs < j"
  using assms unfolding format_end_def
  by (elim disjE) (auto simp: directive_at_def Let_def directive_spellings c_str_0)

lemma directive_unknown:
  assumes "find (\<lambda>(s, p). prefix (lit s) cs) directives = None" and "\<not> format_end cs"
  shows "directive_at cs format lits args = Some (format + 1, lits, args)"
proof -
  obtain a zs where cs: "cs = a # zs" using assms(2) by (cases cs) (auto simp: format_end_def)
  have f: "\<not> prefix (lit ''llx'') cs" "\<not> prefix (lit ''llu'') cs" "\<not> prefix (lit ''lu'') cs"
    "a \<notin> set (lit ''%csdux'')"
    using assms(1) cs by (simp_all add: find_directive_unknown)
  moreover have "\<not> prefix cs (lit ''llx'')" "\<not> prefix cs (lit ''llu'')" "\<not> prefix cs (lit ''lu'')"
    using assms(2) f prefix_of_directive [of cs] by auto
  moreover have "a \<noteq> 37" "a \<noteq> 99" "a \<noteq> 115" "a \<noteq> 100" "a \<noteq> 117" "a \<noteq> 120"
    using f(4) by (auto simp: lit_def)
  ultimately show ?thesis
    by (simp add: directive_at_def Let_def cs c_str_0)
qed

lemma render_Nil: "render [] args = Some []"
  by (simp add: render_def)

lemma append_single: "(@) [c] = (#) c"
  by (rule ext) simp

lemma render_plain: "c \<noteq> 37 \<Longrightarrow> render (c # cs) args = map_option (\<lambda>bs. c # bs) (render cs args)"
  by (cases "pieces cs") (simp_all add: render_def pieces.simps append_single)

lemma render_known:
  assumes "find (\<lambda>(s, p). prefix (lit s) cs) directives = Some (s, p)"
  shows "render (37 # cs) args = Option.bind (print_piece p args)
    (\<lambda>(bs, r). map_option (\<lambda>rest. bs @ rest) (render (drop (length s) cs) r))"
  using assms by (cases "pieces (drop (length s) cs)"; cases "print_piece p args")
    (auto simp: render_def pieces.simps)

lemma render_unknown:
  assumes "find (\<lambda>(s, p). prefix (lit s) cs) directives = None"
  shows "render (37 # cs) args = (if format_end cs then None
    else map_option (\<lambda>rest. [37, hd cs] @ rest) (render (tl cs) args))"
  using assms by (cases "pieces (tl cs)") (auto simp: render_def pieces.simps format_end_def option.map_comp comp_def)

lemma ok_emit_Cons: "ok (emit_all B st (c # cs)) = Option.bind (ok (emit B st c)) (\<lambda>st. ok (emit_all B st cs))"
  by (simp split: sum.split)

lemma ok_emit_append:
  "ok (emit_all B st (xs @ ys)) = Option.bind (ok (emit_all B st xs)) (\<lambda>st. ok (emit_all B st ys))"
  by (induction xs arbitrary: st) (auto split: sum.split)

declare emit_all.simps(2) [simp del]

lemma ok_loop:
  assumes "i < length fs" "fs ! i \<noteq> 0"
  shows "ok (vsnprintf_loop B fs i args st) =
    (if fs ! i \<noteq> 37 then Option.bind (ok (emit B st (fs ! i))) (\<lambda>st. ok (vsnprintf_loop B fs (i + 1) args st))
     else Option.bind (ok (directive fs i args)) (\<lambda>(j, bs, r).
       Option.bind (ok (emit_all B st bs)) (\<lambda>st. ok (vsnprintf_loop B fs j r st))))"
  using assms by (subst vsnprintf_loop.simps) (simp add: c_str_def split: sum.split prod.split)

lemma loop_renders:
  assumes nz: "0 \<notin> set fs"
  shows "i \<le> length fs \<Longrightarrow> ok (vsnprintf_loop B fs i args st) =
    Option.bind (render (drop i fs) args) (\<lambda>bs. ok (emit_all B st bs))"
proof (induction "length fs - i" arbitrary: i args st rule: less_induct)
  case less
  show ?case
  proof (cases "i = length fs")
    case True
    then show ?thesis by (simp add: vsnprintf_loop.simps c_str_def render_Nil)
  next
    case False
    then have i: "i < length fs" using less.prems by simp
    define cs where "cs = drop (i + 1) fs"
    have d: "drop i fs = fs ! i # cs" using i by (simp add: cs_def Cons_nth_drop_Suc)
    have c: "fs ! i \<noteq> 0" using i nz by (metis nth_mem)
    have IH: "ok (vsnprintf_loop B fs (i + 1 + n) r st') =
        Option.bind (render (drop n cs) r) (\<lambda>bs. ok (emit_all B st' bs))" if "n \<le> length cs" for n r st'
      using less.hyps [of "i + 1 + n"] i that by (simp add: cs_def add.commute)
    show ?thesis
    proof (cases "fs ! i = 37")
      case False
      then show ?thesis
        using IH [of 0 args] i c d
        by (cases "render cs args"; cases "ok (emit B st (fs ! i))")
          (simp_all add: ok_loop render_plain ok_emit_Cons)
    next
      case True
      define lits where "lits = map (c_str fs) [i..<i + 2]"
      have dir: "ok (directive fs i args) = directive_at cs (i + 1) lits args"
        unfolding cs_def lits_def by (rule directive_pieces [OF nz])
      have loop: "ok (vsnprintf_loop B fs i args st) =
          Option.bind (directive_at cs (i + 1) lits args) (\<lambda>(j, bs, r).
            Option.bind (ok (emit_all B st bs)) (\<lambda>st. ok (vsnprintf_loop B fs j r st)))"
        using ok_loop [OF i c, of B args st] True dir by simp
      show ?thesis
      proof (cases "find (\<lambda>(s, p). prefix (lit s) cs) directives")
        case (Some sp)
        obtain s p where sp: "sp = (s, p)" by fastforce
        have known: "find (\<lambda>(s, p). prefix (lit s) cs) directives = Some (s, p)"
          using Some sp by simp
        then have "prefix (lit s) cs" by (auto simp: find_Some_iff)
        then have "length s \<le> length cs" using prefix_length_le by (fastforce simp: lit_def)
        then show ?thesis
          unfolding loop d True directive_known [OF known] render_known [OF known] using IH
          by (cases "print_piece p args")
            (auto simp: ok_emit_append bind_map_option comp_def option.map_comp
              split: Option.bind_split)
      next
        case None
        show ?thesis
        proof (cases "format_end cs")
          case True
          have "ok (vsnprintf_loop B fs j r st') = None" if "length fs < j" for j r st'
            using that by (simp add: vsnprintf_loop.simps)
          moreover have "length fs < j" if "directive_at cs (i + 1) lits args = Some (j, r)" for j r
            using directive_end [OF True that] i by (simp add: cs_def)
          ultimately show ?thesis
            unfolding loop d \<open>fs ! i = 37\<close> render_unknown [OF None]
            using True by (auto split: Option.bind_split)
        next
          case False
          then have "cs \<noteq> []" by (auto simp: format_end_def)
          then have "i + 1 < length fs" by (simp add: cs_def)
          then have ih: "ok (vsnprintf_loop B fs (i + 1 + 1) args st') =
              Option.bind (render (tl cs) args) (\<lambda>bs. ok (emit_all B st' bs))" for st'
            using IH [of 1 args st'] by (simp add: cs_def drop_Suc tl_drop)
          have "lits = [37, hd cs]"
            using \<open>i + 1 < length fs\<close> \<open>fs ! i = 37\<close> i by (simp add: lits_def cs_def upt_rec c_str_def hd_drop_conv_nth)
          then show ?thesis
            using ih False
            unfolding loop d \<open>fs ! i = 37\<close> render_unknown [OF None] directive_unknown [OF None False]
            by (cases "render (tl cs) args")
              (auto simp del: append_Cons simp: ok_emit_append split: Option.bind_split)
        qed
      qed
    qed
  qed
qed

subsection \<open>The buffer after printing\<close>

definition filled :: "u8 list \<Rightarrow> u32 \<Rightarrow> u8 list \<Rightarrow> outbuf" where
  "filled buf bufsz w =
     \<lparr>buffer = take (unat bufsz - 1) w @ drop (min (length w) (unat bufsz - 1)) buf,
      out = min (length w) (unat bufsz - 1), written = of_nat (length w)\<rparr>"

lemma emit_filled:
  assumes "unat bufsz \<le> length buf" and "length w + 1 < 2 ^ 32"
  shows "emit bufsz (filled buf bufsz w) c = Inr (filled buf bufsz (w @ [c]))"
proof -
  let ?B = "unat bufsz - 1"
  have w: "(of_nat (length w) + 1 :: u32) = of_nat (length w + 1)" by simp
  have cond: "(of_nat (length w) + 1 :: u32) < bufsz \<longleftrightarrow> length w < ?B"
    unfolding w word_less_nat_alt unat_of_nat32 [OF assms(2)] by linarith
  then have cond': "(1 + of_nat (length w) :: u32) < bufsz \<longleftrightarrow> length w < ?B" by (simp add: add.commute)
  show ?thesis
  proof (cases "length w < ?B")
    case True
    then have "drop (length w) buf = buf ! length w # drop (Suc (length w)) buf"
      using assms(1) by (intro Cons_nth_drop_Suc [symmetric]) linarith
    then show ?thesis
      using True store_at_app [of w "buf ! length w" "drop (Suc (length w)) buf" c]
      by (simp add: emit_def filled_def cond' add.commute min_def)
  next
    case False
    then show ?thesis by (simp add: emit_def filled_def cond' add.commute min_def)
  qed
qed

lemma emit_all_filled:
  assumes "unat bufsz \<le> length buf"
  shows "length (w @ cs) < 2 ^ 32 \<Longrightarrow>
    emit_all bufsz (filled buf bufsz w) cs = Inr (filled buf bufsz (w @ cs))"
  by (induction cs arbitrary: w) (simp_all add: emit_all.simps(2) emit_filled [OF assms])

definition printed :: "u8 list \<Rightarrow> u32 \<Rightarrow> u8 list \<Rightarrow> u8 list" where
  "printed buf bufsz bs =
     (if bufsz = 0 then buf
      else take (unat bufsz - 1) bs @ 0 # drop (min (length bs) (unat bufsz - 1) + 1) buf)"

lemma vsnprintf_spec:
  assumes "0 \<notin> set fs" and B: "unat bufsz \<le> length buf"
  shows "render fs args = Some bs \<Longrightarrow> length bs < 2 ^ 32 \<Longrightarrow>
      vsnprintf buf bufsz fs args = Inr (printed buf bufsz bs, of_nat (length bs))"
    and "render fs args = None \<Longrightarrow> \<exists>e. vsnprintf buf bufsz fs args = Inl e"
proof -
  let ?st = "filled buf bufsz []"
  have st: "\<lparr>buffer = buf, out = 0, written = 0\<rparr> = ?st" by (simp add: filled_def)
  have loop: "ok (vsnprintf_loop bufsz fs 0 args ?st) =
      Option.bind (render fs args) (\<lambda>bs. ok (emit_all bufsz ?st bs))"
    using loop_renders [OF assms(1), of 0] by simp
  { assume r: "render fs args = Some bs" and n: "length bs < 2 ^ 32"
    have "ok (vsnprintf_loop bufsz fs 0 args ?st) = Some (filled buf bufsz bs)"
      using loop r n emit_all_filled [OF B, of "[]" bs] by simp
    then have run: "vsnprintf_loop bufsz fs 0 args ?st = Inr (filled buf bufsz bs)"
      by (simp add: ok_def split: sum.splits)
    define pos where "pos = min (length bs) (unat bufsz - 1)"
    have "unat (bufsz - 1) = unat bufsz - 1" if "0 < bufsz"
      using that unat_sub_le [of 1 bufsz] by (simp add: word_le_nat_alt word_less_nat_alt)
    then have pos: "0 < bufsz \<Longrightarrow> (if bufsz \<le> of_nat (length bs) then unat (bufsz - 1)
        else unat (of_nat (length bs) :: u32)) = pos"
      using n by (auto simp: pos_def word_le_nat_alt unat_of_nat32)
    have "store_at (buffer (filled buf bufsz bs)) pos 0 = Inr (printed buf bufsz bs)" if "0 < bufsz"
    proof -
      have "pos < length buf" using that B unfolding pos_def word_less_nat_alt by auto
      then have d: "drop pos buf = buf ! pos # drop (Suc pos) buf" by (rule Cons_nth_drop_Suc [symmetric])
      have b: "buffer (filled buf bufsz bs) = take (unat bufsz - 1) bs @ drop pos buf"
        by (simp add: filled_def pos_def)
      have p: "printed buf bufsz bs = take (unat bufsz - 1) bs @ 0 # drop (Suc pos) buf"
        using that by (auto simp: printed_def pos_def)
      have "length (take (unat bufsz - 1) bs) = pos" by (simp add: pos_def)
      then show ?thesis unfolding b p d by (metis store_at_app)
    qed
    note stored = this
    have w: "written (filled buf bufsz bs) = of_nat (length bs)" by (simp add: filled_def)
    show "vsnprintf buf bufsz fs args = Inr (printed buf bufsz bs, of_nat (length bs))"
    proof (cases "bufsz = 0")
      case True
      then show ?thesis unfolding vsnprintf_def st run by (simp add: printed_def filled_def)
    next
      case False
      then have "0 < bufsz" by (simp add: word_neq_0_conv)
      then show ?thesis unfolding vsnprintf_def st run
        by (simp only: sum.case w pos stored if_True)
    qed }
  { assume "render fs args = None"
    then show "\<exists>e. vsnprintf buf bufsz fs args = Inl e"
      using loop by (auto simp: vsnprintf_def st ok_def split: sum.splits) }
qed

subsection \<open>Properties\<close>

text \<open>
  C5. \<open>vsnprintf\<close> prints what the table-driven reference renders from the format and the
  arguments: whenever \<open>render\<close> is defined the call returns the number of characters rendered and
  a buffer with the first \<open>bufsz - 1\<close> of them, a terminator, and the old bytes after it; whenever
  it is not, the call runs into undefined behaviour.
\<close>

theorem vsnprintf_renders:
  assumes "0 \<notin> set fs" and "unat bufsz \<le> length buf"
  shows "case render fs args of
      None \<Rightarrow> \<exists>e. vsnprintf buf bufsz fs args = Inl e
    | Some bs \<Rightarrow> length bs < 2 ^ 32 \<longrightarrow>
        vsnprintf buf bufsz fs args = Inr (printed buf bufsz bs, of_nat (length bs))"
  using vsnprintf_spec [OF assms, of args] by (auto split: option.split)

theorem vsnprintf_renders_witness:
  "vsnprintf (replicate 40 7) 40 (lit ''anant %d <%s> %d END'')
     [VWord 1, VStr (lit ''str_here''), VWord 0xFFFFFFFF] =
   Inr (printed (replicate 40 7) 40 (lit ''anant 1 <str_here> -1 END''), 25)"
proof -
  have r: "render (lit ''anant %d <%s> %d END'') [VWord 1, VStr (lit ''str_here''), VWord 0xFFFFFFFF] =
      Some (lit ''anant 1 <str_here> -1 END'')"
    by code_simp
  show ?thesis
    using vsnprintf_renders [of "lit ''anant %d <%s> %d END''" 40 "replicate 40 7"
        "[VWord 1, VStr (lit ''str_here''), VWord 0xFFFFFFFF]"] unfolding r
    by (simp add: lit_def)
qed

text \<open>
  C32. \<open>vsnprintf\<close> keeps to its buffer. Every result has the length of the old buffer; the bytes
  from \<open>bufsz\<close> on are the old ones; and when \<open>bufsz\<close> is not zero there is a terminator at the
  number of characters rendered, or at the last place of the buffer when they do not fit.
\<close>

theorem vsnprintf_stays_in_buffer:
  assumes "0 \<notin> set fs" and "unat bufsz \<le> length buf"
    and "render fs args = Some bs" and "length bs < 2 ^ 32"
  shows "\<exists>buf'. vsnprintf buf bufsz fs args = Inr (buf', of_nat (length bs)) \<and> length buf' = length buf
    \<and> drop (unat bufsz) buf' = drop (unat bufsz) buf
    \<and> (0 < bufsz \<longrightarrow> buf' ! min (length bs) (unat bufsz - 1) = 0
        \<and> take (min (length bs) (unat bufsz - 1)) buf' = take (unat bufsz - 1) bs)"
proof -
  have r: "vsnprintf buf bufsz fs args = Inr (printed buf bufsz bs, of_nat (length bs))"
    by (rule vsnprintf_spec(1) [OF assms])
  show ?thesis
  proof (cases "bufsz = 0")
    case True
    then show ?thesis using r by (simp add: printed_def)
  next
    case False
    define n where "n = min (length bs) (unat bufsz - 1)"
    have b: "0 < unat bufsz" using False by (simp add: unat_gt_0)
    have n: "n < unat bufsz" "length (take (unat bufsz - 1) bs) = n" using b by (auto simp: n_def)
    have p: "printed buf bufsz bs = take (unat bufsz - 1) bs @ 0 # drop (n + 1) buf"
      using False by (simp add: printed_def n_def)
    have "length (printed buf bufsz bs) = length buf"
      unfolding p using n assms(2) by simp
    moreover have "drop (unat bufsz) (printed buf bufsz bs) = drop (unat bufsz) buf"
      unfolding p using n by (simp add: drop_Cons' )
    moreover have "printed buf bufsz bs ! n = 0" "take n (printed buf bufsz bs) = take (unat bufsz - 1) bs"
      unfolding p using n(2) by (metis nth_append_length) (metis append_eq_conv_conj p n(2))
    ultimately show ?thesis using r unfolding n_def by blast
  qed
qed

theorem vsnprintf_stays_in_buffer_witness:
  "\<exists>buf'. vsnprintf [1, 2, 3, 4, 5] 4 (lit ''abcdef'') [] = Inr (buf', 6) \<and> length buf' = 5
    \<and> drop 4 buf' = [5] \<and> buf' ! 3 = 0 \<and> take 3 buf' = lit ''abc''"
proof -
  have r: "render (lit ''abcdef'') [] = Some (lit ''abcdef'')" by code_simp
  have n: "Suc (Suc (Suc 0)) = 3" by simp
  show ?thesis
    using vsnprintf_stays_in_buffer [of "lit ''abcdef''" 4 "[1, 2, 3, 4, 5]" "[]", OF _ _ r]
    by (simp add: lit_def n)
qed

text \<open>
  \<open>int_to_hex\<close> writes \<open>num_digits\<close> hexadecimal digits and a terminator, and the digits read
  back as the number cut to that many digits: \<open>%x\<close> and \<open>%llx\<close> are exact, zero-padded notation.
\<close>

theorem int_to_hex_roundtrip:
  assumes "num_digits < length buf"
  shows "\<exists>buf'. int_to_hex buf val num_digits = Inr buf' \<and> length buf' = length buf
    \<and> length (c_content buf') = num_digits \<and> hex_value (c_content buf') = unat val mod 16 ^ num_digits"
proof -
  have "int_to_hex buf val num_digits = Inr (hex num_digits val @ 0 # drop (Suc num_digits) buf)"
    by (rule int_to_hex_spec [OF assms])
  moreover have "unat (take_bit (4 * num_digits) val) = unat val mod 16 ^ num_digits"
    by (simp only: unsigned_take_bit_eq) (simp add: take_bit_eq_mod power_mult)
  ultimately show ?thesis
    using assms by (simp add: c_content_no_nul hex_no_nul hex_value_hex)
qed

theorem int_to_hex_roundtrip_witness:
  "\<exists>buf'. int_to_hex (replicate 32 0) 0x1FE 2 = Inr buf' \<and> hex_value (c_content buf') = 0xFE"
  using int_to_hex_roundtrip [of 2 "replicate 32 0" "0x1FE"] by auto

text \<open>
  \<open>%u\<close> and \<open>%lu\<close> pass through the signed \<open>to_str\<close>: an unsigned argument from \<open>2 ^ 31\<close> up is
  printed as a negative number (and \<open>2 ^ 31\<close> itself is undefined), where the format asks for an
  unsigned one.
\<close>

theorem unsigned_printed_as_signed:
  assumes "0x80000000 \<le> w" and "fs = lit ''%u'' \<or> fs = lit ''%lu''" and "32 \<le> length buf"
  shows "if w = 0x80000000 then \<exists>e. vsnprintf buf 32 fs [VWord w] = Inl e
    else vsnprintf buf 32 fs [VWord w] =
      Inr (printed buf 32 (decimal (int (unat w) - 2 ^ 32)), of_nat (length (decimal (int (unat w) - 2 ^ 32))))"
proof -
  have nz: "0 \<notin> set fs" using assms(2) by (auto simp: lit_def)
  have "2 ^ 31 \<le> uint w" using assms(1) by (simp add: word_le_def)
  then have "(uint w + 2 ^ 31) mod 2 ^ 32 = uint w + 2 ^ 31 - 2 ^ 32"
    using uint_lt2p [of w] by (subst mod_pos_geq) auto
  then have s: "sint w = int (unat w) - 2 ^ 32"
    by (simp add: sint_uint signed_take_bit_eq_take_bit_shift take_bit_eq_mod)
  have r: "render fs [VWord w] = print_signed w"
    using assms(2)
    by (cases "print_signed w") (auto simp: render_def pieces.simps directives_def lit_def)
  have "length (decimal (sint w)) < 2 ^ 32"
    using length_decimal [of "sint w"] sint_greater_eq [of w] sint_less [of w] by simp
  then show ?thesis
    using vsnprintf_spec [OF nz, of 32 buf "[VWord w]"] assms(3) r s
    by (auto simp: print_signed_def)
qed

theorem unsigned_printed_as_signed_witness:
  "vsnprintf (replicate 32 7) 32 (lit ''%u'') [VWord 0xFFFFFFFF] =
    Inr (printed (replicate 32 7) 32 (lit ''-1''), 2)"
proof -
  have d: "decimal (-1) = lit ''-1''" by code_simp
  show ?thesis
    using unsigned_printed_as_signed [of "0xFFFFFFFF" "lit ''%u''" "replicate 32 7"]
    by (simp add: d) (simp add: lit_def)
qed

text \<open>
  A format that ends inside a directive, in \<open>%\<close>, \<open>%l\<close> or \<open>%ll\<close>, is not printed as it is:
  \<open>strncmp\<close> finds the rest equal to \<open>llx\<close>, so \<open>vsnprintf\<close> takes a \<open>long long\<close> from the
  arguments and goes on behind the terminator of the format, for every buffer and all arguments.
\<close>

theorem unfinished_directive_undefined:
  assumes "37 \<notin> set xs" "0 \<notin> set xs" and "ys \<in> {lit ''%'', lit ''%l'', lit ''%ll''}"
    and "unat bufsz \<le> length buf"
  shows "\<exists>e. vsnprintf buf bufsz (xs @ ys) args = Inl e"
proof -
  have "render ys args = None"
    using assms(3) by (auto simp: lit_def render_def pieces.simps directives_def)
  then have "render (xs @ ys) args = None"
    using assms(1) by (induction xs) (auto simp: render_plain)
  moreover have "0 \<notin> set (xs @ ys)" using assms(2,3) by (auto simp: lit_def)
  ultimately show ?thesis using vsnprintf_spec(2) [OF _ assms(4)] by blast
qed

theorem unfinished_directive_undefined_witness:
  "\<exists>e. vsnprintf (replicate 100 0) 100 (lit ''done: 100'' @ lit ''%'') [VWord 1, VWord 2] = Inl e"
  by (rule unfinished_directive_undefined) (simp_all add: lit_def)

end
