(* ===== verification/Console.thy ===== *)
theory Console
  imports Terminal Uart Printf
begin

text \<open>
  The output path: \<open>putchar\<close>, \<open>puts\<close> (libc/stdio), \<open>terminal_write\<close> (tty.c), \<open>print\<close> and
  \<open>printf\<close> (printf.c). Every character goes to the screen and to the serial port. \<open>None\<close> is
  the wait for a transmitter that never gets empty. The local buffer of \<open>printf\<close> is not
  initialised: its bytes are the argument \<open>stack\<close>.
\<close>

record console =
  screen :: terminal
  trace :: trace

fun terminal_write :: "devices \<Rightarrow> u8 list \<Rightarrow> console \<Rightarrow> console option" where
  "terminal_write D [] con = Some con"
| "terminal_write D (c # cs) con =
     (let con = con\<lparr>screen := terminal_putchar c (screen con)\<rparr> in
      case serial_putchar D c (trace con) of None \<Rightarrow> None
      | Some tr \<Rightarrow> terminal_write D cs (con\<lparr>trace := tr\<rparr>))"

definition putchar :: "devices \<Rightarrow> int \<Rightarrow> console \<Rightarrow> (int \<times> console) option" where
  "putchar D ic con = (case terminal_write D [word_of_int ic] con of None \<Rightarrow> None
     | Some con \<Rightarrow> Some (ic, con))"

fun print :: "devices \<Rightarrow> u8 list \<Rightarrow> console \<Rightarrow> (bool \<times> console) option" where
  "print D [] con = Some (True, con)"
| "print D (b # bs) con = (case putchar D (uint b) con of None \<Rightarrow> None
     | Some (r, con) \<Rightarrow> if r = -1 then Some (False, con) else print D bs con)"

definition printf :: "devices \<Rightarrow> u8 list \<Rightarrow> u8 list \<Rightarrow> vslot list \<Rightarrow> console \<Rightarrow>
    (kerror + (u32 \<times> console)) option" where
  "printf D stack format args con =
     (case vsnprintf stack 1024 format args of Inl e \<Rightarrow> Some (Inl e)
      | Inr (buf, n) \<Rightarrow>
        if length buf < unat n then Some (Inl (Undefined ''printf: read past buf''))
        else (case print D (take (unat n) buf) con of None \<Rightarrow> None
              | Some (r, con) \<Rightarrow> Some (Inr (n, con))))"

definition puts :: "devices \<Rightarrow> u8 list \<Rightarrow> u8 list \<Rightarrow> console \<Rightarrow> (kerror + (u32 \<times> console)) option" where
  "puts D stack s con = printf D stack (lit ''%s'' @ [10]) [VStr s] con"

subsection \<open>Sinks of bytes\<close>

text \<open>
  The contract of something that takes one byte at a time: it accepts every byte while it is
  alive, stays alive, and has then sent exactly that byte more.
\<close>

locale byte_sink =
  fixes put :: "u8 \<Rightarrow> 's \<Rightarrow> 's option" and sent :: "'s \<Rightarrow> u8 list" and alive :: "'s \<Rightarrow> bool"
  assumes put_sends: "alive s \<Longrightarrow> \<exists>s'. put b s = Some s' \<and> sent s' = sent s @ [b] \<and> alive s'"
begin

fun put_all :: "u8 list \<Rightarrow> 's \<Rightarrow> 's option" where
  "put_all [] s = Some s"
| "put_all (b # bs) s = (case put b s of None \<Rightarrow> None | Some s \<Rightarrow> put_all bs s)"

lemma put_all_sends:
  "alive s \<Longrightarrow> \<exists>s'. put_all bs s = Some s' \<and> sent s' = sent s @ bs \<and> alive s'"
proof (induction bs arbitrary: s)
  case (Cons b bs)
  from put_sends [OF Cons.prems, of b] obtain s1
    where s1: "put b s = Some s1" "sent s1 = sent s @ [b]" "alive s1" by blast
  from Cons.IH [OF s1(3)] s1 show ?case by auto
qed simp

lemma put_all_append:
  "put_all (xs @ ys) s = (case put_all xs s of None \<Rightarrow> None | Some s \<Rightarrow> put_all ys s)"
  by (induction xs arbitrary: s) (auto split: option.split)

end

text \<open>The console with its device is one, and so is the serial port alone.\<close>

definition serial_sent :: "devices \<times> trace \<Rightarrow> u8 list" where
  "serial_sent s = written_to DATA_REG (snd s)"

definition put_serial :: "u8 \<Rightarrow> devices \<times> trace \<Rightarrow> (devices \<times> trace) option" where
  "put_serial b s = map_option (Pair (fst s)) (serial_putchar (fst s) b (snd s))"

definition put_console :: "u8 \<Rightarrow> devices \<times> console \<Rightarrow> (devices \<times> console) option" where
  "put_console b s = map_option (Pair (fst s)) (terminal_write (fst s) [b] (snd s))"

definition console_sent :: "devices \<times> console \<Rightarrow> u8 list" where
  "console_sent s = written_to DATA_REG (trace (snd s))"

interpretation serial_sink: byte_sink put_serial serial_sent "\<lambda>s. transmitter_empties (fst s)"
proof
  fix s :: "devices \<times> trace" and b
  assume "transmitter_empties (fst s)"
  from serial_putchar_sends [OF this, of b "snd s"]
  show "\<exists>s'. put_serial b s = Some s' \<and> serial_sent s' = serial_sent s @ [b] \<and> transmitter_empties (fst s')"
    using \<open>transmitter_empties (fst s)\<close> by (auto simp: put_serial_def serial_sent_def)
qed

interpretation console_sink: byte_sink put_console console_sent "\<lambda>s. transmitter_empties (fst s)"
proof
  fix s :: "devices \<times> console" and b
  assume "transmitter_empties (fst s)"
  from serial_putchar_sends [OF this, of b "trace (snd s)"] obtain tr
    where "serial_putchar (fst s) b (trace (snd s)) = Some tr"
      "written_to DATA_REG tr = written_to DATA_REG (trace (snd s)) @ [b]" by blast
  then show "\<exists>s'. put_console b s = Some s' \<and> console_sent s' = console_sent s @ [b] \<and> transmitter_empties (fst s')"
    using \<open>transmitter_empties (fst s)\<close> by (simp add: put_console_def console_sent_def Let_def)
qed

subsection \<open>print and printf\<close>

lemma put_console_pair: "put_console b (D, con) = map_option (Pair D) (terminal_write D [b] con)"
  by (simp add: put_console_def)

lemma print_put_all:
  "print D bs con = map_option (\<lambda>s. (True, snd s)) (console_sink.put_all bs (D, con))"
proof (induction bs arbitrary: con)
  case (Cons b bs)
  have "uint b \<noteq> -1" using uint_ge_0 [of b] by linarith
  then show ?case
    using Cons by (cases "terminal_write D [b] con")
      (auto simp: putchar_def put_console_pair simp del: terminal_write.simps)
qed simp

lemma put_all_screen:
  "console_sink.put_all bs (D, con) = Some s \<Longrightarrow> fst s = D \<and> screen (snd s) = terminal_puts bs (screen con)"
  by (induction bs arbitrary: con)
    (auto simp: put_console_pair Let_def split: option.splits)

lemma put_all_uart:
  "transmitter_empties D \<Longrightarrow> console_sink.put_all bs (D, con) = Some s \<Longrightarrow>
    uart_only (trace con) (trace (snd s))"
proof (induction bs arbitrary: con)
  case (Cons c cs)
  from serial_putchar_sends [OF Cons.prems(1), of c "trace con"] obtain tr
    where tr: "serial_putchar D c (trace con) = Some tr" "uart_only (trace con) tr"
    by blast
  let ?con = "con\<lparr>screen := terminal_putchar c (screen con), trace := tr\<rparr>"
  have "console_sink.put_all cs (D, ?con) = Some s" using Cons.prems(2) tr(1) by (simp add: put_console_pair Let_def)
  from Cons.IH [OF Cons.prems(1) this] show ?case using tr(2) by (auto intro: uart_only_trans)
qed auto

definition prints :: "devices \<Rightarrow> u8 list \<Rightarrow> console \<Rightarrow> console \<Rightarrow> bool" where
  "prints D bs con con' \<longleftrightarrow> written_to DATA_REG (trace con') = written_to DATA_REG (trace con) @ bs
    \<and> screen con' = terminal_puts bs (screen con)
    \<and> uart_only (trace con) (trace con')"

lemma terminal_puts_append: "terminal_puts (xs @ ys) t = terminal_puts ys (terminal_puts xs t)"
  by (induction xs arbitrary: t) auto

lemma prints_refl: "prints D [] con con"
  by (simp add: prints_def)

lemma prints_trans: "prints D xs a b \<Longrightarrow> prints D ys b c \<Longrightarrow> prints D (xs @ ys) a c"
  by (auto simp: prints_def terminal_puts_append intro: uart_only_trans)

lemma prints_flag: "prints D bs con con' \<Longrightarrow> interrupt_flag b (trace con') = interrupt_flag b (trace con)"
  by (simp add: prints_def uart_only_flag)

lemma print_spec:
  assumes "transmitter_empties D"
  shows "\<exists>con'. print D bs con = Some (True, con') \<and> prints D bs con con'"
proof -
  obtain s where s: "console_sink.put_all bs (D, con) = Some s"
      "console_sent s = console_sent (D, con) @ bs"
    using console_sink.put_all_sends [of "(D, con)" bs] assms by auto
  then show ?thesis
    using put_all_screen [OF s(1)] put_all_uart [OF assms s(1)]
    by (simp add: print_put_all prints_def console_sent_def)
qed

lemma length_printed: "unat bufsz \<le> length buf \<Longrightarrow> length (printed buf bufsz bs) = length buf"
  using unat_gt_0 [of bufsz] by (auto simp: printed_def min_def simp del: unat_gt_0)

lemma printf_spec:
  assumes "0 \<notin> set fs" "length stack = 1024" "transmitter_empties D" "render fs args = Some bs"
    and "length bs < 2 ^ 32"
  shows "length bs < 1024 \<Longrightarrow>
      \<exists>con'. printf D stack fs args con = Some (Inr (of_nat (length bs), con')) \<and> prints D bs con con'"
    and "length bs = 1024 \<Longrightarrow>
      \<exists>con'. printf D stack fs args con = Some (Inr (1024, con')) \<and> prints D (butlast bs @ [0]) con con'"
    and "1024 < length bs \<Longrightarrow> printf D stack fs args con = Some (Inl (Undefined ''printf: read past buf''))"
proof -
  have B: "unat (1024 :: u32) \<le> length stack" using assms(2) by simp
  have v: "vsnprintf stack 1024 fs args = Inr (printed stack 1024 bs, of_nat (length bs))"
    by (rule vsnprintf_spec(1) [OF assms(1) B assms(4,5)])
  have n: "unat (of_nat (length bs) :: u32) = length bs" using assms(5) by (rule unat_of_nat32)
  have l: "length (printed stack 1024 bs) = 1024" using length_printed [OF B] assms(2) by simp
  have run: "printf D stack fs args con = (if 1024 < length bs then Some (Inl (Undefined ''printf: read past buf''))
      else case print D (take (length bs) (printed stack 1024 bs)) con of None \<Rightarrow> None
        | Some (r, con) \<Rightarrow> Some (Inr (of_nat (length bs), con)))"
    by (simp add: printf_def v n l)
  { assume s: "length bs < 1024"
    then have "take (length bs) (printed stack 1024 bs) = bs" by (simp add: printed_def)
    then show "\<exists>con'. printf D stack fs args con = Some (Inr (of_nat (length bs), con')) \<and> prints D bs con con'"
      using s print_spec [OF assms(3), of bs con] by (auto simp: run) }
  { assume s: "length bs = 1024"
    then have "take (length bs) (printed stack 1024 bs) = butlast bs @ [0]"
      by (simp add: printed_def butlast_conv_take)
    then show "\<exists>con'. printf D stack fs args con = Some (Inr (1024, con')) \<and> prints D (butlast bs @ [0]) con con'"
      using s print_spec [OF assms(3), of "butlast bs @ [0]" con] by (auto simp: run) }
  { assume "1024 < length bs"
    then show "printf D stack fs args con = Some (Inl (Undefined ''printf: read past buf''))" by (simp add: run) }
qed

lemma render_puts: "render (lit ''%s'' @ [10]) [VStr s] = Some (c_content s @ [10])"
  by (simp add: lit_def render_def pieces.simps directives_def)

lemma puts_spec:
  assumes "length stack = 1024" "transmitter_empties D" "length (c_content s) < 1023"
  shows "\<exists>con'. puts D stack s con = Some (Inr (of_nat (length (c_content s) + 1), con'))
    \<and> prints D (c_content s @ [10]) con con'"
  unfolding puts_def
  using printf_spec(1) [OF _ assms(1,2) render_puts, of s con] assms(3) by (simp add: lit_def)

subsection \<open>Properties\<close>

text \<open>
  C31. With a transmitter that gets empty, \<open>printf\<close> returns, and what it sends over the serial
  port is the text the reference renders, which also goes through the terminal; the interrupt
  flag stays. That holds for texts under 1024 characters; of 1024 characters the last one is
  replaced by a zero byte, and a longer text reads beyond the local buffer.
\<close>

theorem printf_prints_rendering:
  assumes "0 \<notin> set fs" "length stack = 1024" "transmitter_empties D" "render fs args = Some bs"
    and "length bs < 2 ^ 32"
  shows "if 1024 < length bs then printf D stack fs args con = Some (Inl (Undefined ''printf: read past buf''))
    else \<exists>con'. printf D stack fs args con = Some (Inr (of_nat (length bs), con'))
      \<and> written_to DATA_REG (trace con') = written_to DATA_REG (trace con)
          @ (if length bs = 1024 then butlast bs @ [0] else bs)
      \<and> screen con' = terminal_puts (if length bs = 1024 then butlast bs @ [0] else bs) (screen con)
      \<and> (\<forall>b. interrupt_flag b (trace con') = interrupt_flag b (trace con))"
proof -
  consider "1024 < length bs" | "length bs = 1024" | "length bs < 1024" by linarith
  then show ?thesis
    using printf_spec [OF assms, of con] by cases (auto simp: prints_def uart_only_flag)
qed

definition test_console :: console where
  "test_console = \<lparr>screen = \<lparr>terminal_row = 0, terminal_column = 0, terminal_color = 7,
     terminal_buffer = (\<lambda>_. 0)\<rparr>, trace = []\<rparr>"

theorem printf_prints_rendering_witness:
  "\<exists>con'. printf (uart_device 3) (replicate 1024 7) (lit ''%d + %d'') [VWord 1, VWord 2] test_console
      = Some (Inr (5, con'))
    \<and> written_to DATA_REG (trace con') = lit ''1 + 2''"
proof -
  have r: "render (lit ''%d + %d'') [VWord 1, VWord 2] = Some (lit ''1 + 2'')" by code_simp
  show ?thesis
    using printf_prints_rendering [OF _ _ uart_device_empties r, of "replicate 1024 7" 3 test_console]
    by (auto simp: lit_def test_console_def)
qed

end
