(* ===== verification/Log_Buffer.thy ===== *)
theory Log_Buffer
  imports Console
begin

text \<open>
  kernel/kernel/circular_buffer.c and panic.c. The 50 rows of 900 bytes are one array of 45000
  bytes, as in memory: a row without a terminator runs on into the next one. A panic is the state
  in which the machine halts, given by \<open>panic\<close>; \<open>panics\<close> is its outcome for the caller, which
  does not go on. The abstract log is the list of the lines not yet printed.
\<close>

definition NUM_LOG_LINES :: nat where "NUM_LOG_LINES = 50"
definition LINE_SIZE :: nat where "LINE_SIZE = 900"
definition FULL_IDX :: nat where "FULL_IDX = NUM_LOG_LINES"
definition RESET :: "u8 list" where "RESET = 27 # lit ''[0m''"
definition GREEN :: "u8 list" where "GREEN = 27 # lit ''[32m''"

record klog =
  BUFFER :: "u8 list"
  tail :: nat
  con :: console

type_synonym 'a effect = "(kerror + 'a) option"

definition liftE :: "kerror + 'a \<Rightarrow> 'a effect" where
  "liftE r = Some r"

definition bindE :: "'a effect \<Rightarrow> ('a \<Rightarrow> 'b effect) \<Rightarrow> 'b effect" where
  "bindE r f = (case r of None \<Rightarrow> None | Some (Inl e) \<Rightarrow> Some (Inl e) | Some (Inr x) \<Rightarrow> f x)"

lemma bindE_simps [simp]:
  "bindE None f = None" "bindE (Some (Inl e)) f = Some (Inl e)" "bindE (Some (Inr x)) f = f x"
  by (simp_all add: bindE_def)

fun dump_rows :: "devices \<Rightarrow> u8 list \<Rightarrow> nat \<Rightarrow> nat \<Rightarrow> klog \<Rightarrow> klog effect" where
  "dump_rows D stack i 0 st = Some (Inr st)"
| "dump_rows D stack i (Suc n) st =
     (let row = drop (LINE_SIZE * i) (BUFFER st) in
      bindE (printf D stack (lit ''%s'' @ [10]) [VStr row] (con st)) (\<lambda>(_, con').
      bindE (liftE (clear_str row)) (\<lambda>row'.
        dump_rows D stack (i + 1) n
          (st\<lparr>BUFFER := take (LINE_SIZE * i) (BUFFER st) @ row', con := con'\<rparr>))))"

definition dump_buffer :: "devices \<Rightarrow> u8 list \<Rightarrow> klog \<Rightarrow> klog effect" where
  "dump_buffer D stack st =
     bindE (dump_rows D stack 0 (tail st) st) (\<lambda>st. Some (Inr (st\<lparr>tail := 0\<rparr>)))"

definition panic :: "devices \<Rightarrow> u8 list \<Rightarrow> u8 list \<Rightarrow> klog \<Rightarrow> klog effect" where
  "panic D stack msg st =
     (let st = st\<lparr>con := (con st)\<lparr>trace := disable_interrupts (trace (con st))\<rparr>\<rparr> in
      bindE (dump_buffer D stack st) (\<lambda>st.
      bindE (printf D stack (10 # lit ''panic called with error: %s'') [VStr msg] (con st)) (\<lambda>(_, con').
        Some (Inr (st\<lparr>con := con'\<lparr>trace := Hlt # trace con'\<rparr>\<rparr>)))))"

definition panics :: "devices \<Rightarrow> u8 list \<Rightarrow> string \<Rightarrow> klog \<Rightarrow> 'a effect" where
  "panics D stack msg st = bindE (panic D stack (lit msg) st) (\<lambda>_. Some (Inl (Panic msg)))"

definition kassert :: "devices \<Rightarrow> u8 list \<Rightarrow> bool \<Rightarrow> string \<Rightarrow> klog \<Rightarrow> klog effect" where
  "kassert D stack cond msg st = (if cond then Some (Inr st) else panics D stack msg st)"

subsection \<open>Writing a line\<close>

definition copy_in :: "u8 list \<Rightarrow> nat \<Rightarrow> u8 list \<Rightarrow> nat \<Rightarrow> kerror + u8 list" where
  "copy_in B off src n =
     (if length src < n then Inl (Undefined ''memcpy: source too short'')
      else if length B < off + n then Inl (Undefined ''memcpy: destination too short'')
      else Inr (take off B @ take n src @ drop (off + n) B))"

definition build_prefix :: "u8 list \<Rightarrow> u8 list \<Rightarrow> vslot list \<Rightarrow> (u8 list \<times> u32) effect" where
  "build_prefix dst fmt args = liftE (vsnprintf dst 100 fmt args)"

definition make_room :: "devices \<Rightarrow> u8 list \<Rightarrow> klog \<Rightarrow> klog effect" where
  "make_room D stack st =
     (if tail st = FULL_IDX - 1
      then bindE (dump_buffer D stack st) (\<lambda>st.
           kassert D stack (tail st = 0) ''tail should be zero after dump_buffer()'' st)
      else Some (Inr st))"

definition write_to_buffer :: "devices \<Rightarrow> u8 list \<Rightarrow> u8 list \<Rightarrow> u8 list \<Rightarrow> u8 list \<Rightarrow> u32 \<Rightarrow>
    vslot list \<Rightarrow> klog \<Rightarrow> (int \<times> klog) effect" where
  "write_to_buffer D stack fmt level file_name line_number args st =
     bindE (make_room D stack st) (\<lambda>st.
     bindE (liftE (vsnprintf (replicate 100 0) 100 fmt args)) (\<lambda>(buf, size).
     bindE (build_prefix (replicate 100 0) (lit ''[%s] %s:%d '')
              [VStr level, VStr file_name, VWord line_number]) (\<lambda>(prefix, prefix_size).
     let totalSize = sint size + sint prefix_size; row = LINE_SIZE * tail st in
     if int LINE_SIZE < totalSize then panics D stack ''LOG_SIZE_OVERFLOW'' st
     else
       bindE (liftE (copy_in (BUFFER st) row prefix (unat prefix_size))) (\<lambda>B.
       bindE (liftE (copy_in B (row + unat prefix_size) buf (unat size))) (\<lambda>B.
         Some (Inr (0, st\<lparr>BUFFER := B, tail := tail st + 1\<rparr>)))))))"

definition write_to_buffer_colored :: "devices \<Rightarrow> u8 list \<Rightarrow> u8 list \<Rightarrow> u8 list \<Rightarrow> u8 list \<Rightarrow> u8 list \<Rightarrow>
    u32 \<Rightarrow> vslot list \<Rightarrow> klog \<Rightarrow> (int \<times> klog) effect" where
  "write_to_buffer_colored D stack fmt color level file_name line_number args st =
     bindE (make_room D stack st) (\<lambda>st.
     bindE (liftE (vsnprintf (replicate 100 0) 100 fmt args)) (\<lambda>(buf, size).
     bindE (build_prefix (replicate 100 0) (lit ''%s [%s] %s:%d '')
              [VStr color, VStr level, VStr file_name, VWord line_number]) (\<lambda>(prefix, prefix_size).
     let totalSize = sint size + sint prefix_size; row = LINE_SIZE * tail st in
     if int LINE_SIZE < totalSize then panics D stack ''LOG_SIZE_OVERFLOW'' st
     else
       bindE (liftE (copy_in (BUFFER st) row prefix (unat prefix_size))) (\<lambda>B.
       bindE (liftE (copy_in B (row + unat prefix_size) buf (unat size))) (\<lambda>B.
       bindE (liftE (copy_in B (row + unat prefix_size + unat size) RESET (length RESET))) (\<lambda>B.
         Some (Inr (0, st\<lparr>BUFFER := B, tail := tail st + 1\<rparr>))))))))"

text \<open>The macros LOG and LOG_GREEN, with the place they stand at.\<close>

definition LOG :: "devices \<Rightarrow> u8 list \<Rightarrow> string \<Rightarrow> u32 \<Rightarrow> string \<Rightarrow> vslot list \<Rightarrow> klog \<Rightarrow> klog effect" where
  "LOG D stack file line fmt args st =
     bindE (write_to_buffer D stack (lit fmt) (lit ''INFO'') (lit file) line args st) (\<lambda>(_, st). Some (Inr st))"

definition LOG_GREEN :: "devices \<Rightarrow> u8 list \<Rightarrow> string \<Rightarrow> u32 \<Rightarrow> string \<Rightarrow> vslot list \<Rightarrow> klog \<Rightarrow> klog effect" where
  "LOG_GREEN D stack file line fmt args st =
     bindE (write_to_buffer_colored D stack (lit fmt) GREEN (lit ''INFO'') (lit file) line args st)
       (\<lambda>(_, st). Some (Inr st))"

definition read_from_buffer :: "devices \<Rightarrow> u8 list \<Rightarrow> klog \<Rightarrow> (int \<times> klog) effect" where
  "read_from_buffer D stack st =
     bindE (LOG D stack ''kernel/circular_buffer.c'' 96 ''read_from_buffer BEGIN'' [] st) (\<lambda>st.
     bindE (LOG D stack ''kernel/circular_buffer.c'' 97 ''read_from_buffer END'' [] st) (\<lambda>st.
       Some (Inr (0, st))))"

subsection \<open>The abstract log\<close>

definition pad :: "u8 list \<Rightarrow> u8 list" where
  "pad l = l @ replicate (900 - length l) 0"

definition line_ok :: "u8 list \<Rightarrow> bool" where
  "line_ok l \<longleftrightarrow> 0 \<notin> set l \<and> length l < 900"

definition rows :: "u8 list list \<Rightarrow> u8 list" where
  "rows ls = concat (map pad ls)"

definition log_rel :: "u8 list list \<Rightarrow> klog \<Rightarrow> bool" where
  "log_rel ls st \<longleftrightarrow> BUFFER st = rows (ls @ replicate (50 - length ls) []) \<and> tail st = length ls
     \<and> length ls \<le> 49 \<and> (\<forall>l \<in> set ls. line_ok l)"

definition flushed :: "u8 list list \<Rightarrow> u8 list" where
  "flushed ls = concat (map (\<lambda>l. l @ [10]) ls)"

lemma length_pad: "length l \<le> 900 \<Longrightarrow> length (pad l) = 900"
  by (simp add: pad_def)

lemma rows_simps [simp]: "rows [] = []" "rows (l # ls) = pad l @ rows ls" "rows (xs @ ys) = rows xs @ rows ys"
  by (simp_all add: rows_def)

lemma length_rows: "\<forall>l \<in> set ls. length l \<le> 900 \<Longrightarrow> length (rows ls) = 900 * length ls"
  by (induction ls) (simp_all add: length_pad)

lemma clear_pad:
  assumes "line_ok l"
  shows "clear_str (pad l @ rest) = Inr (pad [] @ rest)" and "c_content (pad l @ rest) = l"
proof -
  obtain k where k: "900 - length l = Suc k" using assms by (cases "900 - length l") (auto simp: line_ok_def)
  then have p: "pad l @ rest = l @ 0 # replicate k 0 @ rest" by (simp add: pad_def)
  then show c: "c_content (pad l @ rest) = l" using assms by (simp add: c_content_no_nul line_ok_def)
  have "replicate (length l) 0 @ 0 # replicate k 0 = pad []"
    using k by (simp add: pad_def flip: replicate_add replicate_Suc)
  then show "clear_str (pad l @ rest) = Inr (pad [] @ rest)"
    unfolding clear_str_def c by (simp add: p)
qed

subsection \<open>Printing the lines\<close>

lemma rows_at:
  "drop (900 * i) (rows (replicate i [] @ ls)) = rows ls"
  "take (900 * i) (rows (replicate i [] @ ls)) = rows (replicate i [])"
  using length_rows [of "replicate i []"] by simp_all

lemma render_line: "render (lit ''%s'' @ [10]) [VStr s] = Some (c_content s @ [10])"
  by (simp add: render_puts)

lemma print_line:
  assumes "length stack = 1024" "transmitter_empties D" "line_ok l"
  shows "\<exists>n c'. printf D stack (lit ''%s'' @ [10]) [VStr (pad l @ rest)] c = Some (Inr (n, c'))
    \<and> prints D (l @ [10]) c c'"
proof -
  have r: "render (lit ''%s'' @ [10]) [VStr (pad l @ rest)] = Some (l @ [10])"
    using clear_pad(2) [OF assms(3)] by (simp add: render_line)
  have "length (l @ [10]) < 1024" using assms(3) by (simp add: line_ok_def)
  then show ?thesis
    using printf_spec(1) [OF _ assms(1,2) r, of c] by (auto simp: lit_def)
qed

lemma dump_rows_spec:
  assumes env: "length stack = 1024" "transmitter_empties D"
  shows "BUFFER st = rows (replicate i [] @ ls @ rest) \<Longrightarrow> \<forall>l \<in> set ls. line_ok l \<Longrightarrow>
    \<exists>st'. dump_rows D stack i (length ls) st = Some (Inr st')
      \<and> BUFFER st' = rows (replicate (i + length ls) [] @ rest) \<and> tail st' = tail st
      \<and> prints D (flushed ls) (con st) (con st')"
proof (induction ls arbitrary: i st)
  case Nil
  then show ?case by (simp add: prints_refl flushed_def)
next
  case (Cons l ls)
  have l: "line_ok l" using Cons.prems by simp
  let ?row = "pad l @ rows (ls @ rest)"
  have row: "drop (LINE_SIZE * i) (BUFFER st) = ?row"
    unfolding Cons.prems(1) LINE_SIZE_def rows_at by simp
  have before: "take (LINE_SIZE * i) (BUFFER st) = rows (replicate i [])"
    unfolding Cons.prems(1) LINE_SIZE_def rows_at ..
  obtain n con' where p: "printf D stack (lit ''%s'' @ [10]) [VStr ?row] (con st) = Some (Inr (n, con'))"
      "prints D (l @ [10]) (con st) con'"
    using print_line [OF env l] by blast
  define st1 where "st1 = st\<lparr>BUFFER := rows (replicate i []) @ pad [] @ rows (ls @ rest), con := con'\<rparr>"
  have "BUFFER st1 = rows (replicate (i + 1) [] @ ls @ rest)"
    by (simp add: st1_def rows_def flip: replicate_append_same)
  from Cons.IH [OF this] Cons.prems(2) obtain st'
    where st': "dump_rows D stack (i + 1) (length ls) st1 = Some (Inr st')"
      "BUFFER st' = rows (replicate (i + 1 + length ls) [] @ rest)" "tail st' = tail st1"
      "prints D (flushed ls) (con st1) (con st')" by auto
  have step: "dump_rows D stack i (length (l # ls)) st = dump_rows D stack (i + 1) (length ls) st1"
    using p(1) clear_pad(1) [OF l, of "rows (ls @ rest)"]
    by (simp add: Let_def row before liftE_def st1_def)
  have "prints D (flushed (l # ls)) (con st) (con st')"
    using prints_trans [OF p(2)] st'(4) by (simp add: st1_def flushed_def)
  then show ?case using step st' by (simp add: st1_def)
qed

lemma dump_buffer_spec:
  assumes env: "length stack = 1024" "transmitter_empties D" and "log_rel ls st"
  shows "\<exists>st'. dump_buffer D stack st = Some (Inr st') \<and> log_rel [] st'
    \<and> prints D (flushed ls) (con st) (con st')"
proof -
  have r: "BUFFER st = rows (replicate 0 [] @ ls @ replicate (50 - length ls) [])" "tail st = length ls"
      "\<forall>l \<in> set ls. line_ok l" "length ls \<le> 49"
    using assms(3) by (auto simp: log_rel_def)
  from dump_rows_spec [OF env r(1,3)] obtain st'
    where "dump_rows D stack 0 (length ls) st = Some (Inr st')"
      "BUFFER st' = rows (replicate (length ls) [] @ replicate (50 - length ls) [])"
      "prints D (flushed ls) (con st) (con st')" by auto
  moreover have "replicate (length ls) [] @ replicate (50 - length ls) [] = (replicate 50 [] :: u8 list list)"
    using r(4) by (simp flip: replicate_add)
  ultimately show ?thesis using r(2) by (simp add: dump_buffer_def log_rel_def)
qed

lemma make_room_spec:
  assumes env: "length stack = 1024" "transmitter_empties D" and "log_rel ls st"
  shows "\<exists>st'. make_room D stack st = Some (Inr st') \<and> log_rel (if length ls = 49 then [] else ls) st'
    \<and> prints D (if length ls = 49 then flushed ls else []) (con st) (con st')"
proof (cases "length ls = 49")
  case True
  from dump_buffer_spec [OF assms] obtain st' where "dump_buffer D stack st = Some (Inr st')"
      "log_rel [] st'" "prints D (flushed ls) (con st) (con st')" by blast
  moreover have "tail st = FULL_IDX - 1" "tail st' = 0"
    using assms(3) True \<open>log_rel [] st'\<close> by (simp_all add: log_rel_def FULL_IDX_def NUM_LOG_LINES_def)
  ultimately show ?thesis using True by (simp add: make_room_def kassert_def)
next
  case False
  then have "tail st \<noteq> FULL_IDX - 1"
    using assms(3) by (simp add: log_rel_def FULL_IDX_def NUM_LOG_LINES_def)
  then show ?thesis using False assms(3) by (simp add: make_room_def prints_refl)
qed

subsection \<open>Writing a line\<close>

lemma render_prefix:
  assumes "line \<noteq> 0x80000000"
  shows "render (lit ''[%s] %s:%d '') [VStr level, VStr file, VWord line] =
      Some (91 # c_content level @ [93, 32] @ c_content file @ [58] @ decimal (sint line) @ [32])"
    and "render (lit ''%s [%s] %s:%d '') [VStr color, VStr level, VStr file, VWord line] =
      Some (c_content color @ [32, 91] @ c_content level @ [93, 32] @ c_content file @ [58] @ decimal (sint line) @ [32])"
  using assms
  by (simp_all add: lit_def render_def pieces.simps directives_def print_signed_def)

lemma copy_in_row:
  assumes "length xs = n" "k \<le> length src" "n + k \<le> 900"
  shows "copy_in (ls @ pad xs @ rest) (length ls + n) src k = Inr (ls @ pad (xs @ take k src) @ rest)"
proof -
  have l: "length (ls @ xs) = length ls + n" using assms by simp
  have "ls @ pad xs @ rest = (ls @ xs) @ replicate (900 - n) 0 @ rest" using assms by (simp add: pad_def)
  then show ?thesis
    unfolding copy_in_def using assms l by (simp add: pad_def)
qed

lemma text_in_buffer:
  assumes "0 \<notin> set fmt" "render fmt args = Some bs" "length bs < 100"
  shows "\<exists>buf. vsnprintf (replicate 100 0) 100 fmt args = Inr (buf, of_nat (length bs))
    \<and> take (length bs) buf = bs \<and> length buf = 100"
  using vsnprintf_spec(1) [OF assms(1), of 100 "replicate 100 0" args bs] assms(2,3)
    length_printed [of 100 "replicate 100 0" bs]
  by (simp add: printed_def)

lemma text_in_full_buffer:
  assumes "0 \<notin> set fmt" "render fmt args = Some bs" "length bs \<le> 100"
  shows "\<exists>buf. vsnprintf (replicate 100 0) 100 fmt args = Inr (buf, of_nat (length bs))
    \<and> take (length bs) buf = take 99 bs @ replicate (length bs - 99) 0 \<and> length buf = 100"
proof -
  have "vsnprintf (replicate 100 0) 100 fmt args = Inr (printed (replicate 100 0) 100 bs, of_nat (length bs))"
    using vsnprintf_spec(1) [OF assms(1), of 100 "replicate 100 0" args bs] assms(2,3) by simp
  moreover have "take (length bs) (printed (replicate 100 0) 100 bs) = take 99 bs @ replicate (length bs - 99) 0"
    using assms(3) by (cases "length bs = 100") (simp_all add: printed_def)
  ultimately show ?thesis using length_printed [of 100 "replicate 100 0" bs] by simp
qed

lemma pad_nul: "length l + n \<le> 900 \<Longrightarrow> pad (l @ replicate n 0) = pad l"
  by (simp add: pad_def flip: replicate_add)

lemma log_rel_rows:
  assumes "log_rel ls st" "length ls < 49"
  shows "BUFFER st = rows ls @ pad [] @ rows (replicate (49 - length ls) [])"
    and "length (rows ls) = LINE_SIZE * tail st"
proof -
  have "replicate (50 - length ls) ([] :: u8 list) = [] # replicate (49 - length ls) []"
    using assms(2) by (simp flip: replicate_Suc)
  then show "BUFFER st = rows ls @ pad [] @ rows (replicate (49 - length ls) [])"
    using assms(1) by (simp add: log_rel_def)
  show "length (rows ls) = LINE_SIZE * tail st"
    using assms(1) length_rows [of ls] by (simp add: log_rel_def LINE_SIZE_def line_ok_def less_imp_le)
qed

lemma log_rel_add:
  assumes "log_rel ls st" "length ls < 49" "line_ok l"
  shows "log_rel (ls @ [l]) (st\<lparr>BUFFER := rows ls @ pad l @ rows (replicate (49 - length ls) []), tail := tail st + 1\<rparr>)"
  using assms by (auto simp: log_rel_def)

lemma sint_of_nat32: "n < 2 ^ 31 \<Longrightarrow> sint (of_nat n :: u32) = int n"
  by (simp add: signed_of_nat signed_take_bit_int_eq_self)

definition prefix_text :: "u8 list \<Rightarrow> u8 list \<Rightarrow> u32 \<Rightarrow> u8 list" where
  "prefix_text level file line =
     91 # c_content level @ [93, 32] @ c_content file @ [58] @ decimal (sint line) @ [32]"

definition colored_prefix_text :: "u8 list \<Rightarrow> u8 list \<Rightarrow> u8 list \<Rightarrow> u32 \<Rightarrow> u8 list" where
  "colored_prefix_text color level file line = c_content color @ 32 # prefix_text level file line"

lemma c_content_no_nul_set: "0 \<notin> set (c_content xs)"
  by (auto simp: c_content_def dest: set_takeWhileD)

lemma prefix_text_no_nul: "0 \<notin> set (prefix_text level file line)"
    "0 \<notin> set (colored_prefix_text color level file line)"
  by (simp_all add: prefix_text_def colored_prefix_text_def c_content_no_nul_set decimal_no_nul)

lemma prefix_in_buffer:
  assumes "line \<noteq> 0x80000000"
  shows "length (prefix_text level file line) < 100 \<Longrightarrow>
      \<exists>buf. build_prefix (replicate 100 0) (lit ''[%s] %s:%d '') [VStr level, VStr file, VWord line] =
        Some (Inr (buf, of_nat (length (prefix_text level file line))))
      \<and> take (length (prefix_text level file line)) buf = prefix_text level file line \<and> length buf = 100"
    and "length (colored_prefix_text color level file line) < 100 \<Longrightarrow>
      \<exists>buf. build_prefix (replicate 100 0) (lit ''%s [%s] %s:%d '') [VStr color, VStr level, VStr file, VWord line] =
        Some (Inr (buf, of_nat (length (colored_prefix_text color level file line))))
      \<and> take (length (colored_prefix_text color level file line)) buf = colored_prefix_text color level file line
      \<and> length buf = 100"
proof -
  have n: "0 \<notin> set (lit ''[%s] %s:%d '')" "0 \<notin> set (lit ''%s [%s] %s:%d '')" by (simp_all add: lit_def)
  have r: "render (lit ''[%s] %s:%d '') [VStr level, VStr file, VWord line] = Some (prefix_text level file line)"
      "render (lit ''%s [%s] %s:%d '') [VStr color, VStr level, VStr file, VWord line] =
        Some (colored_prefix_text color level file line)"
    using render_prefix [OF assms] by (simp_all add: prefix_text_def colored_prefix_text_def)
  show "length (prefix_text level file line) < 100 \<Longrightarrow>
      \<exists>buf. build_prefix (replicate 100 0) (lit ''[%s] %s:%d '') [VStr level, VStr file, VWord line] =
        Some (Inr (buf, of_nat (length (prefix_text level file line))))
      \<and> take (length (prefix_text level file line)) buf = prefix_text level file line \<and> length buf = 100"
    using text_in_buffer [OF n(1) r(1)] by (auto simp: build_prefix_def liftE_def)
  show "length (colored_prefix_text color level file line) < 100 \<Longrightarrow>
      \<exists>buf. build_prefix (replicate 100 0) (lit ''%s [%s] %s:%d '') [VStr color, VStr level, VStr file, VWord line] =
        Some (Inr (buf, of_nat (length (colored_prefix_text color level file line))))
      \<and> take (length (colored_prefix_text color level file line)) buf = colored_prefix_text color level file line
      \<and> length buf = 100"
    using text_in_buffer [OF n(2) r(2)] by (auto simp: build_prefix_def liftE_def)
qed

definition after_write :: "u8 list list \<Rightarrow> u8 list \<Rightarrow> u8 list list" where
  "after_write ls l = (if length ls = 49 then [l] else ls @ [l])"

definition printed_by_write :: "u8 list list \<Rightarrow> u8 list" where
  "printed_by_write ls = (if length ls = 49 then flushed ls else [])"

lemma int_LINE_SIZE: "int LINE_SIZE = 900"
  by (simp add: LINE_SIZE_def)

text \<open>A message of exactly 100 characters loses its last one to the terminator of the local buffer.\<close>

lemma write_to_buffer_cut:
  assumes env: "length stack = 1024" "transmitter_empties D" and rel: "log_rel ls st"
    and fmt: "0 \<notin> set fmt" "render fmt args = Some msg"
    and msg: "0 \<notin> set msg" "length msg \<le> 100"
    and pre: "line \<noteq> 0x80000000" "length (prefix_text level file line) < 100"
  shows "\<exists>st'. write_to_buffer D stack fmt level file line args st = Some (Inr (0, st'))
    \<and> log_rel (after_write ls (prefix_text level file line @ take 99 msg)) st'
    \<and> prints D (printed_by_write ls) (con st) (con st')"
proof -
  define ls1 where "ls1 = (if length ls = 49 then [] else ls)"
  obtain st1 where st1: "make_room D stack st = Some (Inr st1)" "log_rel ls1 st1"
      "prints D (printed_by_write ls) (con st) (con st1)"
    using make_room_spec [OF env rel] by (auto simp: ls1_def printed_by_write_def)
  have room: "length ls1 < 49" using rel by (auto simp: ls1_def log_rel_def)
  let ?p = "prefix_text level file line" and ?rest = "rows (replicate (49 - length ls1) [])"
  obtain buf where buf: "vsnprintf (replicate 100 0) 100 fmt args = Inr (buf, of_nat (length msg))"
      "take (length msg) buf = take 99 msg @ replicate (length msg - 99) 0" "length buf = 100"
    using text_in_full_buffer [OF fmt msg(2)] by blast
  obtain pb where pb: "build_prefix (replicate 100 0) (lit ''[%s] %s:%d '') [VStr level, VStr file, VWord line] =
        Some (Inr (pb, of_nat (length ?p)))" "take (length ?p) pb = ?p" "length pb = 100"
    using prefix_in_buffer(1) [OF pre] by blast
  note rows = log_rel_rows [OF st1(2) room]
  have n: "unat (of_nat (length ?p) :: u32) = length ?p" "unat (of_nat (length msg) :: u32) = length msg"
      "sint (of_nat (length ?p) :: u32) = int (length ?p)" "sint (of_nat (length msg) :: u32) = int (length msg)"
    using pre(2) msg(2) by (simp_all add: unat_of_nat32 sint_of_nat32)
  have c1: "copy_in (BUFFER st1) (LINE_SIZE * tail st1) pb (length ?p) = Inr (rows ls1 @ pad ?p @ ?rest)"
    using copy_in_row [of "[]" 0 "length ?p" pb "rows ls1" ?rest] rows pb pre(2) by simp
  have c2: "copy_in (rows ls1 @ pad ?p @ ?rest) (LINE_SIZE * tail st1 + length ?p) buf (length msg) =
      Inr (rows ls1 @ pad (?p @ take 99 msg) @ ?rest)"
    using copy_in_row [of ?p "length ?p" "length msg" buf "rows ls1" ?rest] rows buf msg(2) pre(2)
      pad_nul [of "?p @ take 99 msg" "length msg - 99"] by simp
  have "line_ok (?p @ take 99 msg)"
    using msg pre(2) prefix_text_no_nul by (auto simp: line_ok_def dest: in_set_takeD)
  from log_rel_add [OF st1(2) room this]
  have "log_rel (after_write ls (?p @ take 99 msg))
      (st1\<lparr>BUFFER := rows ls1 @ pad (?p @ take 99 msg) @ ?rest, tail := tail st1 + 1\<rparr>)"
    by (simp add: ls1_def after_write_def split: if_splits)
  then show ?thesis
    unfolding write_to_buffer_def
    using st1 buf(1) pb(1) n c1 c2 msg(2) pre(2) int_LINE_SIZE by (simp add: liftE_def)
qed

lemma write_to_buffer_spec:
  assumes env: "length stack = 1024" "transmitter_empties D" and rel: "log_rel ls st"
    and fmt: "0 \<notin> set fmt" "render fmt args = Some msg"
    and msg: "0 \<notin> set msg" "length msg < 100"
    and pre: "line \<noteq> 0x80000000" "length (prefix_text level file line) < 100"
  shows "\<exists>st'. write_to_buffer D stack fmt level file line args st = Some (Inr (0, st'))
    \<and> log_rel (after_write ls (prefix_text level file line @ msg)) st'
    \<and> prints D (printed_by_write ls) (con st) (con st')"
  using write_to_buffer_cut [OF env rel fmt msg(1) _ pre] msg(2) by simp

lemma write_to_buffer_colored_spec:
  assumes env: "length stack = 1024" "transmitter_empties D" and rel: "log_rel ls st"
    and fmt: "0 \<notin> set fmt" "render fmt args = Some msg"
    and msg: "0 \<notin> set msg" "length msg < 100"
    and pre: "line \<noteq> 0x80000000" "length (colored_prefix_text color level file line) < 100"
  shows "\<exists>st'. write_to_buffer_colored D stack fmt color level file line args st = Some (Inr (0, st'))
    \<and> log_rel (after_write ls (colored_prefix_text color level file line @ msg @ RESET)) st'
    \<and> prints D (printed_by_write ls) (con st) (con st')"
proof -
  define ls1 where "ls1 = (if length ls = 49 then [] else ls)"
  obtain st1 where st1: "make_room D stack st = Some (Inr st1)" "log_rel ls1 st1"
      "prints D (printed_by_write ls) (con st) (con st1)"
    using make_room_spec [OF env rel] by (auto simp: ls1_def printed_by_write_def)
  have room: "length ls1 < 49" using rel by (auto simp: ls1_def log_rel_def)
  let ?p = "colored_prefix_text color level file line" and ?rest = "rows (replicate (49 - length ls1) [])"
  obtain buf where buf: "vsnprintf (replicate 100 0) 100 fmt args = Inr (buf, of_nat (length msg))"
      "take (length msg) buf = msg" "length buf = 100"
    using text_in_buffer [OF fmt msg(2)] by blast
  obtain pb where pb: "build_prefix (replicate 100 0) (lit ''%s [%s] %s:%d '') [VStr color, VStr level, VStr file, VWord line] =
        Some (Inr (pb, of_nat (length ?p)))" "take (length ?p) pb = ?p" "length pb = 100"
    using prefix_in_buffer(2) [OF pre] by blast
  note rows = log_rel_rows [OF st1(2) room]
  have n: "unat (of_nat (length ?p) :: u32) = length ?p" "unat (of_nat (length msg) :: u32) = length msg"
      "sint (of_nat (length ?p) :: u32) = int (length ?p)" "sint (of_nat (length msg) :: u32) = int (length msg)"
    using pre(2) msg(2) by (simp_all add: unat_of_nat32 sint_of_nat32)
  have r: "length RESET = 4" "0 \<notin> set RESET" by (simp_all add: RESET_def lit_def)
  have c1: "copy_in (BUFFER st1) (LINE_SIZE * tail st1) pb (length ?p) = Inr (rows ls1 @ pad ?p @ ?rest)"
    using copy_in_row [of "[]" 0 "length ?p" pb "rows ls1" ?rest] rows pb pre(2) by simp
  have c2: "copy_in (rows ls1 @ pad ?p @ ?rest) (LINE_SIZE * tail st1 + length ?p) buf (length msg) =
      Inr (rows ls1 @ pad (?p @ msg) @ ?rest)"
    using copy_in_row [of ?p "length ?p" "length msg" buf "rows ls1" ?rest] rows buf msg(2) pre(2) by simp
  have c3: "copy_in (rows ls1 @ pad (?p @ msg) @ ?rest) (LINE_SIZE * tail st1 + length ?p + length msg)
      RESET (length RESET) = Inr (rows ls1 @ pad (?p @ msg @ RESET) @ ?rest)"
    using copy_in_row [of "?p @ msg" "length ?p + length msg" "length RESET" RESET "rows ls1" ?rest]
      rows r msg(2) pre(2) by (simp add: add.assoc)
  have "line_ok (?p @ msg @ RESET)" using msg pre(2) r prefix_text_no_nul by (simp add: line_ok_def)
  from log_rel_add [OF st1(2) room this]
  have "log_rel (after_write ls (?p @ msg @ RESET))
      (st1\<lparr>BUFFER := rows ls1 @ pad (?p @ msg @ RESET) @ ?rest, tail := tail st1 + 1\<rparr>)"
    by (simp add: ls1_def after_write_def split: if_splits)
  then show ?thesis
    unfolding write_to_buffer_colored_def
    using st1 buf(1) pb(1) n c1 c2 c3 msg(2) pre(2) int_LINE_SIZE by (simp add: liftE_def)
qed

text \<open>A message over the local buffer but short enough for the row: \<open>memcpy\<close> reads behind it.\<close>

lemma write_to_buffer_overread:
  assumes env: "length stack = 1024" "transmitter_empties D" and rel: "log_rel ls st"
    and fmt: "0 \<notin> set fmt" "render fmt args = Some msg"
    and msg: "100 < length msg" "length msg \<le> 800"
    and pre: "line \<noteq> 0x80000000" "length (prefix_text level file line) < 100"
  shows "write_to_buffer D stack fmt level file line args st =
    Some (Inl (Undefined ''memcpy: source too short''))"
proof -
  define ls1 where "ls1 = (if length ls = 49 then [] else ls)"
  obtain st1 where st1: "make_room D stack st = Some (Inr st1)" "log_rel ls1 st1"
    using make_room_spec [OF env rel] by (auto simp: ls1_def)
  have room: "length ls1 < 49" using rel by (auto simp: ls1_def log_rel_def)
  let ?p = "prefix_text level file line" and ?rest = "rows (replicate (49 - length ls1) [])"
  have len: "unat (100::u32) \<le> length (replicate 100 (0::u8))" "length msg < 2 ^ 32" using msg by simp_all
  have buf: "vsnprintf (replicate 100 0) 100 fmt args = Inr (printed (replicate 100 0) 100 msg, of_nat (length msg))"
    by (rule vsnprintf_spec(1) [OF fmt(1) len(1) fmt(2) len(2)])
  have lb: "length (printed (replicate 100 0) 100 msg) = 100"
    using length_printed [OF len(1)] by simp
  obtain pb where pb: "build_prefix (replicate 100 0) (lit ''[%s] %s:%d '') [VStr level, VStr file, VWord line] =
        Some (Inr (pb, of_nat (length ?p)))" "take (length ?p) pb = ?p" "length pb = 100"
    using prefix_in_buffer(1) [OF pre] by blast
  note rows = log_rel_rows [OF st1(2) room]
  have n: "unat (of_nat (length ?p) :: u32) = length ?p" "unat (of_nat (length msg) :: u32) = length msg"
      "sint (of_nat (length ?p) :: u32) = int (length ?p)" "sint (of_nat (length msg) :: u32) = int (length msg)"
    using pre(2) msg(2) by (simp_all add: unat_of_nat32 sint_of_nat32)
  have c1: "copy_in (BUFFER st1) (LINE_SIZE * tail st1) pb (length ?p) = Inr (rows ls1 @ pad ?p @ ?rest)"
    using copy_in_row [of "[]" 0 "length ?p" pb "rows ls1" ?rest] rows pb pre(2) by simp
  have c2: "copy_in (rows ls1 @ pad ?p @ ?rest) (LINE_SIZE * tail st1 + length ?p)
      (printed (replicate 100 0) 100 msg) (length msg) = Inl (Undefined ''memcpy: source too short'')"
    using lb msg by (simp add: copy_in_def)
  show ?thesis
    unfolding write_to_buffer_def
    using st1 buf pb(1) n c1 c2 msg(2) pre(2) int_LINE_SIZE by (simp add: liftE_def)
qed

lemma write_to_buffer_bad_format:
  assumes "length stack = 1024" "transmitter_empties D" "log_rel ls st" "0 \<notin> set fmt" "render fmt args = None"
  shows "\<exists>e. write_to_buffer D stack fmt level file line args st = Some (Inl e)"
proof -
  obtain st1 where "make_room D stack st = Some (Inr st1)" using make_room_spec [OF assms(1-3)] by blast
  moreover obtain e where "vsnprintf (replicate 100 0) 100 fmt args = Inl e"
    using vsnprintf_spec(2) [OF assms(4) _ assms(5), of 100 "replicate 100 0"] by auto
  ultimately show ?thesis by (simp add: write_to_buffer_def liftE_def)
qed

subsection \<open>Panic\<close>

lemma render_panic:
  "render (10 # lit ''panic called with error: %s'') [VStr msg] =
    Some (10 # lit ''panic called with error: '' @ c_content msg)"
  by (simp add: lit_def render_def pieces.simps directives_def)

lemma panic_spec:
  assumes env: "length stack = 1024" "transmitter_empties D" and rel: "log_rel ls st"
    and msg: "length (c_content msg) \<le> 900"
  shows "\<exists>st'. panic D stack msg st = Some (Inr st') \<and> log_rel [] st'
    \<and> written_to DATA_REG (trace (con st')) = written_to DATA_REG (trace (con st)) @ flushed ls
        @ 10 # lit ''panic called with error: '' @ c_content msg
    \<and> hd (trace (con st')) = Hlt \<and> \<not> interrupt_flag b (trace (con st'))"
proof -
  define st0 where "st0 = st\<lparr>con := (con st)\<lparr>trace := disable_interrupts (trace (con st))\<rparr>\<rparr>"
  let ?t = "10 # lit ''panic called with error: '' @ c_content msg"
  have "log_rel ls st0" using rel by (simp add: log_rel_def st0_def)
  from dump_buffer_spec [OF env this] obtain st1 where st1: "dump_buffer D stack st0 = Some (Inr st1)"
      "log_rel [] st1" "prints D (flushed ls) (con st0) (con st1)" by blast
  have "length ?t < 1024" using msg by (simp add: lit_def)
  then obtain c where c: "printf D stack (10 # lit ''panic called with error: %s'') [VStr msg] (con st1) =
        Some (Inr (of_nat (length ?t), c))" "prints D ?t (con st1) c"
    using printf_spec(1) [OF _ env render_panic, of msg "con st1"] by (auto simp: lit_def)
  have "prints D (flushed ls @ ?t) (con st0) c" by (rule prints_trans [OF st1(3) c(2)])
  then show ?thesis
    unfolding panic_def using st1 c(1) prints_flag [OF prints_trans [OF st1(3) c(2)], of b]
    by (simp add: Let_def st0_def prints_def disable_interrupts_def log_rel_def)
qed

subsection \<open>Sequences of writes\<close>

record log_call =
  call_format :: "u8 list"
  call_level :: "u8 list"
  call_file :: "u8 list"
  call_line :: u32
  call_args :: "vslot list"

fun write_calls :: "devices \<Rightarrow> u8 list \<Rightarrow> log_call list \<Rightarrow> klog \<Rightarrow> klog effect" where
  "write_calls D stack [] st = Some (Inr st)"
| "write_calls D stack (w # ws) st =
     bindE (write_to_buffer D stack (call_format w) (call_level w) (call_file w) (call_line w) (call_args w) st)
       (\<lambda>(_, st). write_calls D stack ws st)"

definition call_message :: "log_call \<Rightarrow> u8 list" where
  "call_message w = (case render (call_format w) (call_args w) of None \<Rightarrow> [] | Some msg \<Rightarrow> msg)"

definition call_text :: "log_call \<Rightarrow> u8 list" where
  "call_text w = prefix_text (call_level w) (call_file w) (call_line w) @ call_message w"

definition loggable :: "log_call \<Rightarrow> bool" where
  "loggable w \<longleftrightarrow> 0 \<notin> set (call_format w) \<and> render (call_format w) (call_args w) \<noteq> None
     \<and> 0 \<notin> set (call_message w) \<and> length (call_message w) < 100 \<and> call_line w \<noteq> 0x80000000
     \<and> length (prefix_text (call_level w) (call_file w) (call_line w)) < 100"

lemma flushed_append [simp]: "flushed (xs @ ys) = flushed xs @ flushed ys" "flushed [] = []"
  by (simp_all add: flushed_def)

lemma after_write_flushed: "printed_by_write ls @ flushed (after_write ls l) = flushed ls @ flushed [l]"
  by (simp add: printed_by_write_def after_write_def)

lemma write_calls_spec:
  assumes env: "length stack = 1024" "transmitter_empties D"
  shows "log_rel ls st \<Longrightarrow> list_all loggable ws \<Longrightarrow>
    \<exists>st' ls'. write_calls D stack ws st = Some (Inr st') \<and> log_rel ls' st'
      \<and> written_to DATA_REG (trace (con st')) @ flushed ls' =
        written_to DATA_REG (trace (con st)) @ flushed ls @ flushed (map call_text ws)"
proof (induction ws arbitrary: ls st)
  case Nil
  then show ?case by auto
next
  case (Cons w ws)
  have w: "0 \<notin> set (call_format w)" "render (call_format w) (call_args w) = Some (call_message w)"
      "0 \<notin> set (call_message w)" "length (call_message w) < 100" "call_line w \<noteq> 0x80000000"
      "length (prefix_text (call_level w) (call_file w) (call_line w)) < 100"
    using Cons.prems(2) by (auto simp: loggable_def call_message_def)
  obtain st1 where st1: "write_to_buffer D stack (call_format w) (call_level w) (call_file w)
        (call_line w) (call_args w) st = Some (Inr (0, st1))"
      "log_rel (after_write ls (call_text w)) st1" "prints D (printed_by_write ls) (con st) (con st1)"
    using write_to_buffer_spec [OF env Cons.prems(1) w] unfolding call_text_def by blast
  from Cons.IH [OF st1(2)] Cons.prems(2) obtain st' ls' where r:
      "write_calls D stack ws st1 = Some (Inr st')" "log_rel ls' st'"
      "written_to DATA_REG (trace (con st')) @ flushed ls' =
        written_to DATA_REG (trace (con st1)) @ flushed (after_write ls (call_text w)) @ flushed (map call_text ws)"
    by auto
  have "written_to DATA_REG (trace (con st1)) @ flushed (after_write ls (call_text w)) =
      written_to DATA_REG (trace (con st)) @ flushed ls @ flushed [call_text w]"
    using st1(3) after_write_flushed [of ls "call_text w"] by (simp add: prints_def)
  then have "written_to DATA_REG (trace (con st')) @ flushed ls' =
      written_to DATA_REG (trace (con st)) @ flushed ls @ flushed (map call_text (w # ws))"
    using r(3) by (simp add: flushed_def flip: append_assoc)
  with r st1(1) show ?case by auto
qed

definition initial_log :: klog where
  "initial_log = \<lparr>BUFFER = replicate 45000 0, tail = 0, con = test_console\<rparr>"

lemma rows_blank: "rows (replicate n []) = replicate (900 * n) 0"
  by (induction n) (simp_all add: pad_def replicate_add [of 900 "900 * _", simplified])

lemma initial_log_rel: "log_rel [] initial_log"
  using rows_blank [of 50] by (simp add: log_rel_def initial_log_def)

subsection \<open>Properties\<close>

text \<open>
  C6. The row buffer implements the abstract log. A message and a prefix of fewer than 100
  characters each, without zero bytes, become one more pending line; when 49 lines are pending
  they are first printed, each with a newline, and forgotten. The call returns 0, and it neither
  moves the interrupt flag nor prints anything else. The coloured variant adds the colour codes.
\<close>

theorem write_to_buffer_implements_log:
  assumes "length stack = 1024" "transmitter_empties D" "log_rel ls st"
    and "0 \<notin> set fmt" "render fmt args = Some msg" "0 \<notin> set msg" "length msg < 100"
    and "line \<noteq> 0x80000000" "length (colored_prefix_text color level file line) < 100"
  shows "(\<exists>st'. write_to_buffer D stack fmt level file line args st = Some (Inr (0, st'))
      \<and> log_rel (after_write ls (prefix_text level file line @ msg)) st'
      \<and> prints D (printed_by_write ls) (con st) (con st'))
    \<and> (\<exists>st'. write_to_buffer_colored D stack fmt color level file line args st = Some (Inr (0, st'))
      \<and> log_rel (after_write ls (colored_prefix_text color level file line @ msg @ RESET)) st'
      \<and> prints D (printed_by_write ls) (con st) (con st'))"
  using write_to_buffer_spec [OF assms(1-8)] write_to_buffer_colored_spec [OF assms] assms(9)
  by (simp add: colored_prefix_text_def)

theorem write_to_buffer_implements_log_witness:
  "\<exists>st'. write_to_buffer (uart_device 0) (replicate 1024 0) (lit ''id %d'') (lit ''INFO'') (lit ''a.c'') 7 [VWord 5]
      initial_log = Some (Inr (0, st'))
    \<and> log_rel [lit ''[INFO] a.c:7 id 5''] st'"
proof -
  have r: "render (lit ''id %d'') [VWord 5] = Some (lit ''id 5'')" by code_simp
  have p: "prefix_text (lit ''INFO'') (lit ''a.c'') 7 = lit ''[INFO] a.c:7 ''" by code_simp
  have n: "length (colored_prefix_text GREEN (lit ''INFO'') (lit ''a.c'') 7) < 100" by code_simp
  show ?thesis
    using write_to_buffer_implements_log [OF _ uart_device_empties initial_log_rel _ r _ _ _ n, of "replicate 1024 0" 0]
    unfolding p by (auto simp: after_write_def lit_def)
qed

text \<open>
  C16. No line is lost or reordered by any sequence of such writes: what the serial port has
  sent, followed by the lines still pending, grows by exactly the lines of the calls, in the order
  of the calls.
\<close>

theorem log_keeps_every_line:
  assumes "length stack = 1024" "transmitter_empties D" "log_rel ls st" "list_all loggable ws"
  shows "\<exists>st' ls'. write_calls D stack ws st = Some (Inr st') \<and> log_rel ls' st'
      \<and> written_to DATA_REG (trace (con st')) @ flushed ls' =
        written_to DATA_REG (trace (con st)) @ flushed ls @ flushed (map call_text ws)"
  by (rule write_calls_spec [OF assms])

definition test_call :: log_call where
  "test_call = \<lparr>call_format = lit ''n=%x'', call_level = lit ''INFO'', call_file = lit ''a.c'', call_line = 9,
     call_args = [VWord 31]\<rparr>"

theorem log_keeps_every_line_witness:
  "\<exists>st' ls'. write_calls (uart_device 2) (replicate 1024 0) (replicate 60 test_call) initial_log = Some (Inr st')
      \<and> log_rel ls' st'
      \<and> written_to DATA_REG (trace (con st')) @ flushed ls' =
        flushed (replicate 60 (lit ''[INFO] a.c:9 n=0000001f''))"
proof -
  have l: "loggable test_call" by code_simp
  have t: "call_text test_call = lit ''[INFO] a.c:9 n=0000001f''" by code_simp
  show ?thesis
    using log_keeps_every_line [OF _ uart_device_empties initial_log_rel, of "replicate 1024 0" "replicate 60 test_call" 2]
      l t by (simp add: list_all_iff map_replicate_const initial_log_def test_console_def)
qed

text \<open>
  C22. A panic disables interrupts, prints every pending line in order and then its message,
  and stops in a halt with the interrupts still disabled; the log is empty then.
\<close>

theorem panic_reports_and_halts:
  assumes "length stack = 1024" "transmitter_empties D" "log_rel ls st" "length (c_content msg) \<le> 900"
  shows "\<exists>st'. panic D stack msg st = Some (Inr st') \<and> log_rel [] st'
    \<and> written_to DATA_REG (trace (con st')) = written_to DATA_REG (trace (con st)) @ flushed ls
        @ 10 # lit ''panic called with error: '' @ c_content msg
    \<and> hd (trace (con st')) = Hlt \<and> \<not> interrupt_flag b (trace (con st'))"
  by (rule panic_spec [OF assms])

theorem panic_reports_and_halts_witness:
  "\<exists>st'. panic (uart_device 1) (replicate 1024 0) (lit ''boom'') initial_log = Some (Inr st')
    \<and> written_to DATA_REG (trace (con st')) = 10 # lit ''panic called with error: boom''"
  using panic_reports_and_halts [OF _ uart_device_empties initial_log_rel, of "replicate 1024 0" "lit ''boom''" 1]
  by (auto simp: initial_log_def test_console_def c_content_def lit_def)

text \<open>
  A message of 101 to 800 characters is neither cut nor refused: \<open>vsnprintf\<close> returns its
  full length, which passes the test against the row size, and \<open>memcpy\<close> reads behind the
  local buffer of 100 bytes.
\<close>

theorem long_log_message_overreads:
  assumes "length stack = 1024" "transmitter_empties D" "log_rel ls st"
    and "0 \<notin> set fmt" "render fmt args = Some msg" "100 < length msg" "length msg \<le> 800"
    and "line \<noteq> 0x80000000" "length (prefix_text level file line) < 100"
  shows "write_to_buffer D stack fmt level file line args st =
    Some (Inl (Undefined ''memcpy: source too short''))"
  by (rule write_to_buffer_overread [OF assms])

theorem long_log_message_overreads_witness:
  "write_to_buffer (uart_device 0) (replicate 1024 0) (replicate 101 65) (lit ''INFO'') (lit ''a.c'') 7 [] initial_log =
    Some (Inl (Undefined ''memcpy: source too short''))"
proof -
  have r: "render (replicate 101 65) [] = Some (replicate 101 65)" by code_simp
  have n: "length (prefix_text (lit ''INFO'') (lit ''a.c'') 7) < 100" by code_simp
  show ?thesis
    by (rule long_log_message_overreads [OF _ uart_device_empties initial_log_rel _ r _ _ _ n]) simp_all
qed

end
