(* ===== verification/Heap_Spec.thy ===== *)
theory Heap_Spec
  imports Prelude
begin

text \<open>
  The abstract heap: the region managed by the allocator is tiled, from its base upwards, by
  blocks. A block is a header of 8 bytes and a payload of the given size; it is either on the
  free list or handed out. Addresses are natural numbers, so nothing wraps here.
\<close>

datatype block = Free nat | Used nat

primrec bsize :: "block \<Rightarrow> nat" where
  "bsize (Free n) = n"
| "bsize (Used n) = n"

primrec is_free :: "block \<Rightarrow> bool" where
  "is_free (Free n) = True"
| "is_free (Used n) = False"

fun extent :: "block list \<Rightarrow> nat" where
  "extent [] = 0"
| "extent (b # bs) = 8 + bsize b + extent bs"

text \<open>The blocks handed out, as pairs of payload address and payload size.\<close>

fun live :: "nat \<Rightarrow> block list \<Rightarrow> (nat \<times> nat) list" where
  "live a [] = []"
| "live a (Free n # bs) = live (a + 8 + n) bs"
| "live a (Used n # bs) = (a + 8, n) # live (a + 8 + n) bs"

text \<open>The free segments, as pairs of header address and payload size.\<close>

fun free_segs :: "nat \<Rightarrow> block list \<Rightarrow> (nat \<times> nat) list" where
  "free_segs a [] = []"
| "free_segs a (Free n # bs) = (a, n) # free_segs (a + 8 + n) bs"
| "free_segs a (Used n # bs) = free_segs (a + 8 + n) bs"

text \<open>Where a request of \<open>sz\<close> bytes is carved out of the tail of the segment ending at \<open>e\<close>.\<close>

definition carve :: "nat \<Rightarrow> nat \<Rightarrow> nat" where
  "carve e sz = (e - sz) - (e - sz) mod 8 - 8"

fun alloc_spec :: "nat \<Rightarrow> nat \<Rightarrow> block list \<Rightarrow> (nat \<times> block list) option" where
  "alloc_spec sz a [] = None"
| "alloc_spec sz a (Used n # bs) =
     (case alloc_spec sz (a + 8 + n) bs of None \<Rightarrow> None | Some (p, bs') \<Rightarrow> Some (p, Used n # bs'))"
| "alloc_spec sz a (Free n # bs) =
     (if a + 8 \<le> carve (a + 8 + n) sz
      then Some (carve (a + 8 + n) sz + 8, Free (carve (a + 8 + n) sz - (a + 8))
             # Used (a + 8 + n - (carve (a + 8 + n) sz + 8)) # bs)
      else (case alloc_spec sz (a + 8 + n) bs of None \<Rightarrow> None
            | Some (p, bs') \<Rightarrow> Some (p, Free n # bs')))"

fun join :: "block \<Rightarrow> block list \<Rightarrow> block list" where
  "join (Free m) (Free n # bs) = Free (m + 8 + n) # bs"
| "join b bs = b # bs"

fun coalesce :: "block list \<Rightarrow> block list" where
  "coalesce [] = []"
| "coalesce (b # bs) = join b (coalesce bs)"

fun release :: "nat \<Rightarrow> nat \<Rightarrow> block list \<Rightarrow> block list" where
  "release p a [] = []"
| "release p a (Used n # bs) =
     (if a + 8 = p then Free n # bs else Used n # release p (a + 8 + n) bs)"
| "release p a (Free n # bs) = Free n # release p (a + 8 + n) bs"

definition free_spec :: "nat \<Rightarrow> nat \<Rightarrow> block list \<Rightarrow> block list" where
  "free_spec p a bs = coalesce (release p a bs)"

text \<open>No two neighbouring free segments.\<close>

fun coalesced :: "block list \<Rightarrow> bool" where
  "coalesced [] = True"
| "coalesced (b # bs) =
     ((case bs of [] \<Rightarrow> True | c # _ \<Rightarrow> \<not> (is_free b \<and> is_free c)) \<and> coalesced bs)"

subsection \<open>Joining neighbours\<close>

lemma join_cases:
  obtains (merge) m n cs where "b = Free m" "bs = Free n # cs" "join b bs = Free (m + 8 + n) # cs"
  | (keep) "join b bs = b # bs" "case bs of [] \<Rightarrow> True | c # _ \<Rightarrow> \<not> (is_free b \<and> is_free c)"
  by (cases "(b, bs)" rule: join.cases) (auto split: list.splits)

lemma coalesced_join: "coalesced bs \<Longrightarrow> coalesced (join b bs)"
  by (cases b bs rule: join_cases) (auto split: list.splits)

lemma extent_join [simp]: "extent (join b bs) = 8 + bsize b + extent bs"
  by (cases b bs rule: join_cases) auto

lemma live_join [simp]: "live a (join b bs) = live a (b # bs)"
  by (cases b bs rule: join_cases) (auto simp: algebra_simps)

lemma coalesced_coalesce [simp]: "coalesced (coalesce bs)"
  by (induction bs) (auto intro: coalesced_join)

lemma coalesce_id: "coalesced bs \<Longrightarrow> coalesce bs = bs"
proof (induction bs)
  case (Cons b bs)
  then have "coalesce (b # bs) = join b bs" by simp
  with Cons.prems show ?case by (cases b bs rule: join_cases) auto
qed simp

lemma extent_coalesce [simp]: "extent (coalesce bs) = extent bs"
  by (induction bs) auto

lemma live_Cons_cong: "(\<And>a. live a bs = live a cs) \<Longrightarrow> live a (b # bs) = live a (b # cs)"
  by (cases b) auto

lemma live_coalesce [simp]: "live a (coalesce bs) = live a bs"
  by (induction bs arbitrary: a) (auto intro: live_Cons_cong)

subsection \<open>Where the blocks are\<close>

lemma live_bounds:
  "(p, n) \<in> set (live a bs) \<Longrightarrow> a + 8 \<le> p \<and> p + n \<le> a + extent bs"
  by (induction a bs rule: live.induct) auto

lemma free_segs_bounds:
  "(p, n) \<in> set (free_segs a bs) \<Longrightarrow> a \<le> p \<and> p + 8 + n \<le> a + extent bs"
  by (induction a bs rule: free_segs.induct) auto

text \<open>Payloads of different live blocks are separated by at least one header.\<close>

lemma live_separated: "sorted_wrt (\<lambda>(p, n) (q, k). p + n + 8 \<le> q) (live a bs)"
  by (induction a bs rule: live.induct) (fastforce dest: live_bounds)+

lemma live_apart:
  assumes "(p, n) \<in> set (live a bs)" and "(q, k) \<in> set (live a bs)" and "p \<noteq> q"
  shows "p + n + 8 \<le> q \<or> q + k + 8 \<le> p"
  using assms
  by (induction a bs rule: live.induct) (fastforce dest: live_bounds)+

lemma live_unique: "(p, n) \<in> set (live a bs) \<Longrightarrow> (p, k) \<in> set (live a bs) \<Longrightarrow> n = k"
  by (induction a bs rule: live.induct) (fastforce dest: live_bounds)+

lemma live_disjoint_free:
  "(p, n) \<in> set (live a bs) \<Longrightarrow> (q, k) \<in> set (free_segs a bs) \<Longrightarrow> p + n \<le> q \<or> q + 8 + k + 8 \<le> p"
  by (induction a bs rule: live.induct) (fastforce dest: live_bounds free_segs_bounds)+

subsection \<open>Allocation\<close>

lemma carve_eq: "carve e sz = 8 * ((e - sz) div 8) - 8"
  by (simp add: carve_def minus_mod_eq_mult_div)

lemma carve_bounds:
  assumes "sz + 8 \<le> e"
  shows "carve e sz + 8 + sz \<le> e" and "e < carve e sz + sz + 16" and "carve e sz mod 8 = 0"
proof -
  define q where "q = (e - sz) div 8"
  have q: "e - sz = 8 * q + (e - sz) mod 8" "(e - sz) mod 8 < 8"
    by (simp_all add: q_def)
  have "q \<noteq> 0" using assms by (simp add: q_def div_eq_0_iff)
  then obtain k where k: "q = Suc k" by (cases q) auto
  have c: "carve e sz = 8 * k" by (simp add: carve_eq k flip: q_def)
  show "carve e sz + 8 + sz \<le> e" "e < carve e sz + sz + 16" "carve e sz mod 8 = 0"
    using assms q k by (simp_all add: c)
qed

lemma alloc_spec_UsedE:
  assumes "alloc_spec sz a (Used n # bs) = Some (p, bs')"
  obtains cs where "alloc_spec sz (a + 8 + n) bs = Some (p, cs)" "bs' = Used n # cs"
  using assms by (auto split: option.splits)

lemma alloc_spec_FreeE:
  assumes "alloc_spec sz a (Free n # bs) = Some (p, bs')"
  obtains (here) h where "h = carve (a + 8 + n) sz" "a + 8 \<le> h" "p = h + 8"
      "bs' = Free (h - (a + 8)) # Used (a + 8 + n - (h + 8)) # bs"
  | (later) cs where "carve (a + 8 + n) sz < a + 8" "alloc_spec sz (a + 8 + n) bs = Some (p, cs)"
      "bs' = Free n # cs"
  using assms by (auto split: option.splits if_splits)

declare alloc_spec.simps (2,3) [simp del]

text \<open>
  The result of a successful allocation: an aligned payload of the requested size, rounded up
  by less than 8 bytes, that was not live before; every other live block stays.
\<close>

lemma alloc_spec_live:
  assumes "alloc_spec sz a bs = Some (p, bs')" and "sz \<le> a"
  shows "\<exists>n xs ys. sz \<le> n \<and> n < sz + 8 \<and> live a bs' = xs @ (p, n) # ys \<and> live a bs = xs @ ys"
  using assms
proof (induction sz a bs arbitrary: p bs' rule: alloc_spec.induct)
  case (2 sz a n bs)
  obtain cs where cs: "alloc_spec sz (a + 8 + n) bs = Some (p, cs)" "bs' = Used n # cs"
    using "2.prems"(1) by (rule alloc_spec_UsedE)
  with "2.IH" "2.prems" obtain k xs ys where
    "sz \<le> k" "k < sz + 8" "live (a + 8 + n) cs = xs @ (p, k) # ys" "live (a + 8 + n) bs = xs @ ys"
    by fastforce
  then show ?case
    by (intro exI [of _ k] exI [of _ "(a + 8, n) # xs"] exI [of _ ys]) (simp add: cs)
next
  case (3 sz a n bs)
  from "3.prems"(1) show ?case
  proof (cases rule: alloc_spec_FreeE)
    case (here h)
    have b: "h + 8 + sz \<le> a + 8 + n" "a + 8 + n < h + sz + 16"
      using carve_bounds [of sz "a + 8 + n"] "3.prems"(2) here(1) by auto
    then have "a + 8 + (h - (a + 8)) + 8 + (a + 8 + n - (h + 8)) = a + 8 + n"
      using here(2) by simp
    then have "live a bs' = [] @ (p, a + 8 + n - (h + 8)) # live (a + 8 + n) bs"
      using here(2-) by (simp add: ac_simps)
    moreover have "sz \<le> a + 8 + n - (h + 8)" "a + 8 + n - (h + 8) < sz + 8" using b by auto
    ultimately show ?thesis by (metis append_Nil live.simps(2))
  next
    case (later cs)
    then show ?thesis using "3.IH" [of p cs] "3.prems"(2) by auto
  qed
qed simp

lemma alloc_spec_aligned:
  "alloc_spec sz a bs = Some (p, bs') \<Longrightarrow> sz \<le> a \<Longrightarrow> p mod 8 = 0"
proof (induction sz a bs arbitrary: p bs' rule: alloc_spec.induct)
  case (3 sz a n bs)
  have "carve (a + 8 + n) sz mod 8 = 0" using "3.prems"(2) by (intro carve_bounds) simp
  then show ?case using 3 by (elim alloc_spec_FreeE) auto
qed (auto elim: alloc_spec_UsedE)

lemma alloc_spec_extent:
  "alloc_spec sz a bs = Some (p, bs') \<Longrightarrow> sz \<le> a \<Longrightarrow> extent bs' = extent bs"
proof (induction sz a bs arbitrary: p bs' rule: alloc_spec.induct)
  case (3 sz a n bs)
  have "carve (a + 8 + n) sz + 8 \<le> a + 8 + n"
    using "3.prems"(2) carve_bounds(1) [of sz "a + 8 + n"] by simp
  then show ?case using 3 by (elim alloc_spec_FreeE) auto
qed (auto elim: alloc_spec_UsedE)

lemma alloc_spec_hd:
  "alloc_spec sz a bs = Some (p, bs') \<Longrightarrow>
    bs \<noteq> [] \<and> bs' \<noteq> [] \<and> is_free (hd bs') = is_free (hd bs)"
  by (cases bs; cases "hd bs") (auto elim: alloc_spec_UsedE alloc_spec_FreeE)

lemma coalesced_Cons_iff:
  "coalesced (b # bs) \<longleftrightarrow> (bs = [] \<or> \<not> (is_free b \<and> is_free (hd bs))) \<and> coalesced bs"
  by (cases bs) auto

declare coalesced.simps (2) [simp del]

lemma alloc_spec_coalesced:
  "alloc_spec sz a bs = Some (p, bs') \<Longrightarrow> coalesced bs \<Longrightarrow> coalesced bs'"
proof (induction sz a bs arbitrary: p bs' rule: alloc_spec.induct)
  case (2 sz a n bs)
  then show ?case by (elim alloc_spec_UsedE) (auto simp: coalesced_Cons_iff)
next
  case (3 sz a n bs)
  then show ?case
    by (elim alloc_spec_FreeE) (auto simp: coalesced_Cons_iff dest: alloc_spec_hd)
qed simp

text \<open>A request is refused only when no free segment can hold it.\<close>

lemma alloc_spec_None:
  "alloc_spec sz a bs = None \<longleftrightarrow> (\<forall>(q, n) \<in> set (free_segs a bs). carve (q + 8 + n) sz < q + 8)"
  by (induction sz a bs rule: alloc_spec.induct) (auto simp: alloc_spec.simps split: option.splits)

subsection \<open>Release\<close>

lemma extent_release [simp]: "extent (release p a bs) = extent bs"
  by (induction p a bs rule: release.induct) auto

lemma live_release:
  "live a (release p a bs) = filter (\<lambda>(q, n). q \<noteq> p) (live a bs)"
proof (induction p a bs rule: release.induct)
  case (2 p a n bs)
  have "filter (\<lambda>(q, n). q \<noteq> a + 8) (live (a + 8 + n) bs) = live (a + 8 + n) bs"
    by (auto simp: filter_id_conv dest: live_bounds)
  with 2 show ?case by auto
qed auto

lemma extent_free_spec [simp]: "extent (free_spec p a bs) = extent bs"
  by (simp add: free_spec_def)

lemma coalesced_free_spec [simp]: "coalesced (free_spec p a bs)"
  by (simp add: free_spec_def)

lemma live_free_spec: "live a (free_spec p a bs) = filter (\<lambda>(q, n). q \<noteq> p) (live a bs)"
  by (simp add: free_spec_def live_release)

lemma join_hd: "join b bs \<noteq> [] \<and> is_free (hd (join b bs)) = is_free b"
  by (cases b bs rule: join_cases) auto

lemma free_spec_hd:
  "bs \<noteq> [] \<Longrightarrow> is_free (hd bs) \<Longrightarrow> free_spec p a bs \<noteq> [] \<and> is_free (hd (free_spec p a bs))"
  by (cases bs; cases "hd bs") (auto simp: free_spec_def join_hd)

lemma free_alloc_spec:
  assumes "alloc_spec sz a bs = Some (p, bs')" and "sz \<le> a" and "coalesced bs"
  shows "free_spec p a bs' = bs"
  using assms
proof (induction sz a bs arbitrary: p bs' rule: alloc_spec.induct)
  case (2 sz a n bs)
  obtain cs where cs: "alloc_spec sz (a + 8 + n) bs = Some (p, cs)" "bs' = Used n # cs"
    using "2.prems"(1) by (rule alloc_spec_UsedE)
  have "a + 8 \<noteq> p"
    using alloc_spec_live [OF cs(1)] "2.prems"(2) live_bounds [of p _ "a + 8 + n" cs] by fastforce
  moreover have "free_spec p (a + 8 + n) cs = bs"
    using "2.IH" cs "2.prems" by (simp add: coalesced_Cons_iff)
  ultimately show ?case by (simp add: cs free_spec_def)
next
  case (3 sz a n bs)
  have co: "coalesced bs" "join (Free n) bs = Free n # bs"
    using "3.prems"(3) by (cases "(Free n, bs)" rule: join.cases; auto simp: coalesced_Cons_iff)+
  from "3.prems"(1) show ?case
  proof (cases rule: alloc_spec_FreeE)
    case (here h)
    have "h + 8 + sz \<le> a + 8 + n"
      using carve_bounds [of sz "a + 8 + n"] "3.prems"(2) here(1) by auto
    moreover have "join (Free k) bs = Free k # bs" for k
      using co(2) by (cases "(Free n, bs)" rule: join.cases) auto
    ultimately show ?thesis using here(2-) by (simp add: free_spec_def coalesce_id co)
  next
    case (later cs)
    then have "free_spec p (a + 8 + n) cs = bs"
      using "3.IH" [of p cs] co "3.prems"(2) by simp
    then show ?thesis using co(2) by (simp add: later free_spec_def)
  qed
qed simp

end
