(* ===== verification/Allocator.thy ===== *)
theory Allocator
  imports Memory Heap_Spec
begin

text \<open>
  kernel/kernel/allocator.c: \<open>malloc\<close>, \<open>free\<close>, \<open>insert_segment_into_free_list\<close> and \<open>merge_segments\<close> on
  the bytes of the memory, with the head pointer \<open>freeSegment\<close>; segment headers are read and written
  through \<open>size\<close> (offset 0) and \<open>next_segment\<close> (offset 4). The walks of the code need not end on a
  corrupt list: \<open>None\<close> is a walk for ever. Then the layout predicate that relates a memory to a list
  of blocks, and the proof that \<open>malloc\<close> implements the first fit of the abstract heap.
\<close>

record heap =
  bytes :: mem
  freeSegment :: u32

definition seg_size :: "mem \<Rightarrow> u32 \<Rightarrow> u32" where
  "seg_size m p = load32 m p"

definition seg_next :: "mem \<Rightarrow> u32 \<Rightarrow> u32" where
  "seg_next m p = load32 m (p + 4)"

definition set_size :: "mem \<Rightarrow> u32 \<Rightarrow> u32 \<Rightarrow> mem" where
  "set_size m p v = store32 m p v"

definition set_next :: "mem \<Rightarrow> u32 \<Rightarrow> u32 \<Rightarrow> mem" where
  "set_next m p v = store32 m (p + 4) v"

abbreviation sizeof_FreeSegment :: u32 where
  "sizeof_FreeSegment \<equiv> 8"

partial_function (option) malloc_loop :: "mem \<Rightarrow> u32 \<Rightarrow> u32 \<Rightarrow> (kerror + (u32 \<times> mem)) option" where
  "malloc_loop m sz free_segment_ptr =
     (if free_segment_ptr = 0 then Some (Inl (Panic ''Could not allocator memory!''))
      else let start_ptr = free_segment_ptr;
               end_ptr = free_segment_ptr + seg_size m free_segment_ptr + sizeof_FreeSegment;
               ptr = end_ptr - sz;
               ptr = ptr - ptr mod 8;
               ptr = ptr - sizeof_FreeSegment
           in if ptr < start_ptr + sizeof_FreeSegment
              then malloc_loop m sz (seg_next m free_segment_ptr)
              else let m = set_size m ptr (end_ptr - ptr - sizeof_FreeSegment);
                       m = set_next m ptr 0;
                       new_free_size = seg_size m free_segment_ptr - (end_ptr - ptr);
                       m = set_size m free_segment_ptr new_free_size
                   in Some (Inr (ptr + sizeof_FreeSegment, m)))"

definition malloc :: "heap \<Rightarrow> u32 \<Rightarrow> (kerror + (u32 \<times> heap)) option" where
  "malloc h sz = map_option (map_sum id (\<lambda>(p, m). (p, h\<lparr>bytes := m\<rparr>)))
     (malloc_loop (bytes h) sz (freeSegment h))"

definition merge_segments :: "mem \<Rightarrow> u32 \<Rightarrow> u32 \<Rightarrow> mem" where
  "merge_segments m a b =
     (if a + sizeof_FreeSegment + seg_size m a = b
      then let m = set_size m a (seg_size m a + sizeof_FreeSegment + seg_size m b)
           in set_next m a (seg_next m b)
      else m)"

partial_function (option) insert_segment_into_free_list ::
  "mem \<Rightarrow> u32 \<Rightarrow> u32 \<Rightarrow> (kerror + mem) option" where
  "insert_segment_into_free_list m new_free_segment free_list_ptr =
     (if free_list_ptr = 0 then Some (Inl (Panic ''Could not deallocate!''))
      else if seg_next m free_list_ptr > new_free_segment \<or> seg_next m free_list_ptr = 0
      then let old_ptr = seg_next m free_list_ptr;
               m = set_next m free_list_ptr new_free_segment;
               m = set_next m new_free_segment old_ptr;
               m = merge_segments m new_free_segment (seg_next m new_free_segment);
               m = merge_segments m free_list_ptr new_free_segment
           in Some (Inr m)
      else insert_segment_into_free_list m new_free_segment (seg_next m free_list_ptr))"

definition free :: "heap \<Rightarrow> u32 \<Rightarrow> (kerror + heap) option" where
  "free h ptr =
     (let segment_to_free = ptr - sizeof_FreeSegment;
          m = bytes h;
          sz = seg_size m segment_to_free;
          m = set_size m segment_to_free sz;
          m = set_next m segment_to_free 0
      in map_option (map_sum id (\<lambda>m. h\<lparr>bytes := m\<rparr>))
           (insert_segment_into_free_list m segment_to_free (freeSegment h)))"

subsection \<open>Headers in memory\<close>

lemma hdr_same:
  "seg_size (set_size m p v) p = v" "seg_next (set_next m p v) p = v"
  by (simp_all add: seg_size_def set_size_def seg_next_def set_next_def load32_store32_same)

text \<open>Headers that do not overlap.\<close>

definition apart :: "u32 \<Rightarrow> u32 \<Rightarrow> bool" where
  "apart p q \<longleftrightarrow> unat p + 8 \<le> 2 ^ 32 \<and> unat q + 8 \<le> 2 ^ 32
     \<and> (unat p + 8 \<le> unat q \<or> unat q + 8 \<le> unat p)"

lemma unat_plus4: "unat (p :: u32) + 8 \<le> 2 ^ 32 \<Longrightarrow> unat (p + 4) = unat p + 4"
  using unat_plus_small [of p 4] by simp

lemma hdr_self:
  assumes "unat p + 8 \<le> 2 ^ 32"
  shows "seg_next (set_size m p v) p = seg_next m p" "seg_size (set_next m p v) p = seg_size m p"
  using assms unat_plus4 [OF assms]
  by (auto simp: seg_size_def set_size_def seg_next_def set_next_def intro!: load32_store32_other)

lemma hdr_other:
  assumes "apart p q"
  shows "seg_size (set_size m p v) q = seg_size m q" "seg_next (set_size m p v) q = seg_next m q"
    "seg_size (set_next m p v) q = seg_size m q" "seg_next (set_next m p v) q = seg_next m q"
  using assms unat_plus4 [of p] unat_plus4 [of q]
  by (auto simp: apart_def seg_size_def set_size_def seg_next_def set_next_def
      intro!: load32_store32_other)

lemma hdr_bytes:
  assumes "unat p + 8 \<le> 2 ^ 32" and "unat x < unat p \<or> unat p + 8 \<le> unat x"
  shows "set_size m p v x = m x" "set_next m p v x = m x"
  using assms unat_plus4 [of p]
  by (auto simp: set_size_def set_next_def intro!: store32_other)

lemma hdr_cong:
  assumes "unat p + 8 \<le> 2 ^ 32" and "\<And>x. unat p \<le> unat x \<Longrightarrow> unat x < unat p + 8 \<Longrightarrow> m' x = m x"
  shows "seg_size m' p = seg_size m p" "seg_next m' p = seg_next m p"
  using assms unat_plus4 [of p] by (auto simp: seg_size_def seg_next_def intro!: load32_cong)

subsection \<open>The block list in memory\<close>

fun next_free :: "nat \<Rightarrow> block list \<Rightarrow> u32" where
  "next_free a [] = 0"
| "next_free a (Free n # bs) = of_nat a"
| "next_free a (Used n # bs) = next_free (a + 8 + n) bs"

fun layout :: "mem \<Rightarrow> nat \<Rightarrow> block list \<Rightarrow> bool" where
  "layout m a [] = True"
| "layout m a (Free n # bs) =
     (seg_size m (of_nat a) = of_nat n \<and> seg_next m (of_nat a) = next_free (a + 8 + n) bs
      \<and> layout m (a + 8 + n) bs)"
| "layout m a (Used n # bs) = (seg_size m (of_nat a) = of_nat n \<and> layout m (a + 8 + n) bs)"

definition in_live :: "nat \<Rightarrow> block list \<Rightarrow> nat \<Rightarrow> bool" where
  "in_live a bs x \<longleftrightarrow> (\<exists>(p, n) \<in> set (live a bs). p \<le> x + 8 \<and> x < p + n)"

definition untouched :: "mem \<Rightarrow> mem \<Rightarrow> nat \<Rightarrow> block list \<Rightarrow> bool" where
  "untouched m m' a bs \<longleftrightarrow>
     (\<forall>x. unat x < a \<or> a + extent bs \<le> unat x \<or> in_live a bs (unat x) \<longrightarrow> m' x = m x)"

lemma layout_frame:
  assumes "layout m a bs" and "a + extent bs \<le> 2 ^ 32"
    and "\<And>x. a \<le> unat x \<Longrightarrow> unat x < a + extent bs \<Longrightarrow> m' x = m x"
  shows "layout m' a bs"
  using assms
proof (induction m a bs rule: layout.induct)
  case (2 m a n bs)
  then have u: "unat (of_nat a :: u32) = a" by (simp add: word_nat)
  have "seg_size m' (of_nat a) = seg_size m (of_nat a)" "seg_next m' (of_nat a) = seg_next m (of_nat a)"
    using "2.prems"(2,3) by (intro hdr_cong; simp add: u)+
  with 2 show ?case by simp
next
  case (3 m a n bs)
  then have u: "unat (of_nat a :: u32) = a" by (simp add: word_nat)
  have "seg_size m' (of_nat a) = seg_size m (of_nat a)"
    using "3.prems"(2,3) by (intro hdr_cong; simp add: u)
  with 3 show ?case by simp
qed simp

lemma carve_word:
  fixes sz :: u32
  assumes "e < 2 ^ 32" and "unat sz + 8 \<le> e"
  shows "of_nat e - sz - (of_nat e - sz) mod 8 - 8 = (of_nat (carve e (unat sz)) :: u32)"
proof -
  define q where "q = e - unat sz"
  have "unat (of_nat e - sz) = q"
    using assms by (simp add: unat_sub_le unat_of_nat32 q_def)
  then have "of_nat e - sz = (of_nat q :: u32)" by (metis of_nat_unat ucast_id)
  moreover have q: "q < 2 ^ 32" "8 \<le> q" using assms by (auto simp: q_def)
  moreover have "(of_nat q :: u32) mod 8 = of_nat (q mod 8)"
    by (rule word_unat_eq_iff [THEN iffD2]) (use q in \<open>simp add: unat_mod8 unat_of_nat32\<close>)
  moreover have "q mod 8 + 8 \<le> q" using q by presburger
  ultimately show ?thesis by (simp add: carve_def of_nat_diff flip: q_def)
qed

subsection \<open>malloc implements the abstract allocation\<close>

lemma next_free_alloc:
  "alloc_spec sz a bs = Some (p, bs') \<Longrightarrow> next_free a bs' = next_free a bs"
proof (induction sz a bs arbitrary: p bs' rule: alloc_spec.induct)
  case (2 sz a n bs)
  then show ?case by (elim alloc_spec_UsedE) auto
next
  case (3 sz a n bs)
  then show ?case by (elim alloc_spec_FreeE) auto
qed simp

lemma in_live_Cons:
  "in_live a (b # bs) x \<Longrightarrow> x < a + 8 + bsize b \<or> in_live (a + 8 + bsize b) bs x"
  by (cases b) (auto simp: in_live_def)

lemma in_live_Free [simp]: "in_live a (Free n # bs) x = in_live (a + 8 + n) bs x"
  by (simp add: in_live_def)

lemma in_live_bounds: "in_live a bs x \<Longrightarrow> a \<le> x \<and> x < a + extent bs"
  by (auto simp: in_live_def dest!: live_bounds)

lemma untouchedD:
  "untouched m m' a bs \<Longrightarrow> unat x < a \<or> a + extent bs \<le> unat x \<or> in_live a bs (unat x) \<Longrightarrow> m' x = m x"
  by (auto simp: untouched_def)

lemma untouched_Cons:
  assumes "untouched m m' (a + 8 + bsize b) bs"
  shows "untouched m m' a (b # bs)"
  unfolding untouched_def
proof (intro allI impI)
  fix x :: u32
  assume "unat x < a \<or> a + extent (b # bs) \<le> unat x \<or> in_live a (b # bs) (unat x)"
  then show "m' x = m x"
    by (intro untouchedD [OF assms]) (auto dest: in_live_Cons)
qed

lemma layout_keep:
  assumes "layout m a (b # bs)" and "untouched m m' (a + 8 + bsize b) bs"
    and "a + 8 + bsize b < 2 ^ 32" and "layout m' (a + 8 + bsize b) cs"
    and "next_free (a + 8 + bsize b) cs = next_free (a + 8 + bsize b) bs"
  shows "layout m' a (b # cs)"
proof -
  have u: "unat (of_nat a :: u32) = a" using assms(3) by (simp add: unat_of_nat32)
  have "m' x = m x" if "unat x < a + 8" for x
    using that by (intro untouchedD [OF assms(2)]) simp
  then have "seg_size m' (of_nat a) = seg_size m (of_nat a)"
    "seg_next m' (of_nat a) = seg_next m (of_nat a)"
    using assms(3) by (auto simp: u intro!: hdr_cong)
  then show ?thesis using assms(1,4,5) by (cases b) auto
qed

lemma malloc_loop_unfold:
  assumes "0 < a" and "e = a + 8 + n" and "e < 2 ^ 32" and "unat sz + 8 \<le> e"
    and "seg_size m (of_nat a) = of_nat n"
  shows "malloc_loop m sz (of_nat a) =
    (if carve e (unat sz) < a + 8 then malloc_loop m sz (seg_next m (of_nat a))
     else let h = of_nat (carve e (unat sz));
              m1 = set_next (set_size m h (of_nat e - h - 8)) h 0
          in Some (Inr (h + 8, set_size m1 (of_nat a) (seg_size m1 (of_nat a) - (of_nat e - h)))))"
proof -
  have e: "(of_nat a :: u32) + of_nat n + 8 = of_nat e" by (simp add: assms(2))
  have c: "carve e (unat sz) < 2 ^ 32" using carve_bounds(1) [OF assms(4)] assms(3) by simp
  have nz: "(of_nat a :: u32) \<noteq> 0"
    using assms(1-3) of_nat_eq_iff32 [of a 0] by simp
  have lt: "((of_nat (carve e (unat sz)) :: u32) < of_nat a + 8) = (carve e (unat sz) < a + 8)"
    using c assms(2,3) of_nat_less_iff32 [of "carve e (unat sz)" "a + 8"] by simp
  show ?thesis
    by (subst malloc_loop.simps)
      (simp add: nz assms(5) e carve_word [OF assms(3,4)] lt Let_def)
qed

lemma malloc_here:
  assumes "layout m a (Free n # bs)" and "0 < a" and "a + extent (Free n # bs) < 2 ^ 32"
    and h: "h = carve (a + 8 + n) (unat sz)" and "unat sz \<le> a" and "a + 8 \<le> h"
  shows "\<exists>m'. malloc_loop m sz (of_nat a) = Some (Inr (of_nat (h + 8), m'))
    \<and> layout m' a (Free (h - (a + 8)) # Used (a + 8 + n - (h + 8)) # bs)
    \<and> untouched m m' a (Free n # bs)"
proof -
  define e where "e = a + 8 + n"
  have e: "e < 2 ^ 32" "unat sz + 8 \<le> e" using assms(3,5) by (auto simp: e_def)
  have c: "h + 8 \<le> e" using carve_bounds(1) [OF e(2)] by (simp add: h flip: e_def)
  define m1 where "m1 = set_next (set_size m (of_nat h) (of_nat e - of_nat h - 8)) (of_nat h) 0"
  define m' where "m' = set_size m1 (of_nat a) (seg_size m1 (of_nat a) - (of_nat e - of_nat h))"
  have u: "unat (of_nat a :: u32) = a" "unat (of_nat h :: u32) = h"
    using assms(6) c e(1) by (simp_all add: unat_of_nat32)
  have ap: "apart (of_nat h) (of_nat a)" "apart (of_nat a) (of_nat h)"
    using assms(6) c e(1) by (auto simp: apart_def u)
  have pay: "(of_nat e - of_nat h - 8 :: u32) = of_nat (e - (h + 8))"
    using c by (simp add: of_nat_diff algebra_simps)
  have "malloc_loop m sz (of_nat a) = Some (Inr (of_nat (h + 8), m'))"
    using malloc_loop_unfold [OF assms(2) e_def e, of m] assms(1,6)
    by (simp add: h m'_def m1_def Let_def flip: e_def)
  moreover have hd: "seg_size m' (of_nat h) = of_nat (e - (h + 8))"
    "seg_size m' (of_nat a) = of_nat (h - (a + 8))" "seg_next m' (of_nat a) = seg_next m (of_nat a)"
  proof -
    have "unat (of_nat h :: u32) + 8 \<le> 2 ^ 32" "unat (of_nat a :: u32) + 8 \<le> 2 ^ 32"
      using ap by (auto simp: apart_def)
    then show "seg_size m' (of_nat h) = of_nat (e - (h + 8))"
      "seg_next m' (of_nat a) = seg_next m (of_nat a)"
      by (simp_all add: m'_def m1_def hdr_other ap hdr_self hdr_same pay)
    have "seg_size m1 (of_nat a) = of_nat n" using assms(1) by (simp add: m1_def hdr_other ap)
    moreover have "(of_nat n - (of_nat e - of_nat h) :: u32) = of_nat (h - (a + 8))"
      using assms(6) by (simp add: of_nat_diff e_def)
    ultimately show "seg_size m' (of_nat a) = of_nat (h - (a + 8))"
      by (simp add: m'_def hdr_same)
  qed
  have fr: "m' x = m x" if "unat x < a \<or> e \<le> unat x" for x
    using that assms(6) c e(1) by (auto simp: m'_def m1_def hdr_bytes u)
  have "layout m e bs" "e + extent bs \<le> 2 ^ 32"
    using assms(1,3) by (simp_all add: e_def)
  then have "layout m' e bs"
    by (rule layout_frame) (simp add: fr)
  moreover have "untouched m m' a (Free n # bs)"
    using fr by (auto simp: untouched_def e_def dest: in_live_bounds)
  ultimately show ?thesis
    using assms(1,6) c hd by (intro exI [of _ m']) (auto simp: e_def algebra_simps)
qed

definition malloc_sim :: "mem \<Rightarrow> u32 \<Rightarrow> nat \<Rightarrow> block list \<Rightarrow> bool" where
  "malloc_sim m sz a bs \<longleftrightarrow>
    (case alloc_spec (unat sz) a bs of
      None \<Rightarrow> malloc_loop m sz (next_free a bs) = Some (Inl (Panic ''Could not allocator memory!''))
    | Some (p, bs') \<Rightarrow> \<exists>m'. malloc_loop m sz (next_free a bs) = Some (Inr (of_nat p, m'))
        \<and> layout m' a bs' \<and> untouched m m' a bs)"

lemma malloc_skip:
  assumes "malloc_sim m sz (a + 8 + bsize b) bs" and "layout m a (b # bs)"
    and "a + 8 + bsize b < 2 ^ 32"
    and "malloc_loop m sz (next_free a (b # bs)) = malloc_loop m sz (next_free (a + 8 + bsize b) bs)"
    and "alloc_spec (unat sz) a (b # bs) = (case alloc_spec (unat sz) (a + 8 + bsize b) bs of
           None \<Rightarrow> None | Some (p, bs') \<Rightarrow> Some (p, b # bs'))"
  shows "malloc_sim m sz a (b # bs)"
proof (cases "alloc_spec (unat sz) (a + 8 + bsize b) bs")
  case None
  then show ?thesis using assms by (simp add: malloc_sim_def)
next
  case (Some r)
  obtain p bs' where r: "r = (p, bs')" by (cases r)
  obtain m' where m': "malloc_loop m sz (next_free (a + 8 + bsize b) bs) = Some (Inr (of_nat p, m'))"
    "layout m' (a + 8 + bsize b) bs'" "untouched m m' (a + 8 + bsize b) bs"
    using assms(1) Some r by (auto simp: malloc_sim_def)
  have "next_free (a + 8 + bsize b) bs' = next_free (a + 8 + bsize b) bs"
    using Some r by (intro next_free_alloc) simp
  with assms(2) m'(3) assms(3) m'(2) have "layout m' a (b # bs')"
    by (rule layout_keep)
  then show ?thesis
    using assms(4,5) Some r m' untouched_Cons [OF m'(3)] by (simp add: malloc_sim_def)
qed

lemma malloc_loop_refines:
  assumes "layout m a bs" and "0 < a" and "a + extent bs < 2 ^ 32" and "unat sz \<le> a"
  shows "malloc_sim m sz a bs"
  using assms
proof (induction m a bs rule: layout.induct)
  case (1 m a)
  then show ?case by (simp add: malloc_sim_def malloc_loop.simps)
next
  case (2 m a n bs)
  define e where "e = a + 8 + n"
  have e: "e < 2 ^ 32" "unat sz + 8 \<le> e" using "2.prems" by (auto simp: e_def)
  show ?case
  proof (cases "a + 8 \<le> carve e (unat sz)")
    case True
    then show ?thesis
      using malloc_here [OF "2.prems"(1,2,3) refl "2.prems"(4)]
      by (simp add: malloc_sim_def alloc_spec.simps flip: e_def)
  next
    case False
    have "malloc_loop m sz (of_nat a) = malloc_loop m sz (next_free e bs)"
      using malloc_loop_unfold [OF "2.prems"(2) e_def e, of m] False "2.prems"(1) by (simp add: e_def)
    moreover have "malloc_sim m sz e bs"
      using "2.IH" "2.prems" by (simp add: e_def)
    ultimately show ?thesis
      using False e "2.prems"(1) by (intro malloc_skip) (simp_all add: alloc_spec.simps e_def)
  qed
next
  case (3 m a n bs)
  then show ?case by (intro malloc_skip) (simp_all add: alloc_spec.simps)
qed

end
