(* ===== verification/Alloc_Free.thy ===== *)
theory Alloc_Free
  imports Allocator
begin

text \<open>
  Proofs that \<open>free\<close> of kernel/kernel/allocator.c implements \<open>release\<close> of the abstract heap: the walk
  of \<open>insert_segment_into_free_list\<close> to the neighbours of the freed block, the cases in which it
  becomes the new head, is linked in between or is appended, and the merging with both neighbours.
\<close>

subsection \<open>free implements the abstract release\<close>

abbreviation all_used :: "block list \<Rightarrow> bool" where
  "all_used us \<equiv> list_all (\<lambda>b. \<not> is_free b) us"

lemma extent_append [simp]: "extent (xs @ ys) = extent xs + extent ys"
  by (induction xs) auto

lemma next_free_used [simp]: "all_used us \<Longrightarrow> next_free a (us @ ys) = next_free (a + extent us) ys"
  by (induction a us rule: next_free.induct) (auto simp: ac_simps)

lemma layout_used: "all_used us \<Longrightarrow> layout m a (us @ ys) \<longleftrightarrow> layout m a us \<and> layout m (a + extent us) ys"
  by (induction m a us rule: layout.induct) (auto simp: ac_simps)

lemma coalesce_used [simp]: "all_used us \<Longrightarrow> coalesce (us @ ys) = us @ coalesce ys"
proof (induction us)
  case (Cons b us)
  then show ?case by (cases b) auto
qed simp

lemma next_free_range:
  "next_free a bs = 0 \<or> (\<exists>x. next_free a bs = of_nat x \<and> a \<le> x \<and> x + 8 \<le> a + extent bs)"
proof (induction a bs rule: next_free.induct)
  case (3 a n bs)
  then show ?case by fastforce
qed auto

lemma next_free_beyond:
  assumes "bs \<noteq> [] \<longrightarrow> \<not> is_free (hd bs)" and "0 < a" and "a + extent bs < 2 ^ 32"
  shows "next_free a bs \<noteq> of_nat a"
proof (cases bs)
  case Nil
  then show ?thesis using assms(2,3) of_nat_eq_iff32 [of 0 a] by auto
next
  case (Cons b cs)
  then obtain n where b: "b = Used n" using assms(1) by (cases b) auto
  have "next_free (a + 8 + n) cs \<noteq> of_nat a"
    using next_free_range [of "a + 8 + n" cs] assms(2,3) of_nat_eq_iff32 [of _ a]
    by (fastforce simp: Cons b of_nat_eq_iff32 [of 0, simplified])
  then show ?thesis by (simp add: Cons b)
qed

text \<open>Merging a free segment with its successor in the list joins it with its right neighbour.\<close>

lemma merge_frame:
  assumes "unat a + 8 \<le> 2 ^ 32" and "unat x < unat a \<or> unat a + 8 \<le> unat x"
  shows "merge_segments m a b x = m x"
  using assms by (simp add: merge_segments_def hdr_bytes Let_def)

lemma merge_sim:
  assumes "layout m a (Free n # bs)" and "0 < a" and "a + extent (Free n # bs) < 2 ^ 32"
  shows "layout (merge_segments m (of_nat a) (seg_next m (of_nat a))) a (join (Free n) bs)"
proof -
  have u: "unat (of_nat a :: u32) = a" using assms(3) by (simp add: unat_of_nat32)
  have e: "(of_nat a :: u32) + 8 + of_nat n = of_nat (a + 8 + n)" by simp
  show ?thesis
  proof (cases "Free n" bs rule: join_cases)
    case (merge n' k cs)
    define m' where "m' = merge_segments m (of_nat a) (seg_next m (of_nat a))"
    let ?s = "of_nat a :: u32" and ?t = "of_nat (a + 8 + n) :: u32"
    have fr: "m' x = m x" if "a + 8 \<le> unat x" for x
      using that assms(3) by (simp add: m'_def merge_frame u)
    have t: "seg_next m ?s = ?t" "seg_size m ?s = of_nat n" "seg_size m ?t = of_nat k"
      "seg_next m ?t = next_free (a + 8 + n + 8 + k) cs" "layout m (a + 8 + n + 8 + k) cs"
      using assms(1) merge by auto
    then have m': "m' = set_next (set_size m ?s (of_nat n + 8 + of_nat k)) ?s
        (seg_next (set_size m ?s (of_nat n + 8 + of_nat k)) ?t)"
      by (simp add: m'_def merge_segments_def Let_def e del: of_nat_add)
    have ap: "apart ?s ?t"
      using assms(3) merge by (auto simp: apart_def u unat_of_nat32 simp del: of_nat_add)
    then have "unat ?s + 8 \<le> 2 ^ 32" by (auto simp: apart_def)
    then have "seg_size m' ?s = of_nat n + 8 + of_nat k"
      "seg_next m' ?s = next_free (a + 8 + n + 8 + k) cs"
      by (simp_all add: m' hdr_self hdr_same hdr_other [OF ap] t(4) del: of_nat_add)
    moreover have "layout m' (a + 8 + n + 8 + k) cs"
      using t(5) by (rule layout_frame) (use assms(3) merge fr in auto)
    ultimately show ?thesis using merge by (simp add: ac_simps flip: m'_def)
  next
    case keep
    have "next_free (a + 8 + n) bs \<noteq> of_nat (a + 8 + n)"
      using keep(2) assms(2,3) by (intro next_free_beyond) (auto split: list.splits)
    then show ?thesis
      using assms(1) by (simp add: merge_segments_def e keep del: of_nat_add)
  qed
qed

text \<open>
  Inserting the released block \<open>q\<close> behind the free segment \<open>a\<close> that precedes it: link it, then
  merge it with both neighbours.
\<close>

lemma insert_front:
  assumes lay: "layout m a (Free n # us @ Used k # rest)" and us: "all_used us"
    and pos: "0 < a" and bnd: "a + extent (Free n # us @ Used k # rest) < 2 ^ 32"
    and q: "q = a + 8 + n + extent us"
  shows "\<exists>m'. insert_segment_into_free_list m (of_nat q) (of_nat a) = Some (Inr m')
    \<and> layout m' a (join (Free n) (us @ join (Free k) rest))
    \<and> (\<forall>x. unat x < a \<or> a + 8 \<le> unat x \<and> unat x < q \<or> q + 8 \<le> unat x \<longrightarrow> m' x = m x)"
proof -
  let ?a = "of_nat a :: u32" and ?q = "of_nat q :: u32"
  define nx where "nx = next_free (q + 8 + k) rest"
  define m1 where "m1 = set_next m ?a ?q"
  define m2 where "m2 = set_next m1 ?q nx"
  define m3 where "m3 = merge_segments m2 ?q (seg_next m2 ?q)"
  define m4 where "m4 = merge_segments m3 ?a (seg_next m3 ?a)"
  have qb: "a + 8 \<le> q" "q + 8 + k + extent rest < 2 ^ 32" using bnd q by simp_all
  then have "a < 2 ^ 32" "q < 2 ^ 32" by simp_all
  then have u: "unat ?a = a" "unat ?q = q" by (simp_all only: unat_of_nat32)
  have ap: "apart ?a ?q" "apart ?q ?a" "unat ?a + 8 \<le> 2 ^ 32" "unat ?q + 8 \<le> 2 ^ 32"
    using qb by (auto simp: apart_def u)
  have parts: "seg_size m ?a = of_nat n" "seg_next m ?a = nx" "layout m (a + 8 + n) us"
    "seg_size m ?q = of_nat k" "layout m (q + 8 + k) rest"
    using lay us by (simp_all add: layout_used q nx_def ac_simps)
  have f2: "m2 x = m x" if "unat x < a \<or> a + 8 \<le> unat x \<and> unat x < q \<or> q + 8 \<le> unat x" for x
    using that ap qb by (auto simp: m2_def m1_def hdr_bytes u)
  have f3: "m3 x = m2 x" if "unat x < q \<or> q + 8 \<le> unat x" for x
    using that ap by (simp add: m3_def merge_frame u)
  have f4: "m4 x = m3 x" if "unat x < a \<or> a + 8 \<le> unat x" for x
    using that ap by (simp add: m4_def merge_frame u)
  have hq: "seg_size m2 ?q = of_nat k" "seg_next m2 ?q = nx"
    "seg_size m2 ?a = of_nat n" "seg_next m2 ?a = ?q"
    by (simp_all add: m2_def m1_def hdr_other [OF ap(1)] hdr_other [OF ap(2)]
        hdr_self [OF ap(3)] hdr_self [OF ap(4)] hdr_same parts)
  have "layout m2 (q + 8 + k) rest"
    using parts(5) by (rule layout_frame) (use qb f2 in auto)
  then have "layout m2 q (Free k # rest)"
    using hq by (simp add: nx_def)
  then have m3: "layout m3 q (join (Free k) rest)"
    unfolding m3_def by (rule merge_sim) (use qb in auto)
  have nj: "next_free q (join (Free k) rest) = ?q"
    by (cases "(Free k, rest)" rule: join.cases) auto
  have n3: "seg_size m3 ?a = of_nat n" "seg_next m3 ?a = ?q"
    using hq(3,4) qb f3 ap(3) hdr_cong [of ?a m3 m2] by (auto simp: u)
  have "layout m3 (a + 8 + n) us"
    using parts(3) by (rule layout_frame) (use bnd q f2 f3 in auto)
  with n3 have "layout m3 a (Free n # us @ join (Free k) rest)"
    using m3 us nj by (simp add: layout_used q ac_simps)
  then have "layout m4 a (join (Free n) (us @ join (Free k) rest))"
    unfolding m4_def by (rule merge_sim) (use bnd pos in auto)
  moreover have "insert_segment_into_free_list m ?q ?a = Some (Inr m4)"
  proof -
    have "?a \<noteq> 0" using pos bnd of_nat_eq_iff32 [of a 0] by simp
    moreover have "nx > ?q \<or> nx = 0"
      using next_free_range [of "q + 8 + k" rest] qb of_nat_less_iff32 [of q]
      by (auto simp: nx_def)
    moreover have "m4 = merge_segments m3 ?a ?q" by (simp only: m4_def n3(2))
    moreover have "m3 = merge_segments m2 ?q nx" by (simp only: m3_def hq(2))
    ultimately show ?thesis
      by (subst insert_segment_into_free_list.simps)
        (simp add: parts(2) Let_def hq(2) flip: m1_def m2_def)
  qed
  ultimately show ?thesis using f2 f3 f4 q by (intro exI [of _ m4]) auto
qed

lemma split_used:
  obtains us ys where "bs = us @ ys" "all_used us" "ys = [] \<or> is_free (hd ys)"
proof
  show "bs = takeWhile (\<lambda>b. \<not> is_free b) bs @ dropWhile (\<lambda>b. \<not> is_free b) bs" by simp
  show "all_used (takeWhile (\<lambda>b. \<not> is_free b) bs)"
    by (auto simp: list_all_iff dest: set_takeWhileD)
  show "dropWhile (\<lambda>b. \<not> is_free b) bs = [] \<or> is_free (hd (dropWhile (\<lambda>b. \<not> is_free b) bs))"
    using hd_dropWhile [of "\<lambda>b. \<not> is_free b" bs] by blast
qed

lemma live_append: "live a (xs @ ys) = live a xs @ live (a + extent xs) ys"
  by (induction a xs rule: live.induct) (auto simp: ac_simps)

lemma release_append:
  "release p a (xs @ ys) =
     (if p \<in> fst ` set (live a xs) then release p a xs @ ys
      else xs @ release p (a + extent xs) ys)"
proof (induction p a xs rule: release.induct)
  case (2 p a n bs)
  show ?case using 2 by (auto simp: ac_simps)
qed (auto simp: ac_simps)

lemma live_split:
  assumes "p \<in> fst ` set (live a bs)"
  obtains xs k ys where "bs = xs @ Used k # ys" "p = a + extent xs + 8"
    "release p a bs = xs @ Free k # ys"
proof -
  have "\<exists>xs k ys. bs = xs @ Used k # ys \<and> p = a + extent xs + 8 \<and> release p a bs = xs @ Free k # ys"
    using assms
  proof (induction p a bs rule: release.induct)
    case (2 p a n bs)
    show ?case
    proof (cases "a + 8 = p")
      case True
      then show ?thesis by (intro exI [of _ "[]"]) auto
    next
      case False
      with 2 obtain xs k ys where "bs = xs @ Used k # ys" "p = a + 8 + n + extent xs + 8"
        "release p (a + 8 + n) bs = xs @ Free k # ys" by auto
      with False show ?thesis by (intro exI [of _ "Used n # xs"]) auto
    qed
  next
    case (3 p a n bs)
    then obtain xs k ys where "bs = xs @ Used k # ys" "p = a + 8 + n + extent xs + 8"
        "release p (a + 8 + n) bs = xs @ Free k # ys" by auto
    then show ?case by (intro exI [of _ "Free n # xs"]) auto
  qed simp
  with that show thesis by blast
qed

lemma next_free_coalesce:
  "bs \<noteq> [] \<Longrightarrow> is_free (hd bs) \<Longrightarrow> next_free a (coalesce bs) = of_nat a"
proof (cases bs)
  case (Cons b cs)
  moreover assume "is_free (hd bs)"
  ultimately obtain n where "bs = Free n # cs" by (cases b) auto
  then show ?thesis by (cases "(Free n, coalesce cs)" rule: join.cases) auto
qed simp

lemma coalesced_appendD: "coalesced (xs @ ys) \<Longrightarrow> coalesced ys"
  by (induction xs) (auto simp: coalesced_Cons_iff)

lemma in_live_append: "in_live a (xs @ ys) x \<longleftrightarrow> in_live a xs x \<or> in_live (a + extent xs) ys x"
  by (auto simp: in_live_def live_append)

lemma join_used: "us \<noteq> [] \<Longrightarrow> all_used us \<Longrightarrow> join b (us @ ys) = b # us @ ys"
  by (cases us; cases b; cases "hd us") auto

text \<open>The walk over the free list to the segment before the released block.\<close>

lemma insert_here:
  assumes lay: "layout m a (Free n # us @ ys)" and co: "coalesced (Free n # us @ ys)" and pos: "0 < a"
    and bnd: "a + extent (Free n # us @ ys) < 2 ^ 32" and us: "all_used us"
    and p: "p \<in> fst ` set (live (a + 8 + n) us)"
  shows "\<exists>m'. insert_segment_into_free_list m (of_nat (p - 8)) (of_nat a) = Some (Inr m')
    \<and> layout m' a (free_spec p a (Free n # us @ ys))
    \<and> untouched m m' a (release p a (Free n # us @ ys))"
proof -
  obtain us1 k us2 where us1: "us = us1 @ Used k # us2" "p = a + 8 + n + extent us1 + 8"
    "release p (a + 8 + n) us = us1 @ Free k # us2" using p by (rule live_split)
  have rel: "release p a (Free n # us @ ys) = Free n # us1 @ Free k # us2 @ ys"
    using p us1(3) by (simp add: release_append)
  have "coalesced (us2 @ ys)"
    using co coalesced_appendD [of "Free n # us1 @ [Used k]" "us2 @ ys"] us1(1) by simp
  then have spec: "free_spec p a (Free n # us @ ys) = join (Free n) (us1 @ join (Free k) (us2 @ ys))"
    using us us1(1) unfolding free_spec_def rel by (simp add: coalesce_id)
  have q: "p - 8 = a + 8 + n + extent us1" using us1(2) by simp
  have "layout m a (Free n # us1 @ Used k # us2 @ ys)" "all_used us1"
    "a + extent (Free n # us1 @ Used k # us2 @ ys) < 2 ^ 32"
    using lay us bnd us1(1) by simp_all
  then obtain m' where m': "insert_segment_into_free_list m (of_nat (p - 8)) (of_nat a) = Some (Inr m')"
    "layout m' a (free_spec p a (Free n # us @ ys))"
    "\<forall>x. unat x < a \<or> a + 8 \<le> unat x \<and> unat x < p - 8 \<or> p - 8 + 8 \<le> unat x \<longrightarrow> m' x = m x"
    using insert_front [OF _ _ pos _ q] unfolding spec by blast
  have "untouched m m' a (release p a (Free n # us @ ys))"
    unfolding untouched_def rel
  proof (intro allI impI)
    fix x :: u32
    assume "unat x < a \<or> a + extent (Free n # us1 @ Free k # us2 @ ys) \<le> unat x
      \<or> in_live a (Free n # us1 @ Free k # us2 @ ys) (unat x)"
    then show "m' x = m x"
      using m'(3) q by (auto simp: in_live_append dest!: in_live_bounds)
  qed
  with m' show ?thesis by blast
qed

lemma insert_sim:
  assumes "layout m a (Free n # bs)" and "coalesced (Free n # bs)" and "0 < a"
    and "a + extent (Free n # bs) < 2 ^ 32" and "p \<in> fst ` set (live a (Free n # bs))"
  shows "\<exists>m'. insert_segment_into_free_list m (of_nat (p - 8)) (of_nat a) = Some (Inr m')
    \<and> layout m' a (free_spec p a (Free n # bs))
    \<and> untouched m m' a (release p a (Free n # bs))"
  using assms
proof (induction "length bs" arbitrary: a n bs rule: less_induct)
  case less
  obtain us ys where bs: "bs = us @ ys" "all_used us" "ys = [] \<or> is_free (hd ys)"
    by (rule split_used)
  show ?case
  proof (cases "p \<in> fst ` set (live (a + 8 + n) us)")
    case True
    then show ?thesis
      using less.prems bs unfolding bs(1) by (intro insert_here) auto
  next
    case False
    define a' where "a' = a + 8 + n + extent us"
    have py: "p \<in> fst ` set (live a' ys)"
      using False less.prems(5) by (auto simp: bs(1) live_append a'_def)
    then obtain n' cs where ys: "ys = Free n' # cs"
      using bs(3) by (cases ys; cases "hd ys") auto
    have us: "us \<noteq> []" using less.prems(2) by (auto simp: bs(1) ys coalesced_Cons_iff)
    have b': "a + 8 \<le> a'" "a' + extent ys < 2 ^ 32" using less.prems(4) by (simp_all add: bs(1) a'_def)
    have lay: "seg_next m (of_nat a) = of_nat a'" "seg_size m (of_nat a) = of_nat n"
      "layout m (a + 8 + n) us" "layout m a' ys"
      using less.prems(1) bs(2) by (simp_all add: bs(1) layout_used ys a'_def ac_simps)
    have "length cs < length bs" using us by (simp add: bs(1) ys)
    moreover have "coalesced ys"
      using less.prems(2) coalesced_appendD [of "Free n # us" ys] by (simp add: bs(1))
    ultimately obtain m' where m': "insert_segment_into_free_list m (of_nat (p - 8)) (of_nat a') = Some (Inr m')"
      "layout m' a' (free_spec p a' ys)" "untouched m m' a' (release p a' ys)"
      using less.hyps [of cs a' n'] lay(4) b' py unfolding ys by auto
    have pa: "a' + 8 \<le> p" "p - 8 < 2 ^ 32" using py b'(2) by (auto dest: live_bounds)
    have "insert_segment_into_free_list m (of_nat (p - 8)) (of_nat a) = Some (Inr m')"
    proof -
      have "(of_nat a :: u32) \<noteq> 0" "(of_nat a' :: u32) \<noteq> 0"
        using b' less.prems(3) of_nat_eq_iff32 [of a 0] of_nat_eq_iff32 [of a' 0] by simp_all
      moreover have "\<not> of_nat a' > (of_nat (p - 8) :: u32)"
        using pa b'(2) of_nat_less_iff32 [of "p - 8" a'] by simp
      ultimately show ?thesis
        by (subst insert_segment_into_free_list.simps) (simp only: lay(1) m'(1) if_False simp_thms)
    qed
    moreover have fr: "m' x = m x" if "unat x < a'" for x
      using m'(3) that by (rule untouchedD [OF _ disjI1])
    have rel: "release p a (Free n # bs) = Free n # us @ release p a' ys"
      using False by (simp add: bs(1) release_append a'_def)
    have spec: "free_spec p a (Free n # bs) = Free n # us @ free_spec p a' ys"
      using bs(2) us unfolding free_spec_def rel by (simp add: join_used)
    have "layout m' a (free_spec p a (Free n # bs))"
    proof -
      have u: "unat (of_nat a :: u32) = a" using b' by (simp add: unat_of_nat32)
      have "seg_size m' (of_nat a) = of_nat n" "seg_next m' (of_nat a) = of_nat a'"
        using hdr_cong [of "of_nat a" m' m] fr b' lay(1,2) by (auto simp: u)
      moreover have "layout m' (a + 8 + n) us"
        using lay(3) by (rule layout_frame) (use b' fr in \<open>auto simp: a'_def\<close>)
      moreover have "next_free a' (free_spec p a' ys) = of_nat a'"
        unfolding free_spec_def by (rule next_free_coalesce) (simp_all add: ys)
      ultimately show ?thesis
        using bs(2) m'(2) by (simp add: spec layout_used a'_def ac_simps)
    qed
    moreover have "untouched m m' a (release p a (Free n # bs))"
      unfolding untouched_def rel
    proof (intro allI impI)
      fix x :: u32
      assume x: "unat x < a \<or> a + extent (Free n # us @ release p a' ys) \<le> unat x
        \<or> in_live a (Free n # us @ release p a' ys) (unat x)"
      have e: "a + extent (Free n # us @ zs) = a' + extent zs"
        "in_live a (Free n # us @ zs) y \<longleftrightarrow> in_live (a + 8 + n) us y \<or> in_live a' zs y" for zs y
        by (simp_all add: a'_def in_live_append ac_simps)
      have "unat x < a' \<or> a' + extent (release p a' ys) \<le> unat x \<or> in_live a' (release p a' ys) (unat x)"
        using x b'(1) unfolding e by (auto simp: a'_def dest: in_live_bounds)
      with m'(3) show "m' x = m x" by (rule untouchedD)
    qed
    ultimately show ?thesis by blast
  qed
qed

end
