(* ===== verification/Alloc_Iface.thy ===== *)
theory Alloc_Iface
  imports Memory
begin

text \<open>
  What the kernel's other parts rely on when they call \<open>malloc\<close> and \<open>free\<close>: a heap state
  \<open>'h\<close>, the payloads it has handed out (\<open>owned\<close>, as address and size) and its bytes.
  A request is admissible up to \<open>limit h\<close> bytes.
\<close>

abbreviation in_payload :: "nat \<Rightarrow> nat \<Rightarrow> u32 \<Rightarrow> bool" where
  "in_payload p n x \<equiv> p \<le> unat x \<and> unat x < p + n"

locale allocator =
  fixes alloc :: "'h \<Rightarrow> u32 \<Rightarrow> (kerror + (u32 \<times> 'h)) option"
    and dealloc :: "'h \<Rightarrow> u32 \<Rightarrow> (kerror + 'h) option"
    and valid :: "'h \<Rightarrow> bool"
    and limit :: "'h \<Rightarrow> nat"
    and owned :: "'h \<Rightarrow> (nat \<times> nat) list"
    and cells :: "'h \<Rightarrow> mem"
    and exhausted :: kerror
  assumes owned_sorted: "valid h \<Longrightarrow> sorted_wrt (\<lambda>(p, n) (q, k). p + n + 8 \<le> q) (owned h)"
    and alloc_result: "valid h \<Longrightarrow> unat sz \<le> limit h \<Longrightarrow>
      alloc h sz = Some (Inl exhausted) \<or> (\<exists>p h'. alloc h sz = Some (Inr (p, h')))"
    and alloc_valid: "valid h \<Longrightarrow> unat sz \<le> limit h \<Longrightarrow> alloc h sz = Some (Inr (p, h')) \<Longrightarrow>
      valid h' \<and> limit h' = limit h"
    and alloc_owned: "valid h \<Longrightarrow> unat sz \<le> limit h \<Longrightarrow> alloc h sz = Some (Inr (p, h')) \<Longrightarrow>
      \<exists>n xs ys. unat sz \<le> n \<and> owned h' = xs @ (unat p, n) # ys \<and> owned h = xs @ ys"
    and alloc_cells: "valid h \<Longrightarrow> unat sz \<le> limit h \<Longrightarrow> alloc h sz = Some (Inr (p, h')) \<Longrightarrow>
      (q, n) \<in> set (owned h) \<Longrightarrow> in_payload q n x \<Longrightarrow> cells h' x = cells h x"
    and dealloc_ok: "valid h \<Longrightarrow> unat p \<in> fst ` set (owned h) \<Longrightarrow>
      \<exists>h'. dealloc h p = Some (Inr h') \<and> valid h' \<and> limit h' = limit h
        \<and> owned h' = filter (\<lambda>(q, n). q \<noteq> unat p) (owned h)
        \<and> (\<forall>(q, n) \<in> set (owned h'). \<forall>x. in_payload q n x \<longrightarrow> cells h' x = cells h x)"
begin

lemma owned_apart:
  assumes "valid h" and "(p, n) \<in> set (owned h)" and "(q, k) \<in> set (owned h)" and "p \<noteq> q"
  shows "p + n \<le> q \<or> q + k \<le> p"
proof -
  obtain i j where ij: "i < length (owned h)" "owned h ! i = (p, n)"
    "j < length (owned h)" "owned h ! j = (q, k)"
    using assms(2,3) by (auto simp: in_set_conv_nth)
  with assms(4) have "i < j \<or> j < i" by (metis Pair_inject nat_neq_iff)
  then show ?thesis
    using owned_sorted [OF assms(1)] ij by (fastforce simp: sorted_wrt_iff_nth_less)
qed

lemma alloc_fresh:
  assumes "valid h" and "unat sz \<le> limit h" and "alloc h sz = Some (Inr (p, h'))"
    and "(q, k) \<in> set (owned h)"
  shows "unat p + unat sz \<le> q \<or> q + k \<le> unat p"
proof -
  obtain n xs ys where n: "unat sz \<le> n" "owned h' = xs @ (unat p, n) # ys" "owned h = xs @ ys"
    using alloc_owned [OF assms(1-3)] by blast
  have "valid h'" using alloc_valid [OF assms(1-3)] by simp
  moreover have "sorted_wrt (\<lambda>(p, n) (q, k). p + n + 8 \<le> q) (xs @ (unat p, n) # ys)"
    using owned_sorted [OF \<open>valid h'\<close>] n(2) by simp
  then have "unat p \<noteq> q" using assms(4) n(3) by (auto simp: sorted_wrt_append)
  ultimately show ?thesis
    using owned_apart [of h' "unat p" n q k] assms(4) n by fastforce
qed

text \<open>
  A block that is allocated, filled without changing what is owned, and released leaves the owned
  payloads as they were.
\<close>

lemma alloc_dealloc_owned:
  assumes "valid h" and "unat sz \<le> limit h" and "alloc h sz = Some (Inr (p, h'))"
    and "valid g" and "owned g = owned h'"
  shows "\<exists>h''. dealloc g p = Some (Inr h'') \<and> valid h'' \<and> owned h'' = owned h"
proof -
  obtain n xs ys where n: "owned h' = xs @ (unat p, n) # ys" "owned h = xs @ ys"
    using alloc_owned [OF assms(1-3)] by blast
  have v: "valid h'" using alloc_valid [OF assms(1-3)] by simp
  obtain h'' where h'': "dealloc g p = Some (Inr h'')" "valid h''"
    "owned h'' = filter (\<lambda>(q, n). q \<noteq> unat p) (owned h')"
    using dealloc_ok [OF assms(4), of p] n(1) assms(5) by auto
  have "q \<noteq> unat p" if "(q, k) \<in> set (xs @ ys)" for q k
    using owned_sorted [OF v] that unfolding n(1) by (auto simp: sorted_wrt_append)
  then have "filter (\<lambda>(q, n). q \<noteq> unat p) (xs @ ys) = xs @ ys"
    by (intro filter_True) auto
  with h'' n show ?thesis by auto
qed

end

end
