(* ===== verification/Heap.thy ===== *)
theory Heap
  imports Alloc_Free Alloc_Iface
begin

text \<open>
  The abstraction function from the memory to the list of blocks, the invariant \<open>heap_inv\<close> of the
  heap, the refinement lemmas \<open>malloc_refines\<close> and \<open>free_refines\<close> stated with it, and the interpretation of
  the allocator interface on \<open>malloc\<close> and \<open>free\<close>.
\<close>

subsection \<open>The abstraction function\<close>

function blocks_of :: "mem \<Rightarrow> nat \<Rightarrow> nat \<Rightarrow> u32 \<Rightarrow> block list" where
  "blocks_of m hi a fp =
     (if a < hi
      then let n = unat (seg_size m (of_nat a))
           in if fp = of_nat a then Free n # blocks_of m hi (a + 8 + n) (seg_next m fp)
              else Used n # blocks_of m hi (a + 8 + n) fp
      else [])"
  by pat_completeness auto
termination
  by (relation "measure (\<lambda>(m, hi, a, fp). hi - a)") auto

declare blocks_of.simps [simp del]

definition heap_blocks :: "nat \<Rightarrow> heap \<Rightarrow> block list" where
  "heap_blocks hi h = blocks_of (bytes h) hi (unat (freeSegment h)) (freeSegment h)"

definition heap_rel :: "nat \<Rightarrow> block list \<Rightarrow> heap \<Rightarrow> bool" where
  "heap_rel hi bs h \<longleftrightarrow>
     0 < unat (freeSegment h) \<and> unat (freeSegment h) + extent bs = hi \<and> hi < 2 ^ 32
     \<and> layout (bytes h) (unat (freeSegment h)) bs \<and> coalesced bs \<and> bs \<noteq> [] \<and> is_free (hd bs)"

definition heap_inv :: "nat \<Rightarrow> heap \<Rightarrow> bool" where
  "heap_inv hi h \<longleftrightarrow> heap_rel hi (heap_blocks hi h) h"

definition heap_live :: "nat \<Rightarrow> heap \<Rightarrow> (nat \<times> nat) list" where
  "heap_live hi h = live (unat (freeSegment h)) (heap_blocks hi h)"

lemma blocks_of_layout:
  "layout m a bs \<Longrightarrow> 0 < a \<Longrightarrow> a + extent bs < 2 ^ 32 \<Longrightarrow>
    blocks_of m (a + extent bs) a (next_free a bs) = bs"
proof (induction m a bs rule: layout.induct)
  case (1 m a)
  then show ?case by (simp add: blocks_of.simps)
next
  case (2 m a n bs)
  moreover have "unat (of_nat n :: u32) = n" using "2.prems"(3) by (simp add: unat_of_nat32)
  ultimately show ?case by (subst blocks_of.simps) (simp add: ac_simps)
next
  case (3 m a n bs)
  have n: "unat (of_nat n :: u32) = n" using "3.prems"(3) by (simp add: unat_of_nat32)
  have "next_free (a + 8 + n) bs \<noteq> of_nat a"
    using next_free_beyond [of "Used n # bs" a] "3.prems" by simp
  with 3 n show ?case by (subst blocks_of.simps) (simp add: ac_simps)
qed

lemma heap_rel_blocks: "heap_rel hi bs h \<Longrightarrow> heap_blocks hi h = bs"
  using blocks_of_layout [of "bytes h" "unat (freeSegment h)" bs]
  by (cases bs; cases "hd bs") (auto simp: heap_rel_def heap_blocks_def)

lemma heap_rel_inv: "heap_rel hi bs h \<Longrightarrow> heap_inv hi h"
  by (simp add: heap_inv_def heap_rel_blocks)

lemma heap_invE:
  assumes "heap_inv hi h"
  obtains n bs where "heap_blocks hi h = Free n # bs" "heap_rel hi (Free n # bs) h"
  using assms by (cases "heap_blocks hi h"; cases "hd (heap_blocks hi h)")
    (auto simp: heap_inv_def heap_rel_def)

subsection \<open>malloc and free on heaps\<close>

lemma malloc_refines:
  assumes "heap_inv hi h" and "unat sz \<le> unat (freeSegment h)"
  shows "case alloc_spec (unat sz) (unat (freeSegment h)) (heap_blocks hi h) of
      None \<Rightarrow> malloc h sz = Some (Inl (Panic ''Could not allocator memory!''))
    | Some (p, bs) \<Rightarrow> \<exists>h'. malloc h sz = Some (Inr (of_nat p, h')) \<and> heap_inv hi h'
        \<and> heap_blocks hi h' = bs \<and> freeSegment h' = freeSegment h
        \<and> untouched (bytes h) (bytes h') (unat (freeSegment h)) (heap_blocks hi h)"
proof -
  obtain n bs where bs: "heap_blocks hi h = Free n # bs" "heap_rel hi (Free n # bs) h"
    using assms(1) by (rule heap_invE)
  let ?a = "unat (freeSegment h)"
  have sim: "malloc_sim (bytes h) sz ?a (Free n # bs)"
    using bs(2) assms(2) by (intro malloc_loop_refines) (auto simp: heap_rel_def)
  show ?thesis
  proof (cases "alloc_spec (unat sz) ?a (Free n # bs)")
    case None
    then show ?thesis using sim by (simp add: bs(1) malloc_sim_def malloc_def)
  next
    case (Some r)
    obtain p cs where r: "r = (p, cs)" by (cases r)
    obtain m' where m': "malloc_loop (bytes h) sz (freeSegment h) = Some (Inr (of_nat p, m'))"
      "layout m' ?a cs" "untouched (bytes h) m' ?a (Free n # bs)"
      using sim Some by (auto simp: malloc_sim_def r)
    have "heap_rel hi cs (h\<lparr>bytes := m'\<rparr>)"
      using bs(2) m'(2) alloc_spec_extent [OF Some [unfolded r] assms(2)]
        alloc_spec_coalesced [OF Some [unfolded r]] alloc_spec_hd [OF Some [unfolded r]]
      by (auto simp: heap_rel_def)
    then show ?thesis
      using Some r m' by (auto simp: bs(1) malloc_def heap_rel_blocks heap_rel_inv)
  qed
qed

lemma layout_header:
  assumes "layout m a bs" and "p \<in> fst ` set (live a bs)" and "a + extent bs < 2 ^ 32"
    and "\<And>x. unat x < p - 8 \<or> p \<le> unat x \<Longrightarrow> m' x = m x"
    and "seg_size m' (of_nat (p - 8)) = seg_size m (of_nat (p - 8))"
  shows "layout m' a bs"
  using assms
proof (induction m a bs rule: layout.induct)
  case (2 m a n bs)
  have p: "a + 8 + n + 8 \<le> p" using "2.prems"(2) by (auto dest: live_bounds)
  have u: "unat (of_nat a :: u32) = a" using "2.prems"(3) by (simp add: unat_of_nat32)
  have "seg_size m' (of_nat a) = seg_size m (of_nat a)" "seg_next m' (of_nat a) = seg_next m (of_nat a)"
    using hdr_cong [of "of_nat a" m' m] "2.prems"(3,4) p by (auto simp: u)
  then show ?case using 2 by auto
next
  case (3 m a n bs)
  have u: "unat (of_nat a :: u32) = a" using "3.prems"(3) by (simp add: unat_of_nat32)
  show ?case
  proof (cases "p = a + 8")
    case True
    have "layout m (a + 8 + n) bs" using "3.prems"(1) by simp
    then have "layout m' (a + 8 + n) bs"
      by (rule layout_frame) (use "3.prems"(3,4) True in auto)
    then show ?thesis using "3.prems"(1,5) True by simp
  next
    case False
    then have p: "p \<in> fst ` set (live (a + 8 + n) bs)" using "3.prems"(2) by auto
    then have "a + 8 + n + 8 \<le> p" by (auto dest: live_bounds)
    then have "seg_size m' (of_nat a) = seg_size m (of_nat a)"
      using hdr_cong [of "of_nat a" m' m] "3.prems"(3,4) by (auto simp: u)
    then show ?thesis using 3 p by auto
  qed
qed simp

lemma in_live_release:
  assumes "in_live a (release p a bs) x" and "p \<in> fst ` set (live a bs)"
  shows "x < p - 8 \<or> p \<le> x"
proof -
  obtain q k where q: "(q, k) \<in> set (live a bs)" "q \<noteq> p" "q \<le> x + 8" "x < q + k"
    using assms(1) by (auto simp: in_live_def live_release)
  obtain n where "(p, n) \<in> set (live a bs)" using assms(2) by auto
  then show ?thesis using live_apart [OF _ q(1), of p n] q by auto
qed

lemma free_refines:
  assumes "heap_inv hi h" and "unat ptr \<in> fst ` set (heap_live hi h)"
  shows "\<exists>h'. free h ptr = Some (Inr h') \<and> heap_inv hi h'
    \<and> heap_blocks hi h' = free_spec (unat ptr) (unat (freeSegment h)) (heap_blocks hi h)
    \<and> freeSegment h' = freeSegment h
    \<and> untouched (bytes h) (bytes h') (unat (freeSegment h))
        (release (unat ptr) (unat (freeSegment h)) (heap_blocks hi h))"
proof -
  obtain n bs where bs: "heap_blocks hi h = Free n # bs" "heap_rel hi (Free n # bs) h"
    using assms(1) by (rule heap_invE)
  let ?a = "unat (freeSegment h)" and ?m = "bytes h" and ?p = "unat ptr"
  let ?bs = "Free n # bs"
  let ?q = "ptr - 8"
  define m1 where "m1 = set_next (set_size ?m ?q (seg_size ?m ?q)) ?q 0"
  have rel: "0 < ?a" "?a + extent ?bs < 2 ^ 32" "layout ?m ?a ?bs" "coalesced ?bs" "?a + extent ?bs = hi"
    using bs(2) by (auto simp: heap_rel_def)
  have live: "?p \<in> fst ` set (live ?a ?bs)" using assms(2) by (simp add: heap_live_def bs(1))
  then have p: "?a + 8 + n + 8 \<le> ?p" "?p \<le> ?a + extent ?bs" by (auto dest: live_bounds)
  have u: "unat ?q = ?p - 8" using p(1) by (simp add: unat_sub_le)
  have q: "of_nat (?p - 8) = ?q" using p(1) by (simp add: of_nat_diff)
  have b: "unat ?q + 8 \<le> 2 ^ 32" using u p rel(2) by simp
  have f1: "m1 x = ?m x" if "unat x < ?p - 8 \<or> ?p \<le> unat x" for x
    using that b p(1) by (auto simp: m1_def hdr_bytes u)
  have "layout m1 ?a ?bs"
    using rel(3) live rel(2) f1 by (rule layout_header) (simp_all add: q m1_def hdr_self [OF b] hdr_same)
  then obtain m' where m': "insert_segment_into_free_list m1 ?q (of_nat ?a) = Some (Inr m')"
    "layout m' ?a (free_spec ?p ?a ?bs)" "untouched m1 m' ?a (release ?p ?a ?bs)"
    using insert_sim [OF _ rel(4,1,2) live] unfolding q by blast
  have fh: "free h ptr = Some (Inr (h\<lparr>bytes := m'\<rparr>))"
    using m'(1) by (simp add: free_def Let_def flip: m1_def)
  have "heap_rel hi (free_spec ?p ?a ?bs) (h\<lparr>bytes := m'\<rparr>)"
    using rel m'(2) free_spec_hd [of ?bs ?p ?a] by (simp add: heap_rel_def)
  moreover have "untouched ?m m' ?a (release ?p ?a ?bs)"
    unfolding untouched_def
  proof (intro allI impI)
    fix x :: u32
    assume x: "unat x < ?a \<or> ?a + extent (release ?p ?a ?bs) \<le> unat x
      \<or> in_live ?a (release ?p ?a ?bs) (unat x)"
    then have "unat x < ?p - 8 \<or> ?p \<le> unat x"
      using p live in_live_release [of ?a ?p ?bs "unat x"] by (auto simp del: release.simps)
    then have "m1 x = ?m x" by (rule f1)
    moreover have "m' x = m1 x" using m'(3) x by (rule untouchedD)
    ultimately show "m' x = ?m x" by simp
  qed
  ultimately show ?thesis
    using fh by (auto simp: bs(1) heap_rel_blocks heap_rel_inv)
qed

subsection \<open>The heap provides the allocator interface\<close>

definition heap_limit :: "heap \<Rightarrow> nat" where
  "heap_limit h = unat (freeSegment h)"

definition out_of_memory :: kerror where
  "out_of_memory = Panic ''Could not allocator memory!''"

lemma malloc_SomeE:
  assumes "heap_inv hi h" and "unat sz \<le> heap_limit h" and "malloc h sz = Some (Inr (p, h'))"
  obtains "alloc_spec (unat sz) (unat (freeSegment h)) (heap_blocks hi h) = Some (unat p, heap_blocks hi h')"
    "heap_inv hi h'" "freeSegment h' = freeSegment h"
    "untouched (bytes h) (bytes h') (unat (freeSegment h)) (heap_blocks hi h)"
proof (cases "alloc_spec (unat sz) (unat (freeSegment h)) (heap_blocks hi h)")
  case None
  then show thesis
    using malloc_refines [OF assms(1), of sz] assms(2,3) by (simp add: heap_limit_def)
next
  case (Some r)
  obtain q bs where r: "r = (q, bs)" by (cases r)
  have q: "p = of_nat q" "heap_inv hi h'" "heap_blocks hi h' = bs" "freeSegment h' = freeSegment h"
    "untouched (bytes h) (bytes h') (unat (freeSegment h)) (heap_blocks hi h)"
    using malloc_refines [OF assms(1), of sz] assms(2,3) Some r by (auto simp: heap_limit_def)
  have sz: "unat sz \<le> unat (freeSegment h)" using assms(2) by (simp add: heap_limit_def)
  have "q < 2 ^ 32"
    using alloc_spec_live [OF Some [unfolded r] sz] live_bounds [of q _ "unat (freeSegment h)" bs]
      assms(1) alloc_spec_extent [OF Some [unfolded r] sz]
    by (fastforce simp: heap_inv_def heap_rel_def)
  then show thesis using that Some r q by (simp add: unat_of_nat32)
qed

lemma free_SomeE:
  assumes "heap_inv hi h" and "unat p \<in> fst ` set (heap_live hi h)"
  obtains h' where "free h p = Some (Inr h')" "heap_inv hi h'" "freeSegment h' = freeSegment h"
    "heap_blocks hi h' = free_spec (unat p) (unat (freeSegment h)) (heap_blocks hi h)"
    "untouched (bytes h) (bytes h') (unat (freeSegment h))
        (release (unat p) (unat (freeSegment h)) (heap_blocks hi h))"
  using free_refines [OF assms] by blast

lemma in_live_payload: "(p, n) \<in> set (live a bs) \<Longrightarrow> p \<le> x \<Longrightarrow> x < p + n \<Longrightarrow> in_live a bs x"
  unfolding in_live_def by (rule bexI [of _ "(p, n)"]) auto

interpretation kheap: allocator malloc free "heap_inv hi" heap_limit "heap_live hi" bytes out_of_memory
  for hi
proof unfold_locales
  show "sorted_wrt (\<lambda>(p, n) (q, k). p + n + 8 \<le> q) (heap_live hi h)" for h
    by (simp add: heap_live_def live_separated)
next
  fix h :: heap and sz :: u32
  assume "heap_inv hi h" "unat sz \<le> heap_limit h"
  then show "malloc h sz = Some (Inl out_of_memory) \<or> (\<exists>p h'. malloc h sz = Some (Inr (p, h')))"
    using malloc_refines [of hi h sz]
    by (fastforce simp: out_of_memory_def heap_limit_def split: option.splits)
next
  fix h h' :: heap and sz p :: u32
  assume a: "heap_inv hi h" "unat sz \<le> heap_limit h" "malloc h sz = Some (Inr (p, h'))"
  from a show "heap_inv hi h' \<and> heap_limit h' = heap_limit h"
    by (rule malloc_SomeE) (simp add: heap_limit_def)
  from a show "\<exists>n xs ys. unat sz \<le> n \<and> heap_live hi h' = xs @ (unat p, n) # ys
      \<and> heap_live hi h = xs @ ys"
  proof (rule malloc_SomeE)
    assume "alloc_spec (unat sz) (unat (freeSegment h)) (heap_blocks hi h)
      = Some (unat p, heap_blocks hi h')" "freeSegment h' = freeSegment h"
    then show ?thesis
      using alloc_spec_live a(2) unfolding heap_live_def heap_limit_def by fastforce
  qed
  fix q n and x :: u32
  assume "(q, n) \<in> set (heap_live hi h)" "in_payload q n x"
  then have "in_live (unat (freeSegment h)) (heap_blocks hi h) (unat x)"
    by (auto simp: heap_live_def intro: in_live_payload)
  moreover from a have "untouched (bytes h) (bytes h') (unat (freeSegment h)) (heap_blocks hi h)"
    by (rule malloc_SomeE)
  ultimately show "bytes h' x = bytes h x" by (auto intro: untouchedD)
next
  fix h :: heap and p :: u32
  assume a: "heap_inv hi h" "unat p \<in> fst ` set (heap_live hi h)"
  then obtain h' where h': "free h p = Some (Inr h')" "heap_inv hi h'" "freeSegment h' = freeSegment h"
    "heap_blocks hi h' = free_spec (unat p) (unat (freeSegment h)) (heap_blocks hi h)"
    "untouched (bytes h) (bytes h') (unat (freeSegment h))
        (release (unat p) (unat (freeSegment h)) (heap_blocks hi h))"
    by (rule free_SomeE)
  have l: "heap_live hi h' = live (unat (freeSegment h))
      (release (unat p) (unat (freeSegment h)) (heap_blocks hi h))"
    by (simp add: heap_live_def h'(3,4) free_spec_def)
  show "\<exists>h'. free h p = Some (Inr h') \<and> heap_inv hi h' \<and> heap_limit h' = heap_limit h
      \<and> heap_live hi h' = filter (\<lambda>(q, n). q \<noteq> unat p) (heap_live hi h)
      \<and> (\<forall>(q, n) \<in> set (heap_live hi h'). \<forall>x. in_payload q n x \<longrightarrow> bytes h' x = bytes h x)"
  proof (intro exI conjI)
    show "heap_live hi h' = filter (\<lambda>(q, n). q \<noteq> unat p) (heap_live hi h)"
      by (simp add: l live_release) (simp add: heap_live_def)
    show "\<forall>(q, n) \<in> set (heap_live hi h'). \<forall>x. in_payload q n x \<longrightarrow> bytes h' x = bytes h x"
      unfolding l by (auto intro: untouchedD [OF h'(5)] in_live_payload)
  qed (simp_all add: h' heap_limit_def)
qed

end
