(* ===== verification/Kernel_State.thy ===== *)
theory Kernel_State
  imports Log_Buffer Heap
begin

text \<open>
  The global variables of the kernel in one record: the log with the console, the tables of the
  processor, the interrupt handlers, the tick, the futures and the heap. The environment holds what
  the linker and the hardware decide: the devices, the uninitialised stack, and the addresses of
  the tables. Function pointers that the kernel stores are the names of the functions.
\<close>

datatype irq_func = Uart_irq | Process_rtc_interrupt
datatype ready_func = Fut_is_ready | Is_transmit_ready
datatype FutureType = SleepFuture | IOFuture

record Future =
  fut_type :: FutureType
  fut_context :: u32
  is_ready :: ready_func

record env =
  devs :: devices
  stack :: "u8 list"
  addr_gdt :: u32
  addr_interruptTable :: u32
  addr_INTERRUPT_MEM :: u32
  addr_generic_interrupt_handler :: u32

record kernel =
  k_log :: klog
  gdt :: "u64 list"
  gdtr :: "u16 \<times> u64"
  interruptTable :: "u64 list"
  interruptList :: "irq_func option list"
  INTERRUPT_MEM :: "u8 list list"
  idtr :: "u16 \<times> u32"
  tick :: u32
  timeFutures :: "Future list"
  lastIdx :: int
  SHOULD_POLL :: bool
  k_heap :: heap

definition k_trace :: "kernel \<Rightarrow> trace" where
  "k_trace k = trace (con (k_log k))"

definition upd_trace :: "(trace \<Rightarrow> trace) \<Rightarrow> kernel \<Rightarrow> kernel" where
  "upd_trace f k = k\<lparr>k_log := (k_log k)\<lparr>con := (con (k_log k))\<lparr>trace := f (k_trace k)\<rparr>\<rparr>\<rparr>"

definition k_outb :: "u16 \<Rightarrow> u8 \<Rightarrow> kernel \<Rightarrow> kernel" where
  "k_outb port v k = upd_trace (outb port v) k"

definition k_inb :: "env \<Rightarrow> u16 \<Rightarrow> kernel \<Rightarrow> u8 \<times> kernel" where
  "k_inb E port k = (let (v, tr) = inb (devs E) port (k_trace k) in (v, upd_trace (\<lambda>_. tr) k))"

definition on_log :: "(klog \<Rightarrow> klog effect) \<Rightarrow> kernel \<Rightarrow> kernel effect" where
  "on_log f k = bindE (f (k_log k)) (\<lambda>l. Some (Inr (k\<lparr>k_log := l\<rparr>)))"

definition k_LOG :: "env \<Rightarrow> string \<Rightarrow> u32 \<Rightarrow> string \<Rightarrow> vslot list \<Rightarrow> kernel \<Rightarrow> kernel effect" where
  "k_LOG E file line fmt args = on_log (LOG (devs E) (stack E) file line fmt args)"

definition k_panics :: "env \<Rightarrow> string \<Rightarrow> kernel \<Rightarrow> 'a effect" where
  "k_panics E msg k = panics (devs E) (stack E) msg (k_log k)"

definition k_assert :: "env \<Rightarrow> bool \<Rightarrow> string \<Rightarrow> kernel \<Rightarrow> kernel effect" where
  "k_assert E cond msg k = (if cond then Some (Inr k) else k_panics E msg k)"

definition k_printf :: "env \<Rightarrow> u8 list \<Rightarrow> vslot list \<Rightarrow> kernel \<Rightarrow> kernel effect" where
  "k_printf E fmt args = on_log (\<lambda>l. bindE (printf (devs E) (stack E) fmt args (con l))
     (\<lambda>(_, c). Some (Inr (l\<lparr>con := c\<rparr>))))"

definition k_cli :: "kernel \<Rightarrow> kernel" where
  "k_cli k = upd_trace disable_interrupts k"

definition k_sti :: "kernel \<Rightarrow> kernel" where
  "k_sti k = upd_trace enable_interrupts k"

text \<open>\<open>INTERRUPT_GUARDED\<close> around code that may fail.\<close>

definition guarded :: "(kernel \<Rightarrow> kernel effect) \<Rightarrow> kernel \<Rightarrow> kernel effect" where
  "guarded code k = bindE (code (k_cli k)) (\<lambda>k. Some (Inr (k_sti k)))"

text \<open>The two slots of a 64 bit argument.\<close>

definition va64 :: "u64 \<Rightarrow> vslot list" where
  "va64 v = [VWord (ucast v), VWord (ucast (drop_bit 32 v))]"

lemma k_trace_upd [simp]: "k_trace (upd_trace f k) = f (k_trace k)"
  by (simp add: k_trace_def upd_trace_def)

lemma upd_trace_same [simp]:
  "interruptList (upd_trace f k) = interruptList k" "interruptTable (upd_trace f k) = interruptTable k"
  "INTERRUPT_MEM (upd_trace f k) = INTERRUPT_MEM k" "tick (upd_trace f k) = tick k"
  "timeFutures (upd_trace f k) = timeFutures k" "lastIdx (upd_trace f k) = lastIdx k"
  "SHOULD_POLL (upd_trace f k) = SHOULD_POLL k" "k_heap (upd_trace f k) = k_heap k"
  "gdt (upd_trace f k) = gdt k" "gdtr (upd_trace f k) = gdtr k" "idtr (upd_trace f k) = idtr k"
  by (simp_all add: upd_trace_def)

lemma upd_trace_upd [simp]: "upd_trace f (upd_trace g k) = upd_trace (f \<circ> g) k"
  by (simp add: upd_trace_def k_trace_def)

text \<open>Changes of the history that send nothing over the serial port.\<close>

definition quiet :: "(trace \<Rightarrow> trace) \<Rightarrow> bool" where
  "quiet f \<longleftrightarrow> (\<forall>tr. written_to DATA_REG (f tr) = written_to DATA_REG tr)"

lemma quiet_comp: "quiet f \<Longrightarrow> quiet g \<Longrightarrow> quiet (f \<circ> g)"
  by (simp add: quiet_def)

lemma quiet_flags: "quiet disable_interrupts" "quiet enable_interrupts" "quiet ((#) Hlt)" "quiet ((#) (In8 p v))"
  "p \<noteq> DATA_REG \<Longrightarrow> quiet ((#) (Out8 p v))"
  by (simp_all add: quiet_def disable_interrupts_def enable_interrupts_def)

lemma k_inb_upd: "snd (k_inb E p k) = upd_trace ((#) (In8 p (dev8 (devs E) (k_trace k) p))) k"
  by (simp add: k_inb_def inb_def Let_def upd_trace_def)

lemmas k_io_defs = k_outb_def k_inb_def k_cli_def k_sti_def inb_def Let_def

subsection \<open>Logging keeps the rest of the state\<close>

definition env_ok :: "env \<Rightarrow> bool" where
  "env_ok E \<longleftrightarrow> length (stack E) = 1024 \<and> transmitter_empties (devs E)"

definition log_ok :: "kernel \<Rightarrow> bool" where
  "log_ok k \<longleftrightarrow> (\<exists>ls. log_rel ls (k_log k))"

definition logged :: "kernel \<Rightarrow> kernel \<Rightarrow> bool" where
  "logged k k' \<longleftrightarrow> k' = k\<lparr>k_log := k_log k'\<rparr> \<and> log_ok k'
     \<and> uart_only (k_trace k) (k_trace k')"

definition short_log :: "string \<Rightarrow> u32 \<Rightarrow> string \<Rightarrow> vslot list \<Rightarrow> bool" where
  "short_log file line fmt args \<longleftrightarrow> 0 \<notin> set (lit fmt) \<and> line \<noteq> 0x80000000
     \<and> length (prefix_text (lit ''INFO'') (lit file) line) < 100
     \<and> (case render (lit fmt) args of None \<Rightarrow> False | Some msg \<Rightarrow> 0 \<notin> set msg \<and> length msg \<le> 100)"

lemma k_LOG_spec:
  assumes "env_ok E" "log_ok k" "short_log file line fmt args"
  shows "\<exists>k'. k_LOG E file line fmt args k = Some (Inr k') \<and> logged k k'"
proof -
  obtain ls where rel: "log_rel ls (k_log k)" using assms(2) by (auto simp: log_ok_def)
  obtain msg where r: "render (lit fmt) args = Some msg" "0 \<notin> set msg" "length msg \<le> 100"
    using assms(3) by (auto simp: short_log_def split: option.splits)
  have env: "length (stack E) = 1024" "transmitter_empties (devs E)"
    using assms(1) by (auto simp: env_ok_def)
  from assms(3) write_to_buffer_cut [OF env rel _ r, of line "lit ''INFO''" "lit file"]
  obtain l ls' where "write_to_buffer (devs E) (stack E) (lit fmt) (lit ''INFO'') (lit file) line args (k_log k) =
      Some (Inr (0, l))" "log_rel ls' l" "prints (devs E) (printed_by_write ls) (con (k_log k)) (con l)"
    by (auto simp: short_log_def)
  then show ?thesis
    by (auto simp: k_LOG_def on_log_def LOG_def logged_def log_ok_def prints_def k_trace_def)
qed

text \<open>The same call with the line it appends.\<close>

lemma k_LOG_line:
  assumes "env_ok E" "log_rel ls (k_log k)" "short_log file line fmt args" "render (lit fmt) args = Some msg"
  shows "\<exists>l. k_LOG E file line fmt args k = Some (Inr (k\<lparr>k_log := l\<rparr>))
    \<and> log_rel (after_write ls (prefix_text (lit ''INFO'') (lit file) line @ take 99 msg)) l"
proof -
  have env: "length (stack E) = 1024" "transmitter_empties (devs E)" using assms(1) by (auto simp: env_ok_def)
  have s: "0 \<notin> set (lit fmt)" "0 \<notin> set msg" "length msg \<le> 100" "line \<noteq> 0x80000000"
      "length (prefix_text (lit ''INFO'') (lit file) line) < 100"
    using assms(3,4) by (simp_all add: short_log_def)
  from write_to_buffer_cut [OF env assms(2) s(1) assms(4) s(2,3,4,5)]
  show ?thesis by (auto simp: k_LOG_def on_log_def LOG_def)
qed

lemma k_LOG_bad_format:
  assumes "env_ok E" "log_ok k" "0 \<notin> set (lit fmt)" "render (lit fmt) args = None"
  shows "\<exists>e. k_LOG E file line fmt args k = Some (Inl e)"
proof -
  obtain ls where "log_rel ls (k_log k)" using assms(2) by (auto simp: log_ok_def)
  then obtain e where "write_to_buffer (devs E) (stack E) (lit fmt) (lit ''INFO'') (lit file) line args (k_log k) = Some (Inl e)"
    using write_to_buffer_bad_format assms by (fastforce simp: env_ok_def)
  then show ?thesis by (simp add: k_LOG_def on_log_def LOG_def)
qed

lemma logged_refl: "log_ok k \<Longrightarrow> logged k k"
  by (simp add: logged_def)

lemma logged_trans:
  assumes "logged a b" "logged b c"
  shows "logged a c"
proof -
  have "c = a\<lparr>k_log := k_log c\<rparr>"
    using assms unfolding logged_def by (metis (no_types, lifting) kernel.surjective kernel.update_convs(1))
  then show ?thesis using assms uart_only_trans unfolding logged_def by blast
qed

lemma logged_flag: "logged k k' \<Longrightarrow> interrupt_flag b (k_trace k') = interrupt_flag b (k_trace k)"
  by (simp add: logged_def uart_only_flag)

lemma log_ok_upd_trace [simp]: "log_ok (upd_trace f k) = log_ok k"
  by (simp add: log_ok_def log_rel_def upd_trace_def)

lemma log_ok_fields [simp]:
  "log_ok (k\<lparr>idtr := i\<rparr>) = log_ok k" "log_ok (k\<lparr>gdtr := g\<rparr>) = log_ok k" "log_ok (k\<lparr>gdt := ds\<rparr>) = log_ok k"
  "log_ok (k\<lparr>interruptTable := T\<rparr>) = log_ok k" "log_ok (k\<lparr>INTERRUPT_MEM := M\<rparr>) = log_ok k"
  "log_ok (k\<lparr>interruptList := fs\<rparr>) = log_ok k" "log_ok (k\<lparr>tick := t\<rparr>) = log_ok k"
  "log_ok (k\<lparr>timeFutures := F\<rparr>) = log_ok k" "log_ok (k\<lparr>lastIdx := n\<rparr>) = log_ok k"
  "log_ok (k\<lparr>SHOULD_POLL := s\<rparr>) = log_ok k" "log_ok (k\<lparr>k_heap := h\<rparr>) = log_ok k"
  by (simp_all add: log_ok_def)

subsection \<open>The state at boot\<close>

text \<open>Zeroed globals, and an environment for concrete runs.\<close>

definition boot_kernel :: kernel where
  "boot_kernel = \<lparr>k_log = initial_log, gdt = replicate 3 0, gdtr = (0, 0), interruptTable = replicate 256 0,
     interruptList = replicate 256 None, INTERRUPT_MEM = replicate 256 (replicate 21 0), idtr = (0, 0),
     tick = 0, timeFutures = replicate 10 \<lparr>fut_type = SleepFuture, fut_context = 0, is_ready = Fut_is_ready\<rparr>,
     lastIdx = 0, SHOULD_POLL = False, k_heap = \<lparr>bytes = (\<lambda>_. 0), freeSegment = 0\<rparr>\<rparr>"

definition test_env :: env where
  "test_env = \<lparr>devs = uart_device 0, stack = replicate 1024 0, addr_gdt = 0x110000, addr_interruptTable = 0x111000,
     addr_INTERRUPT_MEM = 0x112000, addr_generic_interrupt_handler = 0x10161E\<rparr>"

lemma test_env_ok: "env_ok test_env"
  by (simp add: env_ok_def test_env_def uart_device_empties)

lemma boot_log_ok: "log_ok boot_kernel"
  using initial_log_rel by (auto simp: log_ok_def boot_kernel_def)

lemma k_panics_spec:
  assumes "env_ok E" "log_ok k" "length (c_content (lit msg)) \<le> 900"
  shows "k_panics E msg k = Some (Inl (Panic msg))"
proof -
  obtain ls where rel: "log_rel ls (k_log k)" using assms(2) by (auto simp: log_ok_def)
  obtain st' where "panic (devs E) (stack E) (lit msg) (k_log k) = Some (Inr st')"
    using panic_spec [OF _ _ rel assms(3), of "stack E" "devs E" True] assms(1) by (auto simp: env_ok_def)
  then show ?thesis by (simp add: k_panics_def panics_def)
qed

lemma k_printf_spec:
  assumes "env_ok E" "log_ok k" "0 \<notin> set fmt" "render fmt args = Some bs" "length bs < 1024"
  shows "\<exists>k'. k_printf E fmt args k = Some (Inr k') \<and> logged k k'
    \<and> written_to DATA_REG (k_trace k') = written_to DATA_REG (k_trace k) @ bs"
proof -
  obtain ls where rel: "log_rel ls (k_log k)" using assms(2) by (auto simp: log_ok_def)
  obtain c where c: "printf (devs E) (stack E) fmt args (con (k_log k)) = Some (Inr (of_nat (length bs), c))"
      "prints (devs E) bs (con (k_log k)) c"
    using printf_spec(1) [OF assms(3) _ _ assms(4) _ assms(5)] assms(1,5) by (force simp: env_ok_def)
  have "log_rel ls ((k_log k)\<lparr>con := c\<rparr>)" using rel by (simp add: log_rel_def)
  then show ?thesis
    using c by (auto simp: k_printf_def on_log_def logged_def log_ok_def prints_def k_trace_def)
qed

end
