(* ===== verification/Gdt_Load.thy ===== *)
theory Gdt_Load
  imports Gdt Kernel_State
begin

text \<open>
  Loading the segment table (kernel/kernel/gdt.c): \<open>fill_gdt_vals\<close>, \<open>init_gdt\<close> and the logging
  \<open>read_gdt\<close>. The segment registers that \<open>init_gdt\<close> reloads have no part in the model; the register
  \<open>gdtr\<close> has. The uninitialised access bytes are the argument \<open>junk\<close>. A read behind the end of
  the table, or through a table address that is not the one of \<open>gdt\<close>, is undefined.
\<close>

unbundle bit_operations_syntax

definition fill_gdt_vals :: "env \<Rightarrow> AccessByte \<Rightarrow> AccessByte \<Rightarrow> kernel \<Rightarrow> kernel effect" where
  "fill_gdt_vals E code_junk data_junk k =
     bindE (liftE (code_segment code_junk)) (\<lambda>code.
     bindE (liftE (data_segment data_junk)) (\<lambda>data.
     let null_segment = 0; k = k\<lparr>gdt := gdt_values\<rparr> in
     bindE (k_assert E (code \<noteq> 0) ''code_Segment is zero!'' k) (\<lambda>k.
     k_LOG E ''kernel/gdt.c'' 170 ''Loading null: 0x%llx - code: 0x%llx - data: 0x%llx''
       (va64 null_segment @ va64 code @ va64 data) k)))"

definition init_gdt :: "env \<Rightarrow> AccessByte \<Rightarrow> AccessByte \<Rightarrow> kernel \<Rightarrow> kernel effect" where
  "init_gdt E code_junk data_junk k =
     bindE (fill_gdt_vals E code_junk data_junk k) (\<lambda>k.
     let gdtr_limit = 3 * 8 - 1; gdtr_base = scast (addr_gdt E) in
     Some (Inr ((k_cli k)\<lparr>gdtr := (gdtr_limit, gdtr_base)\<rparr>)))"

definition gdt_entry :: "env \<Rightarrow> nat \<Rightarrow> kernel \<Rightarrow> kerror + u64" where
  "gdt_entry E i k = (if snd (gdtr k) = scast (addr_gdt E) \<and> i < length (gdt k) then Inr (gdt k ! i)
     else Inl (Undefined ''gdt: index out of bounds''))"

fun log_entries :: "env \<Rightarrow> nat \<Rightarrow> nat \<Rightarrow> kernel \<Rightarrow> kernel effect" where
  "log_entries E i 0 k = Some (Inr k)"
| "log_entries E i (Suc n) k =
     bindE (liftE (gdt_entry E i k)) (\<lambda>v.
     bindE (k_LOG E ''kernel/gdt.c'' 206 ''i: %d. val: 0x%llx'' (VWord (of_nat i) # va64 v) k)
       (log_entries E (i + 1) n))"

definition read_gdt :: "env \<Rightarrow> kernel \<Rightarrow> kernel effect" where
  "read_gdt E k =
     bindE (k_LOG E ''kernel/gdt.c'' 199 ''read_gdt BEGIN'' [] k) (\<lambda>k.
     let (limit, base) = gdtr k in
     bindE (k_LOG E ''kernel/gdt.c'' 204 ''GDT Limit: 0x%llx'' [VWord (ucast limit)] k) (\<lambda>k.
       log_entries E 0 (unat (limit div 8) + 1) k))"

subsection \<open>Loading the table\<close>

lemma segments_built: "code_segment junk = Inr 0x001F99000000FFFF" "data_segment junk = Inr 0x001F93000000FFFF"
proof -
  have "create_descriptor 0 0xFFFFFFFF (segment_flags 0x99) = 0x001F99000000FFFF"
    "create_descriptor 0 0xFFFFFFFF (segment_flags 0x93) = 0x001F93000000FFFF"
    by (simp_all add: create_descriptor_def segment_flags_def)
  then show "code_segment junk = Inr 0x001F99000000FFFF" "data_segment junk = Inr 0x001F93000000FFFF"
    by (simp_all add: code_segment_def data_segment_def set_access_byte_def set_p_def set_dpl_def set_s_def
        set_e_def set_dc_def set_rw_def set_a_def get_binary_from_access_byte_def)
qed

lemma gdt_texts:
  "short_log ''kernel/gdt.c'' 170 ''Loading null: 0x%llx - code: 0x%llx - data: 0x%llx''
     (va64 0 @ va64 0x001F99000000FFFF @ va64 0x001F93000000FFFF)"
  "short_log ''kernel/gdt.c'' 199 ''read_gdt BEGIN'' []"
  "render (lit ''GDT Limit: 0x%llx'') [VWord v] = None"
  "0 \<notin> set (lit ''GDT Limit: 0x%llx'')"
  by code_simp+

lemma init_gdt_spec:
  assumes "env_ok E" "log_ok k"
  shows "\<exists>k'. init_gdt E j1 j2 k = Some (Inr k') \<and> gdt k' = gdt_values \<and> gdtr k' = (23, scast (addr_gdt E))
    \<and> log_ok k' \<and> k' = k\<lparr>gdt := gdt k', gdtr := gdtr k', k_log := k_log k'\<rparr> \<and> \<not> interrupt_flag b (k_trace k')"
proof -
  obtain k1 where k1: "k_LOG E ''kernel/gdt.c'' 170 ''Loading null: 0x%llx - code: 0x%llx - data: 0x%llx''
      (va64 0 @ va64 0x001F99000000FFFF @ va64 0x001F93000000FFFF) (k\<lparr>gdt := gdt_values\<rparr>) = Some (Inr k1)"
      "logged (k\<lparr>gdt := gdt_values\<rparr>) k1"
    using k_LOG_spec [OF assms(1) _ gdt_texts(1), of "k\<lparr>gdt := gdt_values\<rparr>"] assms(2) by auto
  have "init_gdt E j1 j2 k = Some (Inr ((k_cli k1)\<lparr>gdtr := (23, scast (addr_gdt E))\<rparr>))"
    using k1(1) by (simp add: init_gdt_def fill_gdt_vals_def liftE_def segments_built k_assert_def Let_def)
  moreover have "k1 = k\<lparr>gdt := gdt_values, k_log := k_log k1\<rparr>" "log_ok k1" using k1(2) by (simp_all add: logged_def)
  moreover have "(k_cli k1)\<lparr>gdtr := g\<rparr> = k\<lparr>gdt := gdt_values, gdtr := g, k_log := k_log (k_cli k1)\<rparr>" for g
    by (subst \<open>k1 = _\<close>) (simp add: k_cli_def upd_trace_def k_trace_def)
  ultimately show ?thesis
    by (intro exI [of _ "(k_cli k1)\<lparr>gdtr := (23, scast (addr_gdt E))\<rparr>"])
      (auto simp: k_cli_def k_trace_def upd_trace_def disable_interrupts_def log_ok_def log_rel_def)
qed

lemma read_gdt_spec:
  assumes "env_ok E" "log_ok k"
  shows "\<exists>e. read_gdt E k = Some (Inl e)"
proof -
  obtain k1 where k1: "k_LOG E ''kernel/gdt.c'' 199 ''read_gdt BEGIN'' [] k = Some (Inr k1)" "logged k k1"
    using k_LOG_spec [OF assms gdt_texts(2)] by blast
  have "log_ok k1" using k1(2) by (simp add: logged_def)
  from k_LOG_bad_format [OF assms(1) this gdt_texts(4,3)] obtain e where
    "k_LOG E ''kernel/gdt.c'' 204 ''GDT Limit: 0x%llx'' [VWord (ucast (fst (gdtr k1)))] k1 = Some (Inl e)" by blast
  then show ?thesis using k1(1) by (simp add: read_gdt_def case_prod_unfold)
qed

text \<open>
  C39. \<open>init_gdt\<close> returns with the three descriptors stored and the register loaded with their address
  and the limit 23, and with interrupts disabled; nothing but the log changes besides. The
  \<open>read_gdt\<close> that \<open>kernel_main\<close> calls next is undefined on every state: it passes a 16 bit limit to
  a conversion that fetches 64 bits.
\<close>

theorem init_gdt_loads_read_gdt_undefined:
  assumes "env_ok E" "log_ok k"
  shows "\<exists>k' e. init_gdt E j1 j2 k = Some (Inr k') \<and> gdt k' = [0, 0x00CF9A000000FFFF, 0x00CF92000000FFFF]
    \<and> gdtr k' = (23, scast (addr_gdt E)) \<and> k' = k\<lparr>gdt := gdt k', gdtr := gdtr k', k_log := k_log k'\<rparr>
    \<and> \<not> interrupt_flag b (k_trace k') \<and> read_gdt E k' = Some (Inl e)"
proof -
  obtain k' where k': "init_gdt E j1 j2 k = Some (Inr k')" "gdt k' = gdt_values" "gdtr k' = (23, scast (addr_gdt E))"
    "log_ok k'" "k' = k\<lparr>gdt := gdt k', gdtr := gdtr k', k_log := k_log k'\<rparr>" "\<not> interrupt_flag b (k_trace k')"
    using init_gdt_spec [OF assms] by blast
  obtain e where "read_gdt E k' = Some (Inl e)" using read_gdt_spec [OF assms(1) k'(4)] by blast
  then show ?thesis using k' by (intro exI [of _ k'] exI [of _ e]) (simp add: gdt_values_def)
qed

definition zero_access :: AccessByte where
  "zero_access = \<lparr>ab_p = 0, ab_dpl = 0, ab_s = 0, ab_e = 0, ab_dc = 0, ab_rw = 0, ab_a = 0\<rparr>"

theorem init_gdt_loads_read_gdt_undefined_witness:
  "\<exists>k' e. init_gdt test_env zero_access zero_access boot_kernel = Some (Inr k')
    \<and> gdtr k' = (23, 0x110000) \<and> read_gdt test_env k' = Some (Inl e)"
proof -
  have a: "scast (addr_gdt test_env) = (0x110000 :: u64)" by (simp add: test_env_def)
  show ?thesis
    using init_gdt_loads_read_gdt_undefined [OF test_env_ok boot_log_ok, of zero_access zero_access]
    unfolding a by blast
qed

end
