(* ===== verification/Interrupts.thy ===== *)
theory Interrupts
  imports Kernel_State
begin

text \<open>
  kernel/kernel/interrupts.c: the interrupt controllers, gate descriptors, the generated stubs,
  and the dispatch of an interrupt. What a registered function does is the parameter \<open>run\<close> of
  \<open>generic_interrupt_handler\<close>, instantiated by the component of the function. A failed
  \<open>assert\<close> in the pure part is \<open>Inl (Panic ...)\<close>.
\<close>

unbundle bit_operations_syntax

definition PIC_1_OFFSET :: u32 where "PIC_1_OFFSET = 0x20"
definition PIC_2_OFFSET :: u32 where "PIC_2_OFFSET = 0x28"
definition PIC1_COMMAND :: u16 where "PIC1_COMMAND = 0x20"
definition PIC1_DATA :: u16 where "PIC1_DATA = 0x21"
definition PIC2_COMMAND :: u16 where "PIC2_COMMAND = 0xA0"
definition PIC2_DATA :: u16 where "PIC2_DATA = 0xA1"

subsection \<open>The interrupt controllers\<close>

definition PIC_remap :: "u8 \<Rightarrow> u8 \<Rightarrow> kernel \<Rightarrow> kernel" where
  "PIC_remap offset1 offset2 k =
     (let k = k_outb PIC1_COMMAND (0x10 OR 0x01) k;
          k = k_outb PIC2_COMMAND (0x10 OR 0x01) k;
          k = k_outb PIC1_DATA offset1 k;
          k = k_outb PIC2_DATA offset2 k;
          k = k_outb PIC1_DATA 4 k;
          k = k_outb PIC2_DATA 2 k;
          k = k_outb PIC1_DATA 0x01 k;
          k = k_outb PIC2_DATA 0x01 k;
          k = k_outb PIC1_DATA 0xFF k
      in k_outb PIC2_DATA 0xFF k)"

definition PIC_sendEOI :: "u8 \<Rightarrow> kernel \<Rightarrow> kernel" where
  "PIC_sendEOI irq k =
     (let k = (if 8 \<le> irq then k_outb PIC2_COMMAND 0x20 k else k) in k_outb PIC1_COMMAND 0x20 k)"

definition PIC_remove_offset :: "u32 \<Rightarrow> kerror + u8" where
  "PIC_remove_offset offset =
     (if PIC_2_OFFSET \<le> offset then Inr (ucast (offset - PIC_2_OFFSET + 8))
      else if PIC_1_OFFSET \<le> offset then Inr (ucast (offset - PIC_1_OFFSET))
      else Inl (Panic ''Hardware interrupt, panic!''))"

subsection \<open>Gate descriptors\<close>

record GateDescriptorNewArgs =
  ga_offset :: u32
  ga_p :: bool
  ga_dpl :: u8
  ga_gate :: u8
  ga_segment_selector :: u16

text \<open>
  \<open>segment_selector << 16\<close> is an \<open>int\<close>: widening it to 64 bits extends its sign.
\<close>

definition generate_gd_entry :: "GateDescriptorNewArgs \<Rightarrow> kerror + u64" where
  "generate_gd_entry arg =
     (if \<not> ga_dpl arg \<le> push_bit 2 1 then Inl (Panic ''arg.dpl should be <= 2 bits'')
      else if \<not> ga_gate arg \<le> push_bit 4 1 then Inl (Panic ''arg.gate should be <= 4 bits'')
      else Inr (ucast (ga_offset arg AND 0xFFFF)
        OR scast (push_bit 16 (ucast (ga_segment_selector arg)) :: u32)
        OR push_bit 40 (ucast (ga_gate arg))
        OR push_bit 45 (ucast (ga_dpl arg))
        OR push_bit 47 (of_bool (ga_p arg))
        OR push_bit 48 (drop_bit 16 (ucast (ga_offset arg)) AND 0xFFFF)))"

definition GateDescriptor_create :: "GateDescriptorNewArgs \<Rightarrow> kerror + u64" where
  "GateDescriptor_create arg = generate_gd_entry arg"

subsection \<open>Interrupt stubs\<close>

definition TEMPLATE :: "u8 list" where
  "TEMPLATE = [0x55, 0x89, 0xe5, 0x60, 0x6a, 0x7a, 0xb8, 0x1e, 0x16, 0x10, 0x00,
     0xff, 0xd0, 0x83, 0xc4, 0x04, 0x61, 0x89, 0xec, 0x5d, 0xcf]"

definition interrupt_stub :: "u32 \<Rightarrow> int \<Rightarrow> u8 list" where
  "interrupt_stub func_addr num =
     (let NUM_IDX = 5; FUNCTION_ADDR_BASE = 7 in
      TEMPLATE[NUM_IDX := word_of_int num,
        FUNCTION_ADDR_BASE := ucast (func_addr AND 0xFF),
        FUNCTION_ADDR_BASE + 1 := ucast (drop_bit 8 func_addr AND 0xFF),
        FUNCTION_ADDR_BASE + 2 := ucast (drop_bit 16 func_addr AND 0xFF),
        FUNCTION_ADDR_BASE + 3 := ucast (drop_bit 24 func_addr AND 0xFF)])"

definition generate_interrupt_stub :: "env \<Rightarrow> int \<Rightarrow> kernel \<Rightarrow> kernel effect" where
  "generate_interrupt_stub E num k =
     (if 0 \<le> num \<and> num < 256
      then Some (Inr (k\<lparr>INTERRUPT_MEM := (INTERRUPT_MEM k)
             [nat num := interrupt_stub (addr_generic_interrupt_handler E) num]\<rparr>))
      else Some (Inl (Undefined ''INTERRUPT_MEM: index out of bounds'')))"

subsection \<open>Dispatch\<close>

definition generic_interrupt_handler ::
  "env \<Rightarrow> (irq_func \<Rightarrow> kernel \<Rightarrow> kernel effect) \<Rightarrow> int \<Rightarrow> kernel \<Rightarrow> kernel effect" where
  "generic_interrupt_handler E run num k =
     (if \<not> (0 \<le> num \<and> num < 256) then Some (Inl (Undefined ''interruptList: index out of bounds''))
      else
        bindE (case interruptList k ! nat num of
            Some f \<Rightarrow> run f k
          | None \<Rightarrow> k_printf E (lit ''unhandled Inside interrupt handler %d'' @ [10]) [VWord (word_of_int num)] k)
        (\<lambda>k. case PIC_remove_offset (word_of_int num) of
            Inl e \<Rightarrow> k_panics E ''Hardware interrupt, panic!'' k
          | Inr irq \<Rightarrow> Some (Inr (PIC_sendEOI irq k))))"

subsection \<open>Registering a handler\<close>

definition clear_mask_bit :: "u8 \<Rightarrow> u8 \<Rightarrow> u8" where
  "clear_mask_bit m b = m AND NOT (push_bit (unat b) 1)"

definition register_interrupt :: "env \<Rightarrow> u32 \<Rightarrow> irq_func \<Rightarrow> kernel \<Rightarrow> kernel effect" where
  "register_interrupt E interrupt_num interrupt_func k =
     (let pic_2_needed = PIC_2_OFFSET \<le> interrupt_num;
          pic_2_bit = (if pic_2_needed then ucast (interrupt_num - PIC_2_OFFSET) else 0) :: u8;
          pic_1_bit = (if pic_2_needed then 2 else ucast (interrupt_num - PIC_1_OFFSET)) :: u8 in
      if 31 \<le> pic_1_bit \<or> 31 \<le> pic_2_bit then Some (Inl (Undefined ''shift of int out of range''))
      else
        let (pic1_mask, k) = k_inb E PIC1_DATA k;
            k = k_outb PIC1_DATA (clear_mask_bit pic1_mask pic_1_bit) k;
            k = (if pic_2_needed
                 then let (pic2_mask, k) = k_inb E PIC2_DATA k in
                      k_outb PIC2_DATA (clear_mask_bit pic2_mask pic_2_bit) k
                 else k) in
        if unat interrupt_num < 256
        then Some (Inr (k\<lparr>interruptList := (interruptList k)[unat interrupt_num := Some interrupt_func]\<rparr>))
        else Some (Inl (Undefined ''interruptList: index out of bounds'')))"

subsection \<open>The interrupt table\<close>

definition read_idt :: "env \<Rightarrow> kernel \<Rightarrow> kernel effect" where
  "read_idt E k =
     bindE (k_LOG E ''kernel/interrupts.c'' 222 ''read_idt BEGIN'' [] k) (\<lambda>k.
     let (sz, off) = idtr k in
     bindE (k_assert E (sz \<noteq> 1) ''ERROR, sidt did not work properly'' k) (\<lambda>k.
       k_LOG E ''kernel/interrupts.c'' 228 ''Size: %d - Offset: %d'' [VWord (ucast sz), VWord off] k))"

definition gate_args :: "env \<Rightarrow> nat \<Rightarrow> GateDescriptorNewArgs" where
  "gate_args E i = \<lparr>ga_offset = addr_INTERRUPT_MEM E + 21 * of_nat i, ga_p = True, ga_dpl = 0, ga_gate = 15,
     ga_segment_selector = 0x8\<rparr>"

fun fill_idt :: "env \<Rightarrow> nat \<Rightarrow> nat \<Rightarrow> kernel \<Rightarrow> kernel effect" where
  "fill_idt E i 0 k = Some (Inr k)"
| "fill_idt E i (Suc n) k =
     bindE (generate_interrupt_stub E (int i) k) (\<lambda>k.
     bindE (liftE (GateDescriptor_create (gate_args E i))) (\<lambda>gd.
       fill_idt E (i + 1) n (k\<lparr>interruptTable := (interruptTable k)[i := gd]\<rparr>)))"

definition init_idt :: "env \<Rightarrow> kernel \<Rightarrow> kernel effect" where
  "init_idt E k =
     bindE (k_LOG E ''kernel/interrupts.c'' 158 ''Initializing IDT'' [] k) (\<lambda>k.
     let k = k_outb PIC1_DATA 0xFF k; k = k_outb PIC2_DATA 0xFF k;
         k = PIC_remap (ucast PIC_1_OFFSET) (ucast PIC_2_OFFSET) k in
     bindE (fill_idt E 0 256 k) (\<lambda>k.
     let idt = (256 * 8 - 1, addr_interruptTable E) in
     bindE (read_idt E k) (\<lambda>k.
     bindE (k_LOG E ''kernel/interrupts.c'' 187 ''Loading data: size: %d, offset: %d''
              [VWord (ucast (fst idt)), VWord (snd idt)] k) (\<lambda>k.
     let k = k_sti (upd_trace (\<lambda>tr. Lidt (snd idt) (fst idt) # tr) (k\<lparr>idtr := idt\<rparr>)) in
     read_idt E k))))"

subsection \<open>The fields of a gate\<close>

definition decode_gate :: "u64 \<Rightarrow> GateDescriptorNewArgs" where
  "decode_gate e =
     \<lparr>ga_offset = ucast (take_bit 16 e OR push_bit 16 (drop_bit 48 e)), ga_p = bit e 47,
      ga_dpl = ucast (take_bit 2 (drop_bit 45 e)), ga_gate = ucast (take_bit 4 (drop_bit 40 e)),
      ga_segment_selector = ucast (drop_bit 16 e)\<rparr>"

lemma take_bit_self: "unat w < 2 ^ k \<Longrightarrow> take_bit k w = (w :: 'a::len word)"
  by (simp add: word_unat_eq_iff unsigned_take_bit_eq take_bit_nat_eq_self)

lemma bit_below: "unat w < 2 ^ k \<Longrightarrow> bit (w :: 'a::len word) n \<Longrightarrow> n < k"
  by (metis take_bit_self bit_take_bit_iff)

lemma gate_bits:
  assumes "ga_dpl arg \<le> 4" "ga_gate arg \<le> 16" "ga_segment_selector arg < 0x8000"
  shows "\<exists>e. generate_gd_entry arg = Inr e \<and> (\<forall>n. bit e n \<longleftrightarrow> n < 64 \<and>
      (n < 16 \<and> bit (ga_offset arg) n \<or> 16 \<le> n \<and> n < 32 \<and> bit (ga_segment_selector arg) (n - 16)
       \<or> 40 \<le> n \<and> n < 45 \<and> bit (ga_gate arg) (n - 40) \<or> 45 \<le> n \<and> n < 48 \<and> bit (ga_dpl arg) (n - 45)
       \<or> n = 47 \<and> ga_p arg \<or> 48 \<le> n \<and> bit (ga_offset arg) (n - 32)))"
proof -
  let ?s = "ga_segment_selector arg" and ?o = "ga_offset arg"
  have m: "(0xFFFF :: 'a::len word) = mask 16" by (simp add: mask_eq_exp_minus_1)
  have s: "bit ?s n \<Longrightarrow> n < 15" for n
    using assms(3) by (intro bit_below [of ?s 15]) (simp add: word_less_nat_alt)
  have g: "bit (ga_gate arg) n \<Longrightarrow> n < 5" for n
    using assms(2) by (intro bit_below [of "ga_gate arg" 5]) (simp add: word_le_nat_alt)
  have d: "bit (ga_dpl arg) n \<Longrightarrow> n < 3" for n
    using assms(1) by (intro bit_below [of "ga_dpl arg" 3]) (simp add: word_le_nat_alt)
  have sel: "bit (scast (push_bit 16 (ucast ?s) :: u32) :: u64) n \<longleftrightarrow> 16 \<le> n \<and> n < 32 \<and> bit ?s (n - 16)" for n
    by (auto simp: bit_simps min_def not_less dest: s)
  have o1: "bit (ucast (?o AND 0xFFFF) :: u64) n \<longleftrightarrow> n < 16 \<and> bit ?o n" for n
    unfolding m by (auto simp: bit_simps)
  have o2: "bit (push_bit 48 (drop_bit 16 (ucast ?o) AND 0xFFFF) :: u64) n \<longleftrightarrow>
      48 \<le> n \<and> n < 64 \<and> bit ?o (n - 32)" for n
    unfolding m by (auto simp: bit_simps)
  have gt: "bit (push_bit 40 (ucast (ga_gate arg)) :: u64) n \<longleftrightarrow> 40 \<le> n \<and> n < 45 \<and> bit (ga_gate arg) (n - 40)" for n
    by (auto simp: bit_simps dest: g)
  have dp: "bit (push_bit 45 (ucast (ga_dpl arg)) :: u64) n \<longleftrightarrow> 45 \<le> n \<and> n < 48 \<and> bit (ga_dpl arg) (n - 45)" for n
    by (auto simp: bit_simps dest: d)
  have pp: "bit (push_bit 47 (of_bool (ga_p arg)) :: u64) n \<longleftrightarrow> n = 47 \<and> ga_p arg" for n
    by (auto simp: bit_simps)
  have ok: "ga_dpl arg \<le> push_bit 2 1" "ga_gate arg \<le> push_bit 4 1"
    using assms(1,2) by simp_all
  show ?thesis
    unfolding generate_gd_entry_def using ok
    by (simp only: not_not if_False not_True_eq_False ex_simps sum.inject simp_thms)
      (auto simp only: bit_or_iff sel o1 o2 gt dp pp)
qed

lemma gate_roundtrip:
  assumes "ga_dpl arg < 4" "ga_gate arg < 16" "ga_segment_selector arg < 0x8000"
  shows "\<exists>e. generate_gd_entry arg = Inr e \<and> decode_gate e = arg \<and> \<not> bit e 44"
proof -
  obtain e where e: "generate_gd_entry arg = Inr e" and b: "\<And>n. bit e n \<longleftrightarrow> n < 64 \<and>
      (n < 16 \<and> bit (ga_offset arg) n \<or> 16 \<le> n \<and> n < 32 \<and> bit (ga_segment_selector arg) (n - 16)
       \<or> 40 \<le> n \<and> n < 45 \<and> bit (ga_gate arg) (n - 40) \<or> 45 \<le> n \<and> n < 48 \<and> bit (ga_dpl arg) (n - 45)
       \<or> n = 47 \<and> ga_p arg \<or> 48 \<le> n \<and> bit (ga_offset arg) (n - 32))"
    using gate_bits [of arg] assms by (auto simp: less_imp_le)
  have g: "bit (ga_gate arg) n \<Longrightarrow> n < 4" and d: "bit (ga_dpl arg) n \<Longrightarrow> n < 2" for n
    using assms(1,2) by (intro bit_below [of "ga_gate arg" 4] bit_below [of "ga_dpl arg" 2];
      simp add: word_less_nat_alt)+
  have "ucast (take_bit 16 e OR push_bit 16 (drop_bit 48 e)) = ga_offset arg"
  proof (rule bit_word_eqI)
    fix n
    assume "n < LENGTH(32)"
    then show "bit (ucast (take_bit 16 e OR push_bit 16 (drop_bit 48 e)) :: u32) n = bit (ga_offset arg) n"
      by (cases "n < 16") (auto simp: bit_simps b)
  qed
  moreover have "ucast (take_bit 2 (drop_bit 45 e)) = ga_dpl arg"
    by (rule bit_word_eqI) (auto simp: bit_simps b dest: d)
  moreover have "ucast (take_bit 4 (drop_bit 40 e)) = ga_gate arg"
    by (rule bit_word_eqI) (auto simp: bit_simps b dest: g)
  moreover have "ucast (drop_bit 16 e) = ga_segment_selector arg"
    by (rule bit_word_eqI) (auto simp: bit_simps b)
  moreover have "bit e 47 = ga_p arg" "\<not> bit e 44" using d [of 2] g [of 4] by (auto simp: b)
  ultimately show ?thesis using e by (auto simp: decode_gate_def)
qed

subsection \<open>What a stub does\<close>

text \<open>
  The instructions of a stub, read back from its bytes. \<open>push imm8\<close> (opcode 6A) pushes the
  byte with its sign extended.
\<close>

datatype instr = Push_ebp | Mov_ebp_esp | Pusha | Push_imm int | Mov_eax u32 | Call_eax
  | Add_esp int | Popa | Mov_esp_ebp | Pop_ebp | Iret

definition bytes32 :: "u8 \<Rightarrow> u8 \<Rightarrow> u8 \<Rightarrow> u8 \<Rightarrow> u32" where
  "bytes32 a b c d = ucast a OR push_bit 8 (ucast b) OR push_bit 16 (ucast c) OR push_bit 24 (ucast d)"

fun decode1 :: "u8 list \<Rightarrow> (instr \<times> nat) option" where
  "decode1 (op # rest) =
     (if op = 0x55 then Some (Push_ebp, 1)
      else if op = 0x60 then Some (Pusha, 1)
      else if op = 0x61 then Some (Popa, 1)
      else if op = 0x5d then Some (Pop_ebp, 1)
      else if op = 0xcf then Some (Iret, 1)
      else if op = 0x6a \<and> rest \<noteq> [] then Some (Push_imm (sint (hd rest)), 2)
      else if op = 0x89 \<and> take 1 rest = [0xe5] then Some (Mov_ebp_esp, 2)
      else if op = 0x89 \<and> take 1 rest = [0xec] then Some (Mov_esp_ebp, 2)
      else if op = 0xff \<and> take 1 rest = [0xd0] then Some (Call_eax, 2)
      else if op = 0x83 \<and> take 1 rest = [0xc4] \<and> 2 \<le> length rest then Some (Add_esp (sint (rest ! 1)), 3)
      else if op = 0xb8 \<and> 4 \<le> length rest
        then Some (Mov_eax (bytes32 (rest ! 0) (rest ! 1) (rest ! 2) (rest ! 3)), 5)
      else None)"
| "decode1 [] = None"

fun decode :: "nat \<Rightarrow> u8 list \<Rightarrow> instr list option" where
  "decode 0 bs = None"
| "decode (Suc n) bs = (case decode1 bs of None \<Rightarrow> None
     | Some (i, l) \<Rightarrow> if i = Iret then Some [i] else map_option (\<lambda>is. i # is) (decode n (drop l bs)))"

definition stub_program :: "u32 \<Rightarrow> int \<Rightarrow> instr list" where
  "stub_program handler num = [Push_ebp, Mov_ebp_esp, Pusha, Push_imm num, Mov_eax handler, Call_eax,
     Add_esp 4, Popa, Mov_esp_ebp, Pop_ebp, Iret]"

lemma bytes32_split:
  "bytes32 (ucast (w AND 0xFF)) (ucast (drop_bit 8 w AND 0xFF)) (ucast (drop_bit 16 w AND 0xFF))
     (ucast (drop_bit 24 w AND 0xFF)) = w" for w :: u32
proof (rule bit_word_eqI)
  fix n
  assume "n < LENGTH(32)"
  have m: "(0xFF :: u32) = mask 8" by (simp add: mask_eq_exp_minus_1)
  consider "n < 8" | "8 \<le> n" "n < 16" | "16 \<le> n" "n < 24" | "24 \<le> n" by linarith
  then show "bit (bytes32 (ucast (w AND 0xFF)) (ucast (drop_bit 8 w AND 0xFF)) (ucast (drop_bit 16 w AND 0xFF))
     (ucast (drop_bit 24 w AND 0xFF))) n = bit w n"
    unfolding bytes32_def m using \<open>n < LENGTH(32)\<close> by cases (auto simp: bit_simps)
qed

lemma stub_bytes:
  "interrupt_stub h num = [0x55, 0x89, 0xe5, 0x60, 0x6a, word_of_int num, 0xb8, ucast (h AND 0xFF),
     ucast (drop_bit 8 h AND 0xFF), ucast (drop_bit 16 h AND 0xFF), ucast (drop_bit 24 h AND 0xFF),
     0xff, 0xd0, 0x83, 0xc4, 0x04, 0x61, 0x89, 0xec, 0x5d, 0xcf]"
  by (simp add: interrupt_stub_def TEMPLATE_def Let_def)

lemma stub_decodes: "decode 11 (interrupt_stub h num) = Some (stub_program h (sint (word_of_int num :: u8)))"
proof -
  have "decode (Suc (Suc (Suc (Suc (Suc (Suc (Suc (Suc (Suc (Suc (Suc 0))))))))))) (interrupt_stub h num) =
      Some (stub_program h (sint (word_of_int num :: u8)))"
    unfolding stub_bytes stub_program_def
    using bytes32_split [of h] by (simp add: nth_Cons')
  moreover have "Suc (Suc (Suc (Suc (Suc (Suc (Suc (Suc (Suc (Suc (Suc 0)))))))))) = 11" by simp
  ultimately show ?thesis by (simp only:)
qed

lemma sint_byte: "0 \<le> num \<Longrightarrow> num < 256 \<Longrightarrow> sint (word_of_int num :: u8) = (if num < 128 then num else num - 256)"
proof -
  assume "0 \<le> num" "num < 256"
  have "(num - 128 + 256) mod 256 = (num - 128) mod 256" by (rule mod_add_self2)
  then have "(num + 128) mod 256 = (if num < 128 then num + 128 else num - 128)"
    using \<open>0 \<le> num\<close> \<open>num < 256\<close> by (cases "num < 128") (simp_all add: add.commute)
  then show ?thesis
    by (simp add: signed_of_int signed_take_bit_eq_take_bit_shift take_bit_eq_mod)
qed

text \<open>
  An interrupt: the stub of its vector calls the function whose address it loads into eax, with the
  number it pushed. At the address of \<open>generic_interrupt_handler\<close> that is the handler; what a call of
  any other address does is not defined.
\<close>

fun handler_call :: "int option \<Rightarrow> u32 option \<Rightarrow> instr list \<Rightarrow> (u32 \<times> int) option" where
  "handler_call arg eax [] = None"
| "handler_call arg eax (i # is) = (case i of
      Push_imm v \<Rightarrow> handler_call (Some v) eax is
    | Mov_eax f \<Rightarrow> handler_call arg (Some f) is
    | Call_eax \<Rightarrow> (case (eax, arg) of (Some f, Some v) \<Rightarrow> Some (f, v) | _ \<Rightarrow> None)
    | _ \<Rightarrow> handler_call arg eax is)"

definition stub_call :: "u8 list \<Rightarrow> (u32 \<times> int) option" where
  "stub_call stub = (case decode 11 stub of Some is \<Rightarrow> handler_call None None is | None \<Rightarrow> None)"

definition take_interrupt ::
  "env \<Rightarrow> (irq_func \<Rightarrow> kernel \<Rightarrow> kernel effect) \<Rightarrow> nat \<Rightarrow> kernel \<Rightarrow> kernel effect" where
  "take_interrupt E run vector k = (case stub_call (INTERRUPT_MEM k ! vector) of
       Some (func, num) \<Rightarrow> if func = addr_generic_interrupt_handler E then generic_interrupt_handler E run num k
         else Some (Inl (Undefined ''call of another address''))
     | None \<Rightarrow> Some (Inl (Undefined ''not a stub'')))"

lemma stub_call_stub: "stub_call (interrupt_stub h num) = Some (h, sint (word_of_int num :: u8))"
  by (simp add: stub_call_def stub_decodes stub_program_def)

subsection \<open>Masks and ends of interrupt\<close>

lemma clear_mask_bit_spec: "bit (clear_mask_bit m b) n \<longleftrightarrow> bit m n \<and> n \<noteq> unat b"
  by (auto simp: clear_mask_bit_def bit_simps dest: bit_imp_le_length)

definition masked_at :: "env \<Rightarrow> u16 \<Rightarrow> trace \<Rightarrow> u8 \<Rightarrow> trace" where
  "masked_at E port tr b =
     (let m = dev8 (devs E) tr port in Out8 port (clear_mask_bit m b) # In8 port m # tr)"

lemma register_interrupt_spec:
  assumes "0x20 \<le> v" "v < 0x30"
  shows "register_interrupt E v f k = Some (Inr
    ((upd_trace (\<lambda>tr. if v < 0x28 then masked_at E PIC1_DATA tr (ucast (v - 0x20))
        else masked_at E PIC2_DATA (masked_at E PIC1_DATA tr 2) (ucast (v - 0x28))) k)
     \<lparr>interruptList := (interruptList k)[unat v := Some f]\<rparr>))"
proof -
  have u: "unat v < 256" using assms(2) by (simp add: word_less_nat_alt)
  have b1: "\<not> 31 \<le> (ucast (v - 0x20) :: u8)" if "v < 0x28"
  proof -
    have "unat (v - 0x20) < 8" using that assms(1) by (simp add: unat_sub_le word_le_nat_alt word_less_nat_alt)
    then show ?thesis by (simp add: word_le_nat_alt unsigned_ucast_eq take_bit_nat_eq_self)
  qed
  have b2: "\<not> 31 \<le> (ucast (v - 0x28) :: u8)" if "\<not> v < 0x28"
  proof -
    have "unat (v - 0x28) < 8" using that assms(2) by (simp add: unat_sub_le word_le_nat_alt word_less_nat_alt not_less)
    then show ?thesis by (simp add: word_le_nat_alt unsigned_ucast_eq take_bit_nat_eq_self)
  qed
  show ?thesis
    using u b1 b2 by (auto simp: register_interrupt_def PIC_1_OFFSET_def PIC_2_OFFSET_def masked_at_def
        k_io_defs outb_def not_le not_less upd_trace_def k_trace_def)
qed

definition eoi :: "u8 \<Rightarrow> trace \<Rightarrow> trace" where
  "eoi irq tr = Out8 PIC1_COMMAND 0x20 # (if 8 \<le> irq then [Out8 PIC2_COMMAND 0x20] else []) @ tr"

lemma PIC_sendEOI_eoi: "PIC_sendEOI irq k = upd_trace (eoi irq) k"
  by (simp add: PIC_sendEOI_def k_outb_def outb_def eoi_def Let_def upd_trace_def k_trace_def)

lemma eoi_quiet: "quiet (eoi irq)"
  by (simp add: quiet_def eoi_def PIC1_COMMAND_def PIC2_COMMAND_def DATA_REG_def COM1_def)

lemma ucast_word_of_int: "ucast (word_of_int x :: u32) = (word_of_int x :: u8)"
  by (rule bit_word_eqI) (simp add: bit_simps)

lemma handler_dispatches:
  assumes "0x20 \<le> num" "num < 0x30" and "interruptList k ! nat num = Some f"
    and "run f k = Some (Inr k')"
  shows "generic_interrupt_handler E run num k =
    Some (Inr (upd_trace (eoi (if num < 0x28 then word_of_int (num - 0x20) else word_of_int (num - 0x28 + 8))) k'))"
proof -
  have w: "uint (word_of_int num :: u32) = num" using assms(1,2) by (simp add: unsigned_of_int take_bit_int_eq_self)
  have c: "ucast (word_of_int num - 32 :: u32) = (word_of_int (num - 32) :: u8)"
      "ucast (word_of_int num - 32 :: u32) = (word_of_int (num - 32) :: u8)"
    using ucast_word_of_int [of "num - 32"] by simp_all
  have "PIC_remove_offset (word_of_int num) =
      Inr (if num < 0x28 then word_of_int (num - 0x20) else word_of_int (num - 0x28 + 8))"
    using assms(1,2) w
    by (auto simp: PIC_remove_offset_def PIC_1_OFFSET_def PIC_2_OFFSET_def word_le_def not_le c)
  then show ?thesis
    using assms by (simp add: generic_interrupt_handler_def PIC_sendEOI_eoi)
qed

subsection \<open>Filling the table\<close>

lemma fill_idt_spec:
  "i + n \<le> 256 \<Longrightarrow> length (INTERRUPT_MEM k) = 256 \<Longrightarrow> length (interruptTable k) = 256 \<Longrightarrow>
    \<exists>M T. fill_idt E i n k = Some (Inr (k\<lparr>INTERRUPT_MEM := M, interruptTable := T\<rparr>))
      \<and> length M = 256 \<and> length T = 256
      \<and> (\<forall>j. i \<le> j \<and> j < i + n \<longrightarrow> M ! j = interrupt_stub (addr_generic_interrupt_handler E) (int j)
          \<and> generate_gd_entry (gate_args E j) = Inr (T ! j))
      \<and> (\<forall>j. j < i \<longrightarrow> M ! j = INTERRUPT_MEM k ! j \<and> T ! j = interruptTable k ! j)"
proof (induction n arbitrary: i k)
  case 0
  then show ?case by (intro exI [of _ "INTERRUPT_MEM k"] exI [of _ "interruptTable k"]) auto
next
  case (Suc n)
  have a: "ga_dpl (gate_args E i) < 4" "ga_gate (gate_args E i) < 16" "ga_segment_selector (gate_args E i) < 0x8000"
    by (simp_all add: gate_args_def)
  obtain e where e: "generate_gd_entry (gate_args E i) = Inr e" using gate_roundtrip [OF a] by blast
  let ?k1 = "k\<lparr>INTERRUPT_MEM := (INTERRUPT_MEM k)[i := interrupt_stub (addr_generic_interrupt_handler E) (int i)],
    interruptTable := (interruptTable k)[i := e]\<rparr>"
  have step: "fill_idt E i (Suc n) k = fill_idt E (i + 1) n ?k1"
    using Suc.prems by (simp add: generate_interrupt_stub_def liftE_def GateDescriptor_create_def e)
  have "i + 1 + n \<le> 256" "length (INTERRUPT_MEM ?k1) = 256" "length (interruptTable ?k1) = 256"
    using Suc.prems by simp_all
  from Suc.IH [OF this] obtain M T where
    r: "fill_idt E (i + 1) n ?k1 = Some (Inr (?k1\<lparr>INTERRUPT_MEM := M, interruptTable := T\<rparr>))"
      "length M = 256" "length T = 256"
      "\<And>j. i + 1 \<le> j \<Longrightarrow> j < i + 1 + n \<Longrightarrow> M ! j = interrupt_stub (addr_generic_interrupt_handler E) (int j)
          \<and> generate_gd_entry (gate_args E j) = Inr (T ! j)"
      "\<And>j. j < i + 1 \<Longrightarrow> M ! j = INTERRUPT_MEM ?k1 ! j \<and> T ! j = interruptTable ?k1 ! j"
    by blast
  have "M ! j = interrupt_stub (addr_generic_interrupt_handler E) (int j) \<and> generate_gd_entry (gate_args E j) = Inr (T ! j)"
    if "i \<le> j" "j < i + Suc n" for j
    using that r(4) [of j] r(5) [of j] Suc.prems e by (cases "j = i") auto
  moreover have "M ! j = INTERRUPT_MEM k ! j \<and> T ! j = interruptTable k ! j" if "j < i" for j
    using that r(5) [of j] by simp
  ultimately show ?case using step r(1-3) by auto
qed

definition io_only :: "kernel \<Rightarrow> kernel \<Rightarrow> bool" where
  "io_only k k' \<longleftrightarrow> k' = k\<lparr>k_log := k_log k'\<rparr> \<and> log_ok k'"

lemma logged_io_only: "logged k k' \<Longrightarrow> io_only k k'"
  by (simp add: logged_def io_only_def)

lemma upd_trace_io_only: "log_ok k \<Longrightarrow> io_only k (upd_trace f k)"
  by (simp add: io_only_def upd_trace_def log_ok_def log_rel_def)

lemma io_only_trans: "io_only a b \<Longrightarrow> io_only b c \<Longrightarrow> io_only a c"
  unfolding io_only_def by (metis (no_types, lifting) kernel.surjective kernel.update_convs(1))

lemma io_only_fields:
  assumes "io_only k k'"
  shows "INTERRUPT_MEM k' = INTERRUPT_MEM k" "interruptTable k' = interruptTable k" "idtr k' = idtr k"
    "interruptList k' = interruptList k" "log_ok k'"
  using assms by (auto simp: io_only_def) (metis kernel.select_convs kernel.surjective kernel.update_convs(1))+

lemma idt_text:
  assumes "off \<noteq> 0x80000000"
  shows "short_log ''kernel/interrupts.c'' 228 ''Size: %d - Offset: %d'' [VWord (ucast (sz :: u16)), VWord off]"
    and "short_log ''kernel/interrupts.c'' 187 ''Loading data: size: %d, offset: %d'' [VWord (ucast sz), VWord off]"
proof -
  have sz: "ucast sz \<noteq> (0x80000000 :: u32)"
  proof
    assume "ucast sz = (0x80000000 :: u32)"
    then have "uint (ucast sz :: u32) = 0x80000000" by simp
    moreover have "uint (ucast sz :: u32) = uint sz"
      using uint_lt2p [of sz] by (simp add: unsigned_ucast_eq take_bit_int_eq_self)
    ultimately show False using uint_lt2p [of sz] by simp
  qed
  have d: "length (decimal (sint w)) \<le> 11" for w :: u32
    using length_decimal [of "sint w"] sint_greater_eq [of w] sint_less [of w] by simp
  have "render (lit ''Size: %d - Offset: %d'') [VWord (ucast sz), VWord off] =
      Some (lit ''Size: '' @ decimal (sint (ucast sz :: u32)) @ lit '' - Offset: '' @ decimal (sint off))"
    "render (lit ''Loading data: size: %d, offset: %d'') [VWord (ucast sz), VWord off] =
      Some (lit ''Loading data: size: '' @ decimal (sint (ucast sz :: u32)) @ lit '', offset: '' @ decimal (sint off))"
    using sz assms by (simp_all add: lit_def render_def pieces.simps directives_def print_signed_def)
  moreover have "length (prefix_text (lit ''INFO'') (lit ''kernel/interrupts.c'') 228) < 100"
    "length (prefix_text (lit ''INFO'') (lit ''kernel/interrupts.c'') 187) < 100"
    by code_simp+
  ultimately show "short_log ''kernel/interrupts.c'' 228 ''Size: %d - Offset: %d'' [VWord (ucast sz), VWord off]"
    "short_log ''kernel/interrupts.c'' 187 ''Loading data: size: %d, offset: %d'' [VWord (ucast sz), VWord off]"
    using d [of "ucast sz"] d [of off] decimal_no_nul
    by (simp_all add: short_log_def) (simp_all add: lit_def)
qed

lemma constant_texts:
  "short_log ''kernel/interrupts.c'' 222 ''read_idt BEGIN'' []"
  "short_log ''kernel/interrupts.c'' 158 ''Initializing IDT'' []"
  by code_simp+

lemma read_idt_spec:
  assumes "env_ok E" "log_ok k" "fst (idtr k) \<noteq> 1" "snd (idtr k) \<noteq> 0x80000000"
  shows "\<exists>k'. read_idt E k = Some (Inr k') \<and> logged k k'"
proof -
  obtain k1 where k1: "k_LOG E ''kernel/interrupts.c'' 222 ''read_idt BEGIN'' [] k = Some (Inr k1)" "logged k k1"
    using k_LOG_spec [OF assms(1,2) constant_texts(1)] by blast
  note f = io_only_fields [OF logged_io_only [OF k1(2)]]
  obtain sz off where i: "idtr k = (sz, off)" by fastforce
  obtain k2 where k2: "k_LOG E ''kernel/interrupts.c'' 228 ''Size: %d - Offset: %d'' [VWord (ucast sz), VWord off] k1 =
      Some (Inr k2)" "logged k1 k2"
    using k_LOG_spec [OF assms(1) f(5) idt_text(1)] assms(4) i by fastforce
  show ?thesis
    using k1 k2 assms(3) i f(3) logged_trans [OF k1(2) k2(2)]
    by (simp add: read_idt_def k_assert_def)
qed

lemma init_idt_spec:
  assumes env: "env_ok E" and log: "log_ok k"
    and tables: "length (INTERRUPT_MEM k) = 256" "length (interruptTable k) = 256"
    and old: "fst (idtr k) \<noteq> 1" "snd (idtr k) \<noteq> 0x80000000" and addr: "addr_interruptTable E \<noteq> 0x80000000"
  shows "\<exists>k'. init_idt E k = Some (Inr k') \<and> log_ok k' \<and> interruptList k' = interruptList k
    \<and> idtr k' = (2047, addr_interruptTable E) \<and> interrupt_flag b (k_trace k')
    \<and> (\<forall>v < 256. INTERRUPT_MEM k' ! v = interrupt_stub (addr_generic_interrupt_handler E) (int v)
        \<and> generate_gd_entry (gate_args E v) = Inr (interruptTable k' ! v))"
proof -
  obtain k1 where k1: "k_LOG E ''kernel/interrupts.c'' 158 ''Initializing IDT'' [] k = Some (Inr k1)" "logged k k1"
    using k_LOG_spec [OF env log constant_texts(2)] by blast
  define k2 where "k2 = PIC_remap (ucast PIC_1_OFFSET) (ucast PIC_2_OFFSET) (k_outb PIC2_DATA 0xFF (k_outb PIC1_DATA 0xFF k1))"
  have "io_only k1 k2"
    using io_only_fields(5) [OF logged_io_only [OF k1(2)]]
    by (simp add: k2_def PIC_remap_def k_outb_def Let_def upd_trace_io_only)
  then have "io_only k k2" by (rule io_only_trans [OF logged_io_only [OF k1(2)]])
  note f2 = io_only_fields [OF this]
  obtain M T where fill: "fill_idt E 0 256 k2 = Some (Inr (k2\<lparr>INTERRUPT_MEM := M, interruptTable := T\<rparr>))"
      "\<And>v. v < 256 \<Longrightarrow> M ! v = interrupt_stub (addr_generic_interrupt_handler E) (int v)
          \<and> generate_gd_entry (gate_args E v) = Inr (T ! v)"
    using fill_idt_spec [of 0 256 k2 E] tables f2(1,2) by auto
  define k3 where "k3 = k2\<lparr>INTERRUPT_MEM := M, interruptTable := T\<rparr>"
  have f3: "log_ok k3" "idtr k3 = idtr k" "interruptList k3 = interruptList k" "INTERRUPT_MEM k3 = M" "interruptTable k3 = T"
    using f2 by (simp_all add: k3_def)
  obtain k4 where k4: "read_idt E k3 = Some (Inr k4)" "logged k3 k4"
    using read_idt_spec [OF env f3(1)] old f3(2) by auto
  note f4 = io_only_fields [OF logged_io_only [OF k4(2)]]
  obtain k5 where k5: "k_LOG E ''kernel/interrupts.c'' 187 ''Loading data: size: %d, offset: %d''
      [VWord (ucast (2047 :: u16)), VWord (addr_interruptTable E)] k4 = Some (Inr k5)" "logged k4 k5"
    using k_LOG_spec [OF env f4(5) idt_text(2) [OF addr]] by blast
  note f5 = io_only_fields [OF logged_io_only [OF k5(2)]]
  define k6 where "k6 = k_sti (upd_trace (\<lambda>tr. Lidt (addr_interruptTable E) 2047 # tr)
      (k5\<lparr>idtr := (2047, addr_interruptTable E)\<rparr>))"
  have f6: "log_ok k6" "idtr k6 = (2047, addr_interruptTable E)" "interruptList k6 = interruptList k"
      "INTERRUPT_MEM k6 = M" "interruptTable k6 = T" "interrupt_flag b (k_trace k6)"
    using f3 f4 f5 by (simp_all add: k6_def k_sti_def enable_interrupts_def)
  obtain k7 where k7: "read_idt E k6 = Some (Inr k7)" "logged k6 k7"
    using read_idt_spec [OF env f6(1)] f6(2) addr by auto
  note f7 = io_only_fields [OF logged_io_only [OF k7(2)]]
  have "interrupt_flag b (k_trace k7)" using f6(6) by (simp add: logged_flag [OF k7(2)])
  moreover have "init_idt E k = Some (Inr k7)"
    using k1 fill(1) k4 k5 k7 by (simp add: init_idt_def Let_def k6_def k3_def flip: k2_def)
  ultimately show ?thesis using f6 f7 fill(2) by auto
qed

subsection \<open>Properties\<close>

text \<open>
  A gate descriptor decodes to the arguments it was made from, with bit 44 clear, for a
  privilege level of two bits, a gate type of four and a selector under 8000 (hexadecimal).
  The two assertions admit one value more: level 4 reads back as level 0 and sets the present
  bit, type 16 reads back as type 0 and sets bit 44.
\<close>

theorem gate_entry_roundtrip:
  assumes "ga_dpl arg \<le> 4" "ga_gate arg \<le> 16" "ga_segment_selector arg < 0x8000"
  shows "(ga_dpl arg < 4 \<and> ga_gate arg < 16 \<longrightarrow>
      (\<exists>e. generate_gd_entry arg = Inr e \<and> decode_gate e = arg \<and> \<not> bit e 44))
    \<and> (ga_dpl arg = 4 \<longrightarrow> (\<exists>e. generate_gd_entry arg = Inr e \<and> ga_p (decode_gate e) \<and> ga_dpl (decode_gate e) = 0))
    \<and> (ga_gate arg = 16 \<longrightarrow> (\<exists>e. generate_gd_entry arg = Inr e \<and> bit e 44 \<and> ga_gate (decode_gate e) = 0))"
proof (intro conjI impI)
  obtain e where e: "generate_gd_entry arg = Inr e" and b: "\<And>n. bit e n \<longleftrightarrow> n < 64 \<and>
      (n < 16 \<and> bit (ga_offset arg) n \<or> 16 \<le> n \<and> n < 32 \<and> bit (ga_segment_selector arg) (n - 16)
       \<or> 40 \<le> n \<and> n < 45 \<and> bit (ga_gate arg) (n - 40) \<or> 45 \<le> n \<and> n < 48 \<and> bit (ga_dpl arg) (n - 45)
       \<or> n = 47 \<and> ga_p arg \<or> 48 \<le> n \<and> bit (ga_offset arg) (n - 32))"
    using gate_bits [OF assms] by blast
  { assume dpl: "ga_dpl arg = 4"
    have "ga_dpl (decode_gate e) = 0"
      unfolding decode_gate_def
      by (rule bit_word_eqI) (auto simp: bit_simps b dpl less_Suc_eq numeral_eq_Suc)
    moreover have "ga_p (decode_gate e)" by (simp add: decode_gate_def b dpl)
    ultimately show "\<exists>e. generate_gd_entry arg = Inr e \<and> ga_p (decode_gate e) \<and> ga_dpl (decode_gate e) = 0"
      using e by blast }
  { assume gate: "ga_gate arg = 16"
    have "ga_gate (decode_gate e) = 0"
      unfolding decode_gate_def
      by (rule bit_word_eqI) (auto simp: bit_simps b gate less_Suc_eq numeral_eq_Suc)
    moreover have "bit e 44" by (simp add: b gate)
    ultimately show "\<exists>e. generate_gd_entry arg = Inr e \<and> bit e 44 \<and> ga_gate (decode_gate e) = 0"
      using e by blast }
qed (use gate_roundtrip assms(3) in blast)

theorem gate_entry_roundtrip_witness:
  "\<exists>e. generate_gd_entry \<lparr>ga_offset = 0x101234, ga_p = False, ga_dpl = 4, ga_gate = 14, ga_segment_selector = 8\<rparr> = Inr e
    \<and> ga_p (decode_gate e)"
  using gate_entry_roundtrip [of "\<lparr>ga_offset = 0x101234, ga_p = False, ga_dpl = 4, ga_gate = 14, ga_segment_selector = 8\<rparr>"]
  by auto

text \<open>
  C11. \<open>init_idt\<close> returns with interrupts enabled and the table loaded; every one of the 256
  entries is a present ring 0 trap gate in the code segment that points to its stub, and the
  handlers registered before are kept. Through its stub, vector \<open>v\<close> calls the dispatcher with
  the number \<open>v\<close> if \<open>v < 128\<close>, and with \<open>v - 256\<close> otherwise.
\<close>

theorem init_idt_installs_stubs:
  assumes "env_ok E" "log_ok k" "length (INTERRUPT_MEM k) = 256" "length (interruptTable k) = 256"
    and "fst (idtr k) \<noteq> 1" "snd (idtr k) \<noteq> 0x80000000" "addr_interruptTable E \<noteq> 0x80000000"
  shows "\<exists>k'. init_idt E k = Some (Inr k') \<and> log_ok k' \<and> interruptList k' = interruptList k
    \<and> idtr k' = (2047, addr_interruptTable E) \<and> interrupt_flag b (k_trace k')
    \<and> (\<forall>v < 256. decode_gate (interruptTable k' ! v) = gate_args E v
        \<and> take_interrupt E run v k' = generic_interrupt_handler E run (if v < 128 then int v else int v - 256) k')"
proof -
  obtain k' where k': "init_idt E k = Some (Inr k')" "log_ok k'" "interruptList k' = interruptList k"
      "idtr k' = (2047, addr_interruptTable E)" "interrupt_flag b (k_trace k')"
    and v: "\<And>v. v < 256 \<Longrightarrow> INTERRUPT_MEM k' ! v = interrupt_stub (addr_generic_interrupt_handler E) (int v)
        \<and> generate_gd_entry (gate_args E v) = Inr (interruptTable k' ! v)"
    using init_idt_spec [OF assms] by blast
  have "decode_gate (interruptTable k' ! v) = gate_args E v" if "v < 256" for v
    using gate_roundtrip [of "gate_args E v"] v [OF that] by (auto simp: gate_args_def)
  moreover have "take_interrupt E run v k' = generic_interrupt_handler E run (if v < 128 then int v else int v - 256) k'"
    if "v < 256" for v
    using v [OF that] that sint_byte [of "int v"] by (simp add: take_interrupt_def stub_call_stub)
  ultimately show ?thesis using k' by blast
qed

theorem init_idt_installs_stubs_witness:
  "\<exists>k'. init_idt test_env boot_kernel = Some (Inr k') \<and> interrupt_flag False (k_trace k')
    \<and> decode_gate (interruptTable k' ! 40) = gate_args test_env 40
    \<and> take_interrupt test_env (\<lambda>_ k. Some (Inr k)) 40 k' = generic_interrupt_handler test_env (\<lambda>_ k. Some (Inr k)) 40 k'"
proof -
  have "\<exists>k'. init_idt test_env boot_kernel = Some (Inr k') \<and> log_ok k' \<and> interruptList k' = interruptList boot_kernel
    \<and> idtr k' = (2047, addr_interruptTable test_env) \<and> interrupt_flag False (k_trace k')
    \<and> (\<forall>v < 256. decode_gate (interruptTable k' ! v) = gate_args test_env v
        \<and> take_interrupt test_env (\<lambda>_ k. Some (Inr k)) v k' =
          generic_interrupt_handler test_env (\<lambda>_ k. Some (Inr k)) (if v < 128 then int v else int v - 256) k')"
    by (rule init_idt_installs_stubs [OF test_env_ok boot_log_ok]) (simp_all add: boot_kernel_def test_env_def)
  then show ?thesis by fastforce
qed

text \<open>
  C4. Registering a function for a vector of the controllers stores it for that vector only and
  clears exactly the bit of its line in the mask the controller returned (and, for the second
  controller, the cascade line 2 of the first). An interrupt on that vector then runs the function
  and, after it, acknowledges the interrupt: at the first controller, and before that at the second
  one for its vectors.
\<close>

theorem registered_handler_runs_and_acknowledges:
  assumes "0x20 \<le> v" "v < 0x30" "length (interruptList k) = 256"
    and "\<And>k1. register_interrupt E v f k = Some (Inr k1) \<Longrightarrow> run f k1 = Some (Inr k2)"
  shows "\<exists>k1. register_interrupt E v f k = Some (Inr k1)
    \<and> interruptList k1 = (interruptList k)[unat v := Some f]
    \<and> k_trace k1 = (if v < 0x28 then masked_at E PIC1_DATA (k_trace k) (ucast (v - 0x20))
        else masked_at E PIC2_DATA (masked_at E PIC1_DATA (k_trace k) 2) (ucast (v - 0x28)))
    \<and> (\<forall>m b n. bit (clear_mask_bit m b) n = (bit m n \<and> n \<noteq> unat b))
    \<and> generic_interrupt_handler E run (int (unat v)) k1 = Some (Inr (upd_trace
        (\<lambda>tr. Out8 PIC1_COMMAND 0x20 # (if 0x28 \<le> v then [Out8 PIC2_COMMAND 0x20] else []) @ tr) k2))"
proof -
  let ?k1 = "(upd_trace (\<lambda>tr. if v < 0x28 then masked_at E PIC1_DATA tr (ucast (v - 0x20))
        else masked_at E PIC2_DATA (masked_at E PIC1_DATA tr 2) (ucast (v - 0x28))) k)
     \<lparr>interruptList := (interruptList k)[unat v := Some f]\<rparr>"
  have r: "register_interrupt E v f k = Some (Inr ?k1)" by (rule register_interrupt_spec [OF assms(1,2)])
  have u: "0x20 \<le> unat v" "unat v < 0x30" using assms(1,2) by (simp_all add: word_le_nat_alt word_less_nat_alt)
  have h: "interruptList ?k1 ! nat (int (unat v)) = Some f" using u assms(3) by simp
  define irq :: u8 where "irq = (if int (unat v) < 0x28 then word_of_int (int (unat v) - 0x20)
      else word_of_int (int (unat v) - 0x28 + 8))"
  have b: "0x20 \<le> int (unat v)" "int (unat v) < 0x30" using u by linarith+
  from handler_dispatches [OF b, of ?k1 f run k2 E] h assms(4) [OF r]
  have "generic_interrupt_handler E run (int (unat v)) ?k1 = Some (Inr (upd_trace (eoi irq) k2))"
    unfolding irq_def by (simp only:)
  moreover have "8 \<le> irq \<longleftrightarrow> 0x28 \<le> v"
  proof -
    have "int (unat v) - 0x28 + 8 = int (unat v) - 0x20" by simp
    then have "irq = word_of_int (int (unat v) - 0x20)" unfolding irq_def by (simp only: if_cancel)
    then have "uint irq = take_bit 8 (int (unat v) - 0x20)" by (simp only: unsigned_of_int) simp
    then have "uint irq = int (unat v) - 0x20"
      using b by (subst (asm) take_bit_int_eq_self) (simp_all only: mult_1_right, simp_all)
    then show ?thesis using b by (simp add: word_le_def)
  qed
  then have "eoi irq = (\<lambda>tr. Out8 PIC1_COMMAND 0x20 # (if 0x28 \<le> v then [Out8 PIC2_COMMAND 0x20] else []) @ tr)"
    by (auto simp: eoi_def)
  moreover have "k_trace ?k1 = (if v < 0x28 then masked_at E PIC1_DATA (k_trace k) (ucast (v - 0x20))
        else masked_at E PIC2_DATA (masked_at E PIC1_DATA (k_trace k) 2) (ucast (v - 0x28)))"
    by (simp add: k_trace_def upd_trace_def)
  ultimately show ?thesis using r clear_mask_bit_spec by auto
qed

theorem registered_handler_runs_and_acknowledges_witness:
  "\<exists>k1. register_interrupt test_env 0x28 Process_rtc_interrupt boot_kernel = Some (Inr k1)
    \<and> generic_interrupt_handler test_env (\<lambda>_ _. Some (Inr boot_kernel)) 0x28 k1 =
        Some (Inr (upd_trace (\<lambda>tr. Out8 PIC1_COMMAND 0x20 # Out8 PIC2_COMMAND 0x20 # tr) boot_kernel))"
  using registered_handler_runs_and_acknowledges [of "0x28" boot_kernel test_env Process_rtc_interrupt
      "\<lambda>_ _. Some (Inr boot_kernel)" boot_kernel]
  by (auto simp: boot_kernel_def)

text \<open>
  C38. Two ways an interrupt goes wrong with the installed stubs. A vector from 128 on reaches
  the dispatcher with a negative number, an index outside of the handler table. A processor
  exception (vector under 32) without a handler is reported and then panics, since it belongs to no
  controller.
\<close>

theorem unhandled_vectors_fail:
  assumes "env_ok E" "log_ok k" "v < 256"
    and "INTERRUPT_MEM k ! v = interrupt_stub (addr_generic_interrupt_handler E) (int v)"
  shows "(128 \<le> v \<longrightarrow> take_interrupt E run v k = Some (Inl (Undefined ''interruptList: index out of bounds'')))
    \<and> (v < 32 \<and> interruptList k ! v = None \<longrightarrow>
        take_interrupt E run v k = Some (Inl (Panic ''Hardware interrupt, panic!'')))"
proof (intro conjI impI)
  assume "128 \<le> v"
  then show "take_interrupt E run v k = Some (Inl (Undefined ''interruptList: index out of bounds''))"
    using assms(3,4) sint_byte [of "int v"]
    by (simp add: take_interrupt_def stub_call_stub generic_interrupt_handler_def)
next
  assume v: "v < 32 \<and> interruptList k ! v = None"
  let ?fmt = "lit ''unhandled Inside interrupt handler %d'' @ [10]"
  have "sint (of_nat v :: u32) = int v" using v by (intro sint_of_nat32) simp
  moreover have "of_nat v \<noteq> (0x80000000 :: u32)" using v unat_of_nat32 [of v] by auto
  ultimately have r: "render ?fmt [VWord (of_nat v)] =
      Some (lit ''unhandled Inside interrupt handler '' @ decimal (int v) @ [10])"
    by (simp add: lit_def render_def pieces.simps directives_def print_signed_def)
  have "length (decimal (int v)) \<le> 11" using v by (intro length_decimal) auto
  then have len: "length (lit ''unhandled Inside interrupt handler '' @ decimal (int v) @ [10]) < 1024"
    by (simp add: lit_def)
  obtain k1 where k1: "k_printf E ?fmt [VWord (of_nat v)] k = Some (Inr k1)" "logged k k1"
    using k_printf_spec [OF assms(1,2) _ r len] by (auto simp: lit_def)
  have "k_panics E ''Hardware interrupt, panic!'' k1 = (Some (Inl (Panic ''Hardware interrupt, panic!'')) :: kernel effect)"
    using k1(2) by (intro k_panics_spec [OF assms(1)]) (simp_all add: logged_def lit_def c_content_def)
  moreover have "PIC_remove_offset (of_nat v) = Inl (Panic ''Hardware interrupt, panic!'')"
    using v unat_of_nat32 [of v]
    by (auto simp: PIC_remove_offset_def PIC_1_OFFSET_def PIC_2_OFFSET_def word_le_nat_alt)
  ultimately show "take_interrupt E run v k = Some (Inl (Panic ''Hardware interrupt, panic!''))"
    using v assms(4) k1(1) sint_byte [of "int v"]
    by (simp add: take_interrupt_def stub_call_stub generic_interrupt_handler_def)
qed

theorem unhandled_vectors_fail_witness:
  "take_interrupt test_env (\<lambda>_ k. Some (Inr k)) 200
     (boot_kernel\<lparr>INTERRUPT_MEM := replicate 256 (interrupt_stub 0x10161E 200)\<rparr>) =
   Some (Inl (Undefined ''interruptList: index out of bounds''))"
  using unhandled_vectors_fail [OF test_env_ok, of "boot_kernel\<lparr>INTERRUPT_MEM := replicate 256 (interrupt_stub 0x10161E 200)\<rparr>" 200]
    boot_log_ok by (simp add: test_env_def)

end
