(* ===== verification/Future_List.thy ===== *)
theory Future_List
  imports Interrupts
begin

text \<open>
  kernel/kernel/monotonic_tick.c, future.c, and the waiting parts of uart.c, unistd.c and
  kernel.c. The processor in \<open>hlt\<close> goes on after an interrupt: the parameter \<open>irq\<close> is what the
  next interrupt does to the state. The waits are partial functions: \<open>None\<close> is a wait for ever.
  A load through a null pointer is undefined.
\<close>

definition RTC_FREQ :: u32 where "RTC_FREQ = 256"
definition FUTURE_COUNT :: int where "FUTURE_COUNT = 10"

subsection \<open>The tick\<close>

definition get_tick :: "kernel \<Rightarrow> u32 \<times> kernel" where
  "get_tick k = (let k = k_cli k; t = tick k; k = k_sti k in (t, k))"

definition target_tick :: "kernel \<Rightarrow> u32 \<Rightarrow> kerror + u32" where
  "target_tick k ctx = (if ctx = 0 then Inl (Undefined ''null pointer'')
     else Inr (load32 (bytes (k_heap k)) ctx))"

definition process_time_futures :: "kernel \<Rightarrow> kernel effect" where
  "process_time_futures k =
     guarded (\<lambda>k.
       if lastIdx k \<noteq> -1 then
         let ctx = fut_context (timeFutures k ! 0); (t, k) = get_tick k in
         bindE (liftE (target_tick k ctx)) (\<lambda>target.
           Some (Inr (if target \<le> t then k\<lparr>SHOULD_POLL := True\<rparr> else k)))
       else Some (Inr k)) (k\<lparr>SHOULD_POLL := False\<rparr>)"

definition process_tick :: "kernel \<Rightarrow> kernel effect" where
  "process_tick k = process_time_futures (k\<lparr>tick := tick k + 1\<rparr>)"

definition wakeup_executor :: "kernel \<Rightarrow> kernel" where
  "wakeup_executor k = k\<lparr>SHOULD_POLL := True\<rparr>"

definition uart_irq :: "kernel \<Rightarrow> kernel effect" where
  "uart_irq k = Some (Inr (wakeup_executor k))"

definition init_futures :: "kernel \<Rightarrow> kernel" where
  "init_futures k = k\<lparr>lastIdx := -1\<rparr>"

subsection \<open>Futures\<close>

definition alloc_sleep_context :: "kernel \<Rightarrow> (u32 \<times> kernel) effect" where
  "alloc_sleep_context k = bindE (malloc (k_heap k) 4) (\<lambda>(p, h). Some (Inr (p, k\<lparr>k_heap := h\<rparr>)))"

definition create_future :: "u32 \<Rightarrow> ready_func \<Rightarrow> kernel \<Rightarrow> (Future \<times> kernel) effect" where
  "create_future seconds ready k =
     bindE (alloc_sleep_context k) (\<lambda>(ctx, k).
     let (t, k) = get_tick k; h = k_heap k in
     Some (Inr (\<lparr>fut_type = SleepFuture, fut_context = ctx, is_ready = ready\<rparr>,
       k\<lparr>k_heap := h\<lparr>bytes := store32 (bytes h) ctx (t + seconds * RTC_FREQ)\<rparr>\<rparr>)))"

definition create_serial_future :: Future where
  "create_serial_future = \<lparr>fut_type = IOFuture, fut_context = 0, is_ready = Is_transmit_ready\<rparr>"

definition fut_is_ready :: "u32 \<Rightarrow> kernel \<Rightarrow> (bool \<times> kernel) effect" where
  "fut_is_ready ctx k =
     (let (t, k) = get_tick k in
      bindE (liftE (target_tick k ctx)) (\<lambda>needed_tick. Some (Inr (\<not> t < needed_tick, k))))"

definition poll :: "env \<Rightarrow> Future \<Rightarrow> kernel \<Rightarrow> (bool \<times> kernel) effect" where
  "poll E fut k =
     (case is_ready fut of
        Fut_is_ready \<Rightarrow> fut_is_ready (fut_context fut) k
      | Is_transmit_ready \<Rightarrow> let (r, tr) = is_transmit_ready (devs E) (k_trace k) in
          Some (Inr (r, upd_trace (\<lambda>_. tr) k)))"

definition add_future :: "env \<Rightarrow> Future \<Rightarrow> kernel \<Rightarrow> kernel effect" where
  "add_future E fut =
     guarded (\<lambda>k.
       if lastIdx k = FUTURE_COUNT then k_panics E ''Future list full!'' k
       else let i = lastIdx k + 1 in
         if 0 \<le> i \<and> i < FUTURE_COUNT
         then Some (Inr (k\<lparr>timeFutures := (timeFutures k)[nat i := fut], lastIdx := i\<rparr>))
         else Some (Inl (Undefined ''timeFutures: index out of bounds'')))"

definition delete_future :: "Future \<Rightarrow> kernel \<Rightarrow> kernel effect" where
  "delete_future fut k =
     (case fut_type fut of
        SleepFuture \<Rightarrow> bindE (free (k_heap k) (fut_context fut)) (\<lambda>h. Some (Inr (k\<lparr>k_heap := h\<rparr>)))
      | IOFuture \<Rightarrow> Some (Inr k))"

definition halt :: "kernel \<Rightarrow> kernel" where
  "halt k = upd_trace (\<lambda>tr. Hlt # tr) k"

partial_function (option) wait_poll :: "(kernel \<Rightarrow> kernel effect) \<Rightarrow> kernel \<Rightarrow> kernel effect" where
  "wait_poll irq k =
     (if SHOULD_POLL k then Some (Inr k)
      else case irq (halt k) of None \<Rightarrow> None
        | Some r \<Rightarrow> (case r of Inl e \<Rightarrow> Some (Inl e) | Inr k \<Rightarrow> wait_poll irq k))"

partial_function (option) await_loop :: "env \<Rightarrow> (kernel \<Rightarrow> kernel effect) \<Rightarrow> Future \<Rightarrow> kernel \<Rightarrow> kernel effect" where
  "await_loop E irq fut k =
     (case poll E fut k of None \<Rightarrow> None
      | Some r \<Rightarrow> (case r of Inl e \<Rightarrow> Some (Inl e)
        | Inr (ready, k) \<Rightarrow>
          if ready then Some (Inr k)
          else case wait_poll irq (k\<lparr>SHOULD_POLL := False\<rparr>) of None \<Rightarrow> None
            | Some r \<Rightarrow> (case r of Inl e \<Rightarrow> Some (Inl e) | Inr k \<Rightarrow> await_loop E irq fut k)))"

definition await :: "env \<Rightarrow> (kernel \<Rightarrow> kernel effect) \<Rightarrow> Future \<Rightarrow> kernel \<Rightarrow> kernel effect" where
  "await E irq fut k =
     bindE (if fut_type fut = SleepFuture then add_future E fut k else Some (Inr k)) (\<lambda>k.
     bindE (await_loop E irq fut k) (\<lambda>k. delete_future fut k))"

fun serial_write :: "env \<Rightarrow> (kernel \<Rightarrow> kernel effect) \<Rightarrow> u8 list \<Rightarrow> kernel \<Rightarrow> kernel effect" where
  "serial_write E irq [] k = Some (Inr k)"
| "serial_write E irq (c # cs) k =
     bindE (await E irq create_serial_future k) (\<lambda>k.
     case serial_putchar (devs E) c (k_trace k) of None \<Rightarrow> None
     | Some tr \<Rightarrow> serial_write E irq cs (upd_trace (\<lambda>_. tr) k))"

subsection \<open>sleep\<close>

partial_function (option) sleep_loop :: "(kernel \<Rightarrow> kernel effect) \<Rightarrow> u32 \<Rightarrow> kernel \<Rightarrow> kernel effect" where
  "sleep_loop irq end k =
     (case get_tick k of (t, k) \<Rightarrow>
        if t < end
        then (case irq (halt k) of None \<Rightarrow> None
              | Some r \<Rightarrow> (case r of Inl e \<Rightarrow> Some (Inl e) | Inr k \<Rightarrow> sleep_loop irq end k))
        else Some (Inr k))"

definition sleep :: "(kernel \<Rightarrow> kernel effect) \<Rightarrow> u32 \<Rightarrow> kernel \<Rightarrow> kernel effect" where
  "sleep irq time_s k = (let (start, k) = get_tick k in sleep_loop irq (start + time_s * RTC_FREQ) k)"

lemma unat_target:
  assumes "unat t + unat s * 256 < 2 ^ 32"
  shows "unat (t + s * RTC_FREQ) = unat t + unat s * 256"
proof -
  have "unat (s * RTC_FREQ) = unat s * 256"
    using assms unat_mult_lem [THEN iffD1, of s RTC_FREQ] by (simp add: RTC_FREQ_def)
  then show ?thesis using assms by (simp add: unat_add_lt)
qed

subsection \<open>A clock\<close>

text \<open>
  What the waits rely on: while \<open>good\<close> holds, the next interrupt advances the tick by one and
  keeps \<open>good\<close>, which the instructions and the flag of the waiting side do not touch.
\<close>

locale clock =
  fixes irq :: "kernel \<Rightarrow> kernel effect" and good :: "kernel \<Rightarrow> bool"
  assumes irq_ticks: "good k \<Longrightarrow> \<exists>k'. irq k = Some (Inr k') \<and> good k' \<and> tick k' = tick k + 1"
    and good_trace: "quiet f \<Longrightarrow> good k \<Longrightarrow> good (upd_trace f k)"
    and good_flag: "good k \<Longrightarrow> good (k\<lparr>SHOULD_POLL := b\<rparr>)"
begin

lemma get_tick_good: "good k \<Longrightarrow> good (snd (get_tick k)) \<and> fst (get_tick k) = tick k \<and> tick (snd (get_tick k)) = tick k"
  by (simp add: get_tick_def k_cli_def k_sti_def Let_def good_trace quiet_comp quiet_flags)

lemma sleep_loop_returns:
  "good k \<Longrightarrow> unat (tick k) + n = unat e \<Longrightarrow> \<exists>k'. sleep_loop irq e k = Some (Inr k') \<and> good k' \<and> tick k' = e"
proof (induction n arbitrary: k)
  case 0
  then have "tick k = e" by (simp add: word_unat_eq_iff)
  then show ?case using get_tick_good [OF 0(1)]
    by (subst sleep_loop.simps) (auto split: prod.split)
next
  case (Suc n)
  obtain k1 where k1: "get_tick k = (tick k, k1)" "good k1" "tick k1 = tick k"
    using get_tick_good [OF Suc.prems(1)] by (metis prod.collapse)
  have "good (halt k1)" using k1(2) by (simp add: halt_def good_trace quiet_flags)
  from irq_ticks [OF this] obtain k2 where k2: "irq (halt k1) = Some (Inr k2)" "good k2" "tick k2 = tick k + 1"
    using k1(3) by (auto simp: halt_def)
  have lt: "tick k < e" using Suc.prems(2) by (simp add: word_less_nat_alt)
  have "unat (tick k) + 1 < 2 ^ 32" using Suc.prems(2) unat_less32 [of e] by simp
  then have "unat (tick k2) + n = unat e"
    using Suc.prems(2) k2(3) by (simp add: unat_add_lt)
  from Suc.IH [OF k2(2) this] show ?case
    using k1(1) k2(1) lt by (subst sleep_loop.simps) simp
qed

lemma sleep_good:
  assumes "good k" "unat (tick k) + unat t * 256 < 2 ^ 32"
  shows "\<exists>k'. sleep irq t k = Some (Inr k') \<and> good k' \<and> unat (tick k') = unat (tick k) + unat t * 256"
proof -
  obtain k1 where k1: "get_tick k = (tick k, k1)" "good k1" "tick k1 = tick k"
    using get_tick_good [OF assms(1)] by (metis prod.collapse)
  have e: "unat (tick k + t * RTC_FREQ) = unat (tick k) + unat t * 256"
    using assms(2) by (rule unat_target)
  have "unat (tick k1) + unat t * 256 = unat (tick k + t * RTC_FREQ)" using e k1(3) by simp
  from sleep_loop_returns [OF k1(2) this] show ?thesis
    using k1(1) e by (auto simp: sleep_def)
qed

lemma sleep_returns:
  assumes "good k" "unat (tick k) + unat t * 256 < 2 ^ 32"
  shows "\<exists>k'. sleep irq t k = Some (Inr k') \<and> unat (tick k') = unat (tick k) + unat t * 256"
  using sleep_good [OF assms] by blast

end

text \<open>
  A clock that also wakes the executor when the tick has reached \<open>target\<close>, the tick at the
  address \<open>ctx\<close> for which the waiting future waits.
\<close>

locale waking_clock = clock +
  fixes ctx :: u32 and target :: u32
  assumes wakes: "good k \<Longrightarrow> irq k = Some (Inr k') \<Longrightarrow> SHOULD_POLL k' = (target \<le> tick k')"
    and good_target: "good k \<Longrightarrow> ctx \<noteq> 0 \<and> load32 (bytes (k_heap k)) ctx = target"
begin

lemma wait_poll_returns:
  "good k \<Longrightarrow> \<not> SHOULD_POLL k \<Longrightarrow> unat (tick k) + n = unat target \<Longrightarrow> 0 < n \<Longrightarrow>
    \<exists>k'. wait_poll irq k = Some (Inr k') \<and> good k' \<and> tick k' = target"
proof (induction n arbitrary: k)
  case (Suc n)
  have "good (halt k)" using Suc.prems(1) by (simp add: halt_def good_trace quiet_flags)
  from irq_ticks [OF this] obtain k2 where k2: "irq (halt k) = Some (Inr k2)" "good k2" "tick k2 = tick k + 1"
    by (auto simp: halt_def)
  have wake: "SHOULD_POLL k2 = (target \<le> tick k2)" by (rule wakes [OF \<open>good (halt k)\<close> k2(1)])
  have "unat (tick k) + 1 < 2 ^ 32" using Suc.prems(3) unat_less32 [of target] by simp
  then have t2: "unat (tick k2) + n = unat target"
    using Suc.prems(3) k2(3) by (simp add: unat_add_lt)
  show ?case
  proof (cases "n = 0")
    case True
    then have "tick k2 = target" using t2 by (simp add: word_unat_eq_iff)
    then have "wait_poll irq k2 = Some (Inr k2)" using wake by (subst wait_poll.simps) simp
    then show ?thesis
      using Suc.prems(2) k2 \<open>tick k2 = target\<close> by (subst wait_poll.simps) simp
  next
    case False
    then have "\<not> SHOULD_POLL k2" using wake t2 by (simp add: word_le_nat_alt)
    from Suc.IH [OF k2(2) this t2] False show ?thesis
      using Suc.prems(2) k2(1) by (subst wait_poll.simps) simp
  qed
qed simp

lemma poll_target:
  assumes "good k" "is_ready fut = Fut_is_ready" "fut_context fut = ctx"
  shows "poll E fut k = Some (Inr (target \<le> tick k, snd (get_tick k)))"
proof -
  have h: "k_heap (snd (get_tick k)) = k_heap k" "fst (get_tick k) = tick k"
    by (simp_all add: get_tick_def Let_def k_cli_def k_sti_def)
  then show ?thesis
    using assms good_target [OF assms(1)]
    by (simp add: poll_def fut_is_ready_def target_tick_def liftE_def case_prod_unfold Let_def not_less)
qed

lemma await_loop_returns:
  assumes "good k" "tick k \<le> target" "is_ready fut = Fut_is_ready" "fut_context fut = ctx"
  shows "\<exists>k'. await_loop E irq fut k = Some (Inr k') \<and> good k' \<and> tick k' = target"
proof -
  have finish: "\<exists>k'. await_loop E irq fut k = Some (Inr k') \<and> good k' \<and> tick k' = target"
    if "good k" "tick k = target" for k
    using poll_target [OF that(1) assms(3,4)] get_tick_good [OF that(1)] that(2)
    by (subst await_loop.simps) auto
  show ?thesis
  proof (cases "tick k = target")
    case True
    then show ?thesis by (rule finish [OF assms(1)])
  next
    case False
    define k1 where "k1 = (snd (get_tick k))\<lparr>SHOULD_POLL := False\<rparr>"
    have k1: "good k1" "\<not> SHOULD_POLL k1" "tick k1 = tick k"
      using get_tick_good [OF assms(1)] good_flag by (simp_all add: k1_def)
    have lt: "unat (tick k) < unat target" using False assms(2) by (simp add: word_le_nat_alt word_unat_eq_iff)
    then have "unat (tick k1) + (unat target - unat (tick k)) = unat target" using k1(3) by simp
    from wait_poll_returns [OF k1(1,2) this] lt obtain k2
      where k2: "wait_poll irq k1 = Some (Inr k2)" "good k2" "tick k2 = target" by auto
    have "\<not> target \<le> tick k" using lt by (simp add: word_le_nat_alt)
    then have "await_loop E irq fut k = await_loop E irq fut k2"
      using poll_target [OF assms(1,3,4)] k2(1) by (subst await_loop.simps) (simp add: k1_def)
    then show ?thesis using finish [OF k2(2,3)] by simp
  qed
qed

end

subsection \<open>The tick of the kernel\<close>

lemma process_time_futures_empty:
  assumes "lastIdx k = -1"
  shows "\<exists>f. process_time_futures k = Some (Inr (upd_trace f (k\<lparr>SHOULD_POLL := False\<rparr>))) \<and> quiet f"
  using assms
  by (intro exI [of _ "enable_interrupts \<circ> disable_interrupts"])
    (simp add: process_time_futures_def guarded_def k_cli_def k_sti_def quiet_comp quiet_flags)

lemma process_time_futures_first:
  assumes "lastIdx k \<noteq> -1" "fut_context (timeFutures k ! 0) = ctx" "ctx \<noteq> 0"
  shows "\<exists>f. process_time_futures k = Some (Inr (upd_trace f
    (k\<lparr>SHOULD_POLL := load32 (bytes (k_heap k)) ctx \<le> tick k\<rparr>))) \<and> quiet f"
proof -
  have u: "upd_trace f (k\<lparr>SHOULD_POLL := b\<rparr>)\<lparr>SHOULD_POLL := c\<rparr> = upd_trace f (k\<lparr>SHOULD_POLL := c\<rparr>)" for f b c
    by (simp add: upd_trace_def k_trace_def)
  let ?f = "enable_interrupts \<circ> (enable_interrupts \<circ> (disable_interrupts \<circ> disable_interrupts))"
  have "quiet ?f" by (intro quiet_comp quiet_flags)
  then show ?thesis
    using assms
    by (intro exI [of _ ?f]) (auto simp: process_time_futures_def guarded_def k_cli_def k_sti_def get_tick_def Let_def
        target_tick_def liftE_def u comp_assoc)
qed

end
