(* ===== verification/Heap_Run.thy ===== *)
theory Heap_Run
  imports Heap
begin

text \<open>
  Runs of the heap: the calls the rest of the kernel makes, and its writes to memory it owns.
\<close>

inductive heap_step :: "nat \<Rightarrow> heap \<Rightarrow> heap \<Rightarrow> bool" for hi :: nat where
  call_malloc: "unat sz \<le> heap_limit h \<Longrightarrow> malloc h sz = Some (Inr (p, h')) \<Longrightarrow> heap_step hi h h'"
| call_free: "unat p \<in> fst ` set (heap_live hi h) \<Longrightarrow> free h p = Some (Inr h') \<Longrightarrow> heap_step hi h h'"
| write_payload: "(p, n) \<in> set (heap_live hi h) \<Longrightarrow> in_payload p n x \<Longrightarrow>
    heap_step hi h (h\<lparr>bytes := (bytes h)(x := v)\<rparr>)"

inductive_cases heap_stepE: "heap_step hi h h'"

lemma hdr_upd:
  assumes "unat p + 8 \<le> 2 ^ 32" and "unat x < unat p \<or> unat p + 8 \<le> unat x"
    and "\<And>y. y \<noteq> x \<Longrightarrow> m' y = m y"
  shows "seg_size m' p = seg_size m p" "seg_next m' p = seg_next m p"
proof -
  have "m' y = m y" if "unat p \<le> unat y" "unat y < unat p + 8" for y
    using that assms(2) by (intro assms(3)) auto
  then show "seg_size m' p = seg_size m p" "seg_next m' p = seg_next m p"
    using assms(1) by (blast intro: hdr_cong)+
qed

lemma layout_payload:
  assumes "layout m a bs" and "(p, n) \<in> set (live a bs)" and "a + extent bs < 2 ^ 32"
    and "in_payload p n x" and "\<And>y. y \<noteq> x \<Longrightarrow> m' y = m y"
  shows "layout m' a bs"
  using assms
proof (induction m a bs rule: layout.induct)
  case (2 m a k bs)
  have p: "a + 8 + k + 8 \<le> p" using "2.prems"(2) by (auto dest: live_bounds)
  have u: "unat (of_nat a :: u32) = a" using "2.prems"(3) by (simp add: unat_of_nat32)
  have "seg_size m' (of_nat a) = seg_size m (of_nat a)" "seg_next m' (of_nat a) = seg_next m (of_nat a)"
    using "2.prems"(3,4) p by (auto simp: u intro!: hdr_upd [OF _ _ "2.prems"(5)])
  then show ?case using 2 by auto
next
  case (3 m a k bs)
  have u: "unat (of_nat a :: u32) = a" using "3.prems"(3) by (simp add: unat_of_nat32)
  have "a + 8 \<le> p" using "3.prems"(2) by (auto dest: live_bounds)
  then have h: "seg_size m' (of_nat a) = seg_size m (of_nat a)"
    using "3.prems"(3,4) by (auto simp: u intro!: hdr_upd [OF _ _ "3.prems"(5)])
  show ?case
  proof (cases "p = a + 8 \<and> n = k")
    case True
    have "layout m (a + 8 + k) bs" using "3.prems"(1) by simp
    then have "layout m' (a + 8 + k) bs"
      by (rule layout_frame) (use "3.prems"(3,4) True in \<open>auto intro!: "3.prems"(5)\<close>)
    then show ?thesis using "3.prems"(1) h by simp
  next
    case False
    then show ?thesis using 3 h by auto
  qed
qed simp

lemma write_payload_rel:
  assumes "heap_inv hi h" and "(p, n) \<in> set (heap_live hi h)" and "in_payload p n x"
  shows "heap_rel hi (heap_blocks hi h) (h\<lparr>bytes := (bytes h)(x := v)\<rparr>)"
  using assms layout_payload [of "bytes h" "unat (freeSegment h)" "heap_blocks hi h" p n x
      "(bytes h)(x := v)"]
  by (auto simp: heap_inv_def heap_rel_def heap_live_def)

lemma store32_payload:
  assumes "heap_inv hi h" and "(p, n) \<in> set (heap_live hi h)" and "in_payload p n a" "in_payload p n (a + 1)"
    "in_payload p n (a + 2)" "in_payload p n (a + 3)"
  shows "heap_inv hi (h\<lparr>bytes := store32 (bytes h) a v\<rparr>)
    \<and> heap_blocks hi (h\<lparr>bytes := store32 (bytes h) a v\<rparr>) = heap_blocks hi h"
proof -
  let ?w = "\<lambda>h x b. h\<lparr>bytes := (bytes h)(x := b)\<rparr>"
  let ?same = "\<lambda>g. heap_inv hi g \<and> heap_blocks hi g = heap_blocks hi h \<and> freeSegment g = freeSegment h"
  have keep: "?same (?w g x b)" if "?same g" "in_payload p n x" for g x b
  proof -
    have "(p, n) \<in> set (heap_live hi g)" using assms(2) that(1) by (simp add: heap_live_def)
    then have "heap_rel hi (heap_blocks hi g) (?w g x b)" using that by (intro write_payload_rel) auto
    then show ?thesis using that(1) by (auto dest: heap_rel_inv heap_rel_blocks)
  qed
  have "?same (?w (?w (?w (?w h a b0) (a + 1) b1) (a + 2) b2) (a + 3) b3)" for b0 b1 b2 b3
    using assms by (intro keep) simp_all
  then show ?thesis by (simp add: store32_def)
qed

lemma heap_step_inv:
  assumes "heap_step hi h h'" and "heap_inv hi h"
  shows "heap_inv hi h' \<and> freeSegment h' = freeSegment h"
  using assms(1)
proof (cases rule: heap_step.cases)
  case (call_malloc sz p)
  with assms(2) show ?thesis by (auto elim: malloc_SomeE)
next
  case (call_free p)
  obtain h'' where "free h p = Some (Inr h'')" "heap_inv hi h''" "freeSegment h'' = freeSegment h"
    using assms(2) call_free(1) by (rule free_SomeE)
  with call_free(2) show ?thesis by simp
next
  case (write_payload p n x v)
  then show ?thesis using heap_rel_inv [OF write_payload_rel [OF assms(2)]] by simp
qed

interpretation heap_runs: invariant_system "heap_step hi"
    "\<lambda>h. heap_inv hi h \<and> freeSegment h = base" for hi base
  by unfold_locales (auto dest: heap_step_inv)

text \<open>Payload addresses are multiples of 8 in every state a run can reach.\<close>

definition heap_aligned :: "nat \<Rightarrow> heap \<Rightarrow> bool" where
  "heap_aligned hi h \<longleftrightarrow> (\<forall>(p, n) \<in> set (heap_live hi h). p mod 8 = 0)"

lemma heap_step_aligned:
  assumes "heap_step hi h h'" and "heap_inv hi h \<and> heap_aligned hi h"
  shows "heap_inv hi h' \<and> heap_aligned hi h'"
  using assms(1)
proof (cases rule: heap_step.cases)
  case (call_malloc sz p)
  have inv: "heap_inv hi h" using assms(2) by simp
  from inv call_malloc show ?thesis
  proof (rule malloc_SomeE)
    assume s: "alloc_spec (unat sz) (unat (freeSegment h)) (heap_blocks hi h)
        = Some (unat p, heap_blocks hi h')" "heap_inv hi h'"
    have "unat p mod 8 = 0"
      using alloc_spec_aligned [OF s(1)] call_malloc(1) by (simp add: heap_limit_def)
    moreover obtain k xs ys where "heap_live hi h' = xs @ (unat p, k) # ys" "heap_live hi h = xs @ ys"
      using kheap.alloc_owned [OF inv call_malloc] by blast
    ultimately show ?thesis using assms(2) s(2) by (auto simp: heap_aligned_def)
  qed
next
  case (call_free p)
  obtain h'' where "free h p = Some (Inr h'')" "heap_inv hi h''"
    "heap_live hi h'' = filter (\<lambda>(q, n). q \<noteq> unat p) (heap_live hi h)"
    using kheap.dealloc_ok [of hi h p] assms(2) call_free(1) by blast
  with call_free(2) assms(2) show ?thesis by (auto simp: heap_aligned_def)
next
  case (write_payload p n x v)
  have r: "heap_rel hi (heap_blocks hi h) h'"
    using write_payload_rel [of hi h] assms(2) write_payload by simp
  then have "heap_live hi h' = heap_live hi h"
    using write_payload(1) by (simp add: heap_live_def heap_rel_blocks)
  with r assms(2) show ?thesis by (simp add: heap_aligned_def heap_rel_inv)
qed

interpretation heap_alignment: invariant_system "heap_step hi" "\<lambda>h. heap_inv hi h \<and> heap_aligned hi h" for hi
  by unfold_locales (rule heap_step_aligned)

subsection \<open>A small heap for the witnesses\<close>

definition small_heap :: heap where
  "small_heap = \<lparr>bytes = set_next (set_size (\<lambda>_. 0) 4096 104) 4096 0, freeSegment = 4096\<rparr>"

lemma small_heap_rel: "heap_rel 4208 [Free 104] small_heap"
  by (simp add: heap_rel_def small_heap_def hdr_self hdr_same coalesced_Cons_iff)

lemmas small_heap_facts = small_heap_rel [THEN heap_rel_inv] small_heap_rel [THEN heap_rel_blocks]

lemma small_heap_base [simp]: "freeSegment small_heap = 4096"
  by (simp add: small_heap_def)

lemma carve_20 [simp]: "carve 4208 20 = 4176"
  by (simp add: carve_def)

subsection \<open>Correctness of malloc and free\<close>

text \<open>
  C1. \<open>malloc\<close> implements the first-fit allocation on the abstract block list: for a request
  that does not exceed the address of the heap it always returns; the result, the new block
  list and the panic are those of \<open>alloc_spec\<close>, the invariant is kept, and no byte outside the
  heap region or inside a live block (header included) is changed.
\<close>

theorem malloc_implements_spec:
  assumes "heap_inv hi h" and "unat sz \<le> unat (freeSegment h)"
  shows "(alloc_spec (unat sz) (unat (freeSegment h)) (heap_blocks hi h) = None
        \<and> malloc h sz = Some (Inl (Panic ''Could not allocator memory!'')))
    \<or> (\<exists>p bs h'. alloc_spec (unat sz) (unat (freeSegment h)) (heap_blocks hi h) = Some (unat p, bs)
        \<and> malloc h sz = Some (Inr (p, h')) \<and> heap_inv hi h' \<and> heap_blocks hi h' = bs
        \<and> freeSegment h' = freeSegment h
        \<and> untouched (bytes h) (bytes h') (unat (freeSegment h)) (heap_blocks hi h))"
proof -
  have l: "unat sz \<le> heap_limit h" using assms(2) by (simp add: heap_limit_def)
  from kheap.alloc_result [OF assms(1) l] show ?thesis
  proof (elim disjE exE)
    fix p h' assume m: "malloc h sz = Some (Inr (p, h'))"
    from assms(1) l m show ?thesis by (rule malloc_SomeE) (use m in blast)
  next
    assume "malloc h sz = Some (Inl out_of_memory)"
    then show ?thesis
      using malloc_refines [OF assms] by (auto simp: out_of_memory_def split: option.splits)
  qed
qed

theorem malloc_implements_spec_witness:
  "\<exists>h'. malloc small_heap 20 = Some (Inr (4184, h')) \<and> heap_blocks 4208 h' = [Free 72, Used 24]"
proof -
  have "unat p = 4184 \<Longrightarrow> p = 4184" for p :: u32
    by (simp add: word_unat_eq_iff)
  then show ?thesis
    using malloc_implements_spec [of 4208 small_heap 20]
    by (auto simp: small_heap_facts alloc_spec.simps)
qed

text \<open>
  C18. A pointer returned by \<open>malloc\<close> is 8-aligned, its payload of at least the requested size
  lies in the heap behind the head of the free list, it overlaps no payload that was live
  before, and the contents of those payloads are unchanged.
\<close>

theorem malloc_result_safe:
  assumes "heap_inv hi h" and "unat sz \<le> unat (freeSegment h)" and "malloc h sz = Some (Inr (p, h'))"
  shows "unat p mod 8 = 0 \<and> unat (freeSegment h) + 16 \<le> unat p \<and> unat p + unat sz \<le> hi
    \<and> (\<forall>(q, k) \<in> set (heap_live hi h). (unat p + unat sz \<le> q \<or> q + k \<le> unat p)
         \<and> (\<forall>x. in_payload q k x \<longrightarrow> bytes h' x = bytes h x))"
proof -
  have l: "unat sz \<le> heap_limit h" using assms(2) by (simp add: heap_limit_def)
  obtain n bs where bs: "heap_blocks hi h = Free n # bs" using assms(1) by (rule heap_invE)
  have s: "alloc_spec (unat sz) (unat (freeSegment h)) (heap_blocks hi h)
      = Some (unat p, heap_blocks hi h')" "heap_inv hi h'" "freeSegment h' = freeSegment h"
    using assms(1) l assms(3) by (auto elim: malloc_SomeE)
  obtain k xs ys where k: "unat sz \<le> k" "heap_live hi h' = xs @ (unat p, k) # ys"
    using kheap.alloc_owned [OF assms(1) l assms(3)] by blast
  obtain n' bs' where bs': "heap_blocks hi h' = Free n' # bs'" "heap_rel hi (Free n' # bs') h'"
    using s(2) by (rule heap_invE)
  have "unat (freeSegment h) + 8 + n' + 8 \<le> unat p" "unat p + k \<le> hi"
    using live_bounds [of "unat p" k "unat (freeSegment h) + 8 + n'" bs'] k(2) bs'(2) s(3)
    by (auto simp: heap_live_def bs'(1) heap_rel_def)
  moreover have "(unat p + unat sz \<le> q \<or> q + j \<le> unat p) \<and> (\<forall>x. in_payload q j x \<longrightarrow> bytes h' x = bytes h x)"
    if "(q, j) \<in> set (heap_live hi h)" for q j
    using kheap.alloc_fresh [OF assms(1) l assms(3) that] kheap.alloc_cells [OF assms(1) l assms(3) that]
    by blast
  ultimately show ?thesis using alloc_spec_aligned [OF s(1) assms(2)] k(1) by auto
qed

theorem malloc_result_safe_witness:
  "\<exists>p h'. malloc small_heap 20 = Some (Inr (p, h')) \<and> unat p mod 8 = 0 \<and> unat p + 20 \<le> 4208"
proof -
  have "malloc small_heap 20 \<noteq> Some (Inl out_of_memory)"
    using malloc_refines [of 4208 small_heap 20]
    by (auto simp: small_heap_facts alloc_spec.simps)
  then obtain p h' where m: "malloc small_heap 20 = Some (Inr (p, h'))"
    using kheap.alloc_result [of 4208 small_heap 20] by (auto simp: small_heap_facts heap_limit_def)
  with malloc_result_safe [of 4208 small_heap 20 p h'] show ?thesis
    by (auto simp: small_heap_facts)
qed

text \<open>
  \<open>malloc\<close> always returns or panics. It returns a block whenever some free segment has room
  for the request and 15 bytes of padding and header, and it panics when every free segment is
  smaller than the request and one header.
\<close>

theorem malloc_succeeds_when_it_fits:
  assumes "heap_inv hi h" and "unat sz \<le> unat (freeSegment h)"
  shows "((\<exists>(q, n) \<in> set (free_segs (unat (freeSegment h)) (heap_blocks hi h)). unat sz + 15 \<le> n)
        \<longrightarrow> (\<exists>p h'. malloc h sz = Some (Inr (p, h'))))
    \<and> ((\<forall>(q, n) \<in> set (free_segs (unat (freeSegment h)) (heap_blocks hi h)). n < unat sz + 8)
        \<longrightarrow> malloc h sz = Some (Inl (Panic ''Could not allocator memory!'')))"
proof -
  let ?a = "unat (freeSegment h)" and ?bs = "heap_blocks hi h"
  have c: "carve (q + 8 + n) (unat sz) + 8 + unat sz \<le> q + 8 + n"
      "q + 8 + n < carve (q + 8 + n) (unat sz) + unat sz + 16"
    if "(q, n) \<in> set (free_segs ?a ?bs)" for q n
    using that free_segs_bounds [OF that] assms(2) carve_bounds [of "unat sz" "q + 8 + n"] by auto
  have "alloc_spec (unat sz) ?a ?bs \<noteq> None"
    if "(q, n) \<in> set (free_segs ?a ?bs)" "unat sz + 15 \<le> n" for q n
    using that c(2) [OF that(1)] by (auto simp: alloc_spec_None intro!: bexI [OF _ that(1)])
  moreover have "alloc_spec (unat sz) ?a ?bs = None"
    if "\<forall>(q, n) \<in> set (free_segs ?a ?bs). n < unat sz + 8"
    using that c(1) by (fastforce simp: alloc_spec_None)
  ultimately show ?thesis using malloc_refines [OF assms] by (fastforce split: option.splits)
qed

theorem malloc_succeeds_when_it_fits_witness:
  "(\<exists>p h'. malloc small_heap 89 = Some (Inr (p, h')))
    \<and> malloc small_heap 97 = Some (Inl (Panic ''Could not allocator memory!''))"
  using malloc_succeeds_when_it_fits [of 4208 small_heap 89]
    malloc_succeeds_when_it_fits [of 4208 small_heap 97]
  by (simp add: small_heap_facts)

text \<open>
  C3. \<open>free\<close> of a live block always returns. The new block list is the old one with that block
  on the free list and all neighbouring free segments merged; the invariant is kept, and no
  byte of another live block or outside the heap is changed.
\<close>

theorem free_implements_spec:
  assumes "heap_inv hi h" and "unat p \<in> fst ` set (heap_live hi h)"
  shows "\<exists>h'. free h p = Some (Inr h') \<and> heap_inv hi h' \<and> freeSegment h' = freeSegment h
    \<and> heap_blocks hi h' = coalesce (release (unat p) (unat (freeSegment h)) (heap_blocks hi h))
    \<and> heap_live hi h' = filter (\<lambda>(q, n). q \<noteq> unat p) (heap_live hi h)
    \<and> untouched (bytes h) (bytes h') (unat (freeSegment h))
        (release (unat p) (unat (freeSegment h)) (heap_blocks hi h))"
  using assms
proof (rule free_SomeE)
  fix h' assume "free h p = Some (Inr h')" "heap_inv hi h'" "freeSegment h' = freeSegment h"
    "heap_blocks hi h' = free_spec (unat p) (unat (freeSegment h)) (heap_blocks hi h)"
    "untouched (bytes h) (bytes h') (unat (freeSegment h))
        (release (unat p) (unat (freeSegment h)) (heap_blocks hi h))"
  moreover from this have "heap_live hi h' = filter (\<lambda>(q, n). q \<noteq> unat p) (heap_live hi h)"
    by (simp add: heap_live_def live_free_spec)
  ultimately show ?thesis by (auto simp: free_spec_def)
qed

lemma small_heap_malloc:
  obtains h' where "malloc small_heap 20 = Some (Inr (4184, h'))" "heap_inv 4208 h'"
    "heap_blocks 4208 h' = [Free 72, Used 24]" "freeSegment h' = 4096"
  using malloc_refines [of 4208 small_heap 20]
  by (auto simp: small_heap_facts alloc_spec.simps)

theorem free_implements_spec_witness:
  "\<exists>h h'. malloc small_heap 20 = Some (Inr (4184, h)) \<and> free h 4184 = Some (Inr h')
    \<and> heap_blocks 4208 h' = [Free 104]"
proof (rule small_heap_malloc)
  fix h assume h: "malloc small_heap 20 = Some (Inr (4184, h))" "heap_inv 4208 h"
    "heap_blocks 4208 h = [Free 72, Used 24]" "freeSegment h = 4096"
  then show ?thesis
    using free_implements_spec [OF h(2), of 4184] by (auto simp: heap_live_def)
qed

text \<open>
  C19. Allocating and freeing at once restores the block list exactly: the free list has the
  same segments at the same addresses with the same sizes.
\<close>

theorem malloc_free_roundtrip:
  assumes "heap_inv hi h" and "unat sz \<le> unat (freeSegment h)" and "malloc h sz = Some (Inr (p, h'))"
  shows "\<exists>h''. free h' p = Some (Inr h'') \<and> heap_inv hi h'' \<and> heap_blocks hi h'' = heap_blocks hi h"
proof -
  have l: "unat sz \<le> heap_limit h" using assms(2) by (simp add: heap_limit_def)
  have s: "alloc_spec (unat sz) (unat (freeSegment h)) (heap_blocks hi h)
      = Some (unat p, heap_blocks hi h')" "heap_inv hi h'" "freeSegment h' = freeSegment h"
    using assms(1) l assms(3) by (auto elim: malloc_SomeE)
  have "unat p \<in> fst ` set (heap_live hi h')"
    using kheap.alloc_owned [OF assms(1) l assms(3)] by force
  with s(2) show ?thesis
  proof (rule free_SomeE)
    fix h'' assume "free h' p = Some (Inr h'')" "heap_inv hi h''"
      "heap_blocks hi h'' = free_spec (unat p) (unat (freeSegment h')) (heap_blocks hi h')"
    moreover have "coalesced (heap_blocks hi h)"
      using assms(1) by (simp add: heap_inv_def heap_rel_def)
    ultimately show ?thesis using free_alloc_spec [OF s(1) assms(2)] s(3) by auto
  qed
qed

theorem malloc_free_roundtrip_witness:
  "\<exists>h h'. malloc small_heap 20 = Some (Inr (4184, h)) \<and> free h 4184 = Some (Inr h')
    \<and> heap_blocks 4208 h' = heap_blocks 4208 small_heap"
proof (rule small_heap_malloc)
  fix h assume "malloc small_heap 20 = Some (Inr (4184, h))"
  then show ?thesis
    using malloc_free_roundtrip [of 4208 small_heap 20 4184 h] by (auto simp: small_heap_facts)
qed

text \<open>
  C2. In every state that calls of \<open>malloc\<close> and \<open>free\<close> and writes to owned payloads can reach
  from a well-formed heap: the payloads handed out are 8-aligned, lie inside the heap, overlap
  neither each other nor a free segment, and no two free segments are adjacent.
\<close>

theorem heap_runs_safe:
  assumes "(heap_step hi)\<^sup>*\<^sup>* h h'" and "heap_inv hi h" and "heap_aligned hi h"
  shows "(\<forall>(p, n) \<in> set (heap_live hi h'). p mod 8 = 0 \<and> unat (freeSegment h) < p \<and> p + n \<le> hi
      \<and> (\<forall>(q, k) \<in> set (heap_live hi h'). (q, k) = (p, n) \<or> p + n \<le> q \<or> q + k \<le> p)
      \<and> (\<forall>(q, k) \<in> set (free_segs (unat (freeSegment h)) (heap_blocks hi h')).
           p + n \<le> q \<or> q + 8 + k \<le> p))
    \<and> coalesced (heap_blocks hi h')"
proof -
  have inv: "heap_inv hi h'" "heap_aligned hi h'" "freeSegment h' = freeSegment h"
    using heap_alignment.reach_inv [OF assms(1)] heap_runs.reach_inv [OF assms(1), of "freeSegment h"]
      assms(2,3) by auto
  let ?a = "unat (freeSegment h)" and ?bs = "heap_blocks hi h'"
  have r: "?a + extent ?bs = hi" "coalesced ?bs"
    using inv(1,3) by (auto simp: heap_inv_def heap_rel_def)
  have l: "heap_live hi h' = live ?a ?bs" by (simp add: heap_live_def inv(3))
  show ?thesis
  proof (intro conjI ballI r(2), clarify)
    fix p n assume p: "(p, n) \<in> set (heap_live hi h')"
    have "(q, k) = (p, n) \<or> p + n \<le> q \<or> q + k \<le> p" if "(q, k) \<in> set (heap_live hi h')" for q k
    proof (cases "q = p")
      case True
      then have "k = n" using that p live_unique unfolding l by blast
      with True show ?thesis by simp
    next
      case False
      then show ?thesis using kheap.owned_apart [OF inv(1) p that] by auto
    qed
    moreover have "p + n \<le> q \<or> q + 8 + k \<le> p" if "(q, k) \<in> set (free_segs ?a ?bs)" for q k
      using live_disjoint_free [of p n ?a ?bs q k] p that unfolding l by auto
    ultimately show "p mod 8 = 0 \<and> ?a < p \<and> p + n \<le> hi
      \<and> (\<forall>(q, k) \<in> set (heap_live hi h'). (q, k) = (p, n) \<or> p + n \<le> q \<or> q + k \<le> p)
      \<and> (\<forall>(q, k) \<in> set (free_segs ?a ?bs). p + n \<le> q \<or> q + 8 + k \<le> p)"
      using inv(2) p live_bounds [of p n ?a ?bs] r(1) unfolding l heap_aligned_def by auto
  qed
qed

theorem heap_runs_safe_witness:
  "\<exists>h'. (heap_step 4208)\<^sup>*\<^sup>* small_heap h' \<and> heap_live 4208 h' = [(4184, 24)] \<and> coalesced (heap_blocks 4208 h')"
proof (rule small_heap_malloc)
  fix h assume h: "malloc small_heap 20 = Some (Inr (4184, h))" "heap_blocks 4208 h = [Free 72, Used 24]"
    "freeSegment h = 4096"
  then have s: "(heap_step 4208)\<^sup>*\<^sup>* small_heap h"
    by (intro r_into_rtranclp heap_step.call_malloc [of 20]) (simp_all add: heap_limit_def)
  have "coalesced (heap_blocks 4208 h)"
    using heap_runs_safe [OF s] by (simp add: small_heap_facts heap_aligned_def heap_live_def)
  with s h show ?thesis by (auto simp: heap_live_def)
qed

text \<open>
  C37. A request larger than every address of the heap is not refused: \<open>end_ptr - size\<close> wraps
  around, the test against the start of the segment passes, and \<open>malloc\<close> returns a block
  that reaches beyond the end of the heap.
\<close>

theorem malloc_oversized_request_returned:
  assumes "heap_inv hi h" and "hi < unat sz" and "unat sz + 16 \<le> 2 ^ 32"
  shows "\<exists>p h'. malloc h sz = Some (Inr (p, h')) \<and> hi < unat p + unat sz"
proof -
  let ?a = "unat (freeSegment h)"
  obtain n bs where bs: "heap_rel hi (Free n # bs) h" using assms(1) by (rule heap_invE)
  define e where "e = ?a + 8 + n"
  define q where "q = 2 ^ 32 + e - unat sz"
  have e: "e \<le> hi" "?a + 8 \<le> e" "0 < ?a" "e < 2 ^ 32"
    using bs by (auto simp: heap_rel_def e_def)
  have q: "q < 2 ^ 32" "e + 16 \<le> q" "q + unat sz = 2 ^ 32 + e"
    using e assms(2,3) by (auto simp: q_def)
  have sz: "seg_size (bytes h) (freeSegment h) = of_nat n" and nz: "freeSegment h \<noteq> 0"
    using bs by (auto simp: heap_rel_def)
  have "unat (freeSegment h + of_nat n + 8) = e"
    using e(4) unat_of_nat32 [of e] by (simp add: e_def ac_simps)
  then have ptr: "unat (freeSegment h + of_nat n + 8 - sz) = q"
    using e(1) assms(2,3) by (simp add: unat_sub_if' q_def)
  define w where "w = freeSegment h + of_nat n + 8 - sz"
  have "unat (w mod 8) \<le> unat w" using ptr q e by (simp add: w_def unat_mod8)
  then have w1: "unat (w - w mod 8) = q - q mod 8"
    using ptr by (simp add: unat_sub_le unat_mod8 w_def)
  have "q mod 8 < 8" by simp
  then have w2: "unat (w - w mod 8 - 8) = q - q mod 8 - 8"
    using w1 q(2) e by (subst unat_sub_le) simp_all
  have "unat (freeSegment h + 8) = ?a + 8"
    using unat_add_lt [of "freeSegment h" 8] e by simp
  then have "\<not> w - w mod 8 - 8 < freeSegment h + 8"
    using w2 q(2) e \<open>q mod 8 < 8\<close> by (simp add: word_less_nat_alt)
  then have "\<exists>m'. malloc_loop (bytes h) sz (freeSegment h) = Some (Inr (w - w mod 8, m'))"
    by (subst malloc_loop.simps) (simp add: nz sz Let_def flip: w_def)
  moreover have "hi < unat (w - w mod 8) + unat sz"
    using w1 q bs \<open>q mod 8 < 8\<close> e unfolding heap_rel_def by linarith
  ultimately show ?thesis by (auto simp: malloc_def)
qed

theorem malloc_oversized_request_returned_witness:
  "\<exists>p h'. malloc small_heap 0x80000000 = Some (Inr (p, h')) \<and> 4208 < unat p + 0x80000000"
  using malloc_oversized_request_returned [of 4208 small_heap "0x80000000"]
  by (simp add: small_heap_facts)
end
