(* ===== verification/Rtc.thy ===== *)
theory Rtc
  imports Future_List Heap_Run
begin

text \<open>
  kernel/kernel/io/rtc.c: the real-time clock behind the CMOS ports. The documented behaviour of
  the chip is that a read of the data port returns the register selected last; the registers at a
  time are the parameter \<open>reg\<close> of the hypothesis. A wait for the end of an update may be for
  ever.
\<close>

unbundle bit_operations_syntax

definition CMOS_CONTROL_REG :: u16 where "CMOS_CONTROL_REG = 0x70"
definition CMOS_DATA_REG :: u16 where "CMOS_DATA_REG = 0x71"
definition SECONDS_REG :: u8 where "SECONDS_REG = 0x00"
definition MINUTES_REG :: u8 where "MINUTES_REG = 0x02"
definition HOURS_REG :: u8 where "HOURS_REG = 0x04"
definition WEEK_DAY_REG :: u8 where "WEEK_DAY_REG = 0x06"
definition DAY_OF_MONTH_REG :: u8 where "DAY_OF_MONTH_REG = 0x07"
definition MONTH_REG :: u8 where "MONTH_REG = 0x08"
definition YEAR_REG :: u8 where "YEAR_REG = 0x09"
definition CENTURY_REG :: u8 where "CENTURY_REG = 0x32"
definition STATUS_REG_A :: u8 where "STATUS_REG_A = 0x0A"
definition STATUS_REG_B :: u8 where "STATUS_REG_B = 0x0B"

record DateTime =
  seconds :: u8
  minutes :: u8
  hours :: u8
  week_day :: u8
  day_of_month :: u8
  month :: u8
  year :: u8
  century :: u8

definition disable_cmos_nmi :: "trace \<Rightarrow> trace" where
  "disable_cmos_nmi tr = outb CMOS_CONTROL_REG (push_bit 7 1 OR 0x0F) tr"

definition select_cmos_register :: "u8 \<Rightarrow> trace \<Rightarrow> trace" where
  "select_cmos_register r tr = outb CMOS_CONTROL_REG r tr"

definition read_cmos_register :: "devices \<Rightarrow> u8 \<Rightarrow> trace \<Rightarrow> u8 \<times> trace" where
  "read_cmos_register D r tr = inb D CMOS_DATA_REG (select_cmos_register r tr)"

definition write_cmos_register :: "u8 \<Rightarrow> u8 \<Rightarrow> trace \<Rightarrow> trace" where
  "write_cmos_register r v tr = outb CMOS_DATA_REG v (select_cmos_register r tr)"

definition is_update_in_progress :: "devices \<Rightarrow> trace \<Rightarrow> bool \<times> trace" where
  "is_update_in_progress D tr =
     (let (ret, tr) = read_cmos_register D STATUS_REG_A tr in (drop_bit 7 ret AND 1 = 1, tr))"

partial_function (option) wait_update :: "devices \<Rightarrow> trace \<Rightarrow> trace option" where
  "wait_update D tr =
     (case is_update_in_progress D tr of (busy, tr) \<Rightarrow> if busy then wait_update D tr else Some tr)"

declare wait_update.simps [code]

definition read_date :: "devices \<Rightarrow> DateTime \<Rightarrow> trace \<Rightarrow> DateTime \<times> trace" where
  "read_date D d tr =
     (let (s, tr) = read_cmos_register D SECONDS_REG tr;
          (mi, tr) = read_cmos_register D MINUTES_REG tr;
          (h, tr) = read_cmos_register D HOURS_REG tr;
          (w, tr) = read_cmos_register D WEEK_DAY_REG tr;
          (dm, tr) = read_cmos_register D DAY_OF_MONTH_REG tr;
          (mo, tr) = read_cmos_register D MONTH_REG tr;
          (y, tr) = read_cmos_register D YEAR_REG tr;
          (c, tr) = read_cmos_register D CENTURY_REG tr
      in (\<lparr>seconds = s, minutes = mi, hours = h, week_day = w, day_of_month = dm, month = mo,
           year = y, century = c\<rparr>, tr))"

definition write_date :: "DateTime \<Rightarrow> DateTime \<Rightarrow> trace \<Rightarrow> DateTime \<times> trace" where
  "write_date junk d tr =
     (let tr = write_cmos_register SECONDS_REG (seconds d) tr;
          tr = write_cmos_register MINUTES_REG (minutes d) tr;
          tr = write_cmos_register HOURS_REG (hours d) tr;
          tr = write_cmos_register WEEK_DAY_REG (week_day d) tr;
          tr = write_cmos_register DAY_OF_MONTH_REG (day_of_month d) tr;
          tr = write_cmos_register MONTH_REG (month d) tr;
          tr = write_cmos_register YEAR_REG (year d) tr;
          tr = write_cmos_register CENTURY_REG (century d) tr
      in (junk, tr))"

definition guarded_op :: "devices \<Rightarrow> (DateTime \<Rightarrow> trace \<Rightarrow> DateTime \<times> trace) \<Rightarrow> DateTime \<Rightarrow> trace \<Rightarrow>
    (DateTime \<times> trace) option" where
  "guarded_op D f d tr =
     (case wait_update D tr of None \<Rightarrow> None
      | Some tr \<Rightarrow> let (d, tr) = f d tr in
          (case wait_update D tr of None \<Rightarrow> None | Some tr \<Rightarrow> Some (d, tr)))"

definition get_date_time :: "devices \<Rightarrow> DateTime \<Rightarrow> trace \<Rightarrow> (DateTime \<times> trace) option" where
  "get_date_time D junk tr = guarded_op D (read_date D) junk tr"

definition set_date_time :: "devices \<Rightarrow> DateTime \<Rightarrow> DateTime \<Rightarrow> trace \<Rightarrow> trace option" where
  "set_date_time D junk d tr = map_option snd (guarded_op D (write_date junk) d tr)"

subsection \<open>Interrupts of the clock\<close>

definition configure_rtc_interrupts :: "devices \<Rightarrow> trace \<Rightarrow> trace" where
  "configure_rtc_interrupts D tr =
     (let tr = disable_cmos_nmi tr;
          tr = select_cmos_register 0x8B tr;
          (prev, tr) = inb D CMOS_DATA_REG tr;
          tr = outb CMOS_CONTROL_REG 0x8B tr;
          tr = outb CMOS_DATA_REG (prev OR 0x40) tr
      in write_cmos_register 0x0A 1 tr)"

definition process_rtc_interrupt :: "env \<Rightarrow> kernel \<Rightarrow> kernel effect" where
  "process_rtc_interrupt E k =
     bindE (process_tick k) (\<lambda>k.
     let k = k_outb CMOS_CONTROL_REG 0x0C k in Some (Inr (snd (k_inb E CMOS_DATA_REG k))))"

definition register_rtc_driver :: "env \<Rightarrow> kernel \<Rightarrow> kernel effect" where
  "register_rtc_driver E =
     guarded (\<lambda>k. register_interrupt E PIC_2_OFFSET Process_rtc_interrupt
       (upd_trace (configure_rtc_interrupts (devs E)) k))"

definition configure_rtc :: "env \<Rightarrow> kernel \<Rightarrow> kernel effect" where
  "configure_rtc E k =
     (let k = upd_trace (\<lambda>tr. snd (read_cmos_register (devs E) STATUS_REG_B tr)) k;
          flags = 0 OR push_bit 1 1 OR push_bit 2 1;
          k = upd_trace (write_cmos_register STATUS_REG_B flags) k
      in register_rtc_driver E k)"

text \<open>The functions the kernel registers for interrupts.\<close>

fun run_irq :: "env \<Rightarrow> irq_func \<Rightarrow> kernel \<Rightarrow> kernel effect" where
  "run_irq E Uart_irq = uart_irq"
| "run_irq E Process_rtc_interrupt = process_rtc_interrupt E"

subsection \<open>Printing the date\<close>

definition print_date_time :: "env \<Rightarrow> DateTime \<Rightarrow> kernel \<Rightarrow> kernel effect" where
  "print_date_time E d =
     k_LOG E ''kernel/io/rtc.c'' 98
       ''DateTime { seconds: %d, minutes: %d, hours: %d, day_of_month: %d, month: %d, year: %d, century: %d }''
       [VWord (ucast (seconds d)), VWord (ucast (minutes d)), VWord (ucast (hours d)),
        VWord (ucast (day_of_month d)), VWord (ucast (month d)), VWord (ucast (year d)),
        VWord (ucast (century d))]"

definition get_timestamp_wrapper :: "u8 list \<Rightarrow> u32 \<Rightarrow> u8 list \<Rightarrow> vslot list \<Rightarrow> kerror + (u8 list \<times> u32)" where
  "get_timestamp_wrapper dst sz fmt args = vsnprintf dst sz fmt args"

definition get_timestamp :: "devices \<Rightarrow> DateTime \<Rightarrow> u8 list \<Rightarrow> trace \<Rightarrow> ((u8 list \<times> u32) \<times> trace) effect" where
  "get_timestamp D junk dst tr =
     (case get_date_time D junk tr of None \<Rightarrow> None
      | Some (d, tr) \<Rightarrow>
        bindE (liftE (get_timestamp_wrapper dst 100 (lit ''[%d%d-%d-%dT%d:%d:%d]  '')
          [VWord (ucast (century d)), VWord (ucast (year d)), VWord (ucast (month d)),
           VWord (ucast (hours d)), VWord (ucast (minutes d)), VWord (ucast (seconds d))]))
          (\<lambda>r. Some (Inr (r, tr))))"

subsection \<open>The clock of the kernel\<close>

text \<open>The interrupt of the clock, vector 40, with the clock driver registered.\<close>

definition rtc_irq :: "env \<Rightarrow> kernel \<Rightarrow> kernel effect" where
  "rtc_irq E k = generic_interrupt_handler E (run_irq E) 0x28 k"

definition rtc_registered :: "kernel \<Rightarrow> bool" where
  "rtc_registered k \<longleftrightarrow> interruptList k ! 0x28 = Some Process_rtc_interrupt"

lemma rtc_irq_spec:
  assumes "rtc_registered k" "process_tick k = Some (Inr (upd_trace f k'))" "quiet f"
  shows "\<exists>g. rtc_irq E k = Some (Inr (upd_trace g k')) \<and> quiet g"
proof -
  have "outb CMOS_CONTROL_REG 12 = (#) (Out8 CMOS_CONTROL_REG 12)" by (simp add: outb_def fun_eq_iff)
  then have "quiet (outb CMOS_CONTROL_REG 12)"
    by (simp add: quiet_flags CMOS_CONTROL_REG_def DATA_REG_def COM1_def)
  then have "\<exists>g. run_irq E Process_rtc_interrupt k = Some (Inr (upd_trace g k')) \<and> quiet g"
    using assms(2,3) by (auto simp: process_rtc_interrupt_def k_outb_def k_inb_upd Let_def
        intro!: exI conjI quiet_comp quiet_flags)
  then obtain g where g: "run_irq E Process_rtc_interrupt k = Some (Inr (upd_trace g k'))" "quiet g" by blast
  have "interruptList k ! nat 0x28 = Some Process_rtc_interrupt" using assms(1) by (simp add: rtc_registered_def)
  then show ?thesis
    using handler_dispatches [of "0x28" k Process_rtc_interrupt "run_irq E" "upd_trace g k'" E] g
    by (auto simp: rtc_irq_def intro!: exI [of _ "eoi 8 \<circ> g"] quiet_comp eoi_quiet)
qed

definition no_futures :: "kernel \<Rightarrow> bool" where
  "no_futures k \<longleftrightarrow> rtc_registered k \<and> lastIdx k = -1"

definition first_future :: "heap \<Rightarrow> u32 \<Rightarrow> u32 \<Rightarrow> kernel \<Rightarrow> bool" where
  "first_future h ctx target k \<longleftrightarrow> rtc_registered k \<and> lastIdx k \<noteq> -1 \<and> fut_context (timeFutures k ! 0) = ctx
     \<and> ctx \<noteq> 0 \<and> k_heap k = h \<and> load32 (bytes h) ctx = target"

lemma no_futures_tick:
  assumes "no_futures k"
  shows "\<exists>f. rtc_irq E k = Some (Inr (upd_trace f (k\<lparr>tick := tick k + 1, SHOULD_POLL := False\<rparr>))) \<and> quiet f"
proof -
  obtain f where f: "process_tick k = Some (Inr (upd_trace f (k\<lparr>tick := tick k + 1\<rparr>\<lparr>SHOULD_POLL := False\<rparr>)))" "quiet f"
    using process_time_futures_empty [of "k\<lparr>tick := tick k + 1\<rparr>"] assms
    by (auto simp: no_futures_def process_tick_def)
  from rtc_irq_spec [OF _ f] assms show ?thesis by (auto simp: no_futures_def)
qed

lemma first_future_tick:
  assumes "first_future h ctx target k"
  shows "\<exists>f. rtc_irq E k = Some (Inr (upd_trace f (k\<lparr>tick := tick k + 1, SHOULD_POLL := target \<le> tick k + 1\<rparr>))) \<and> quiet f"
proof -
  obtain f where f: "process_tick k = Some (Inr (upd_trace f
      (k\<lparr>tick := tick k + 1\<rparr>\<lparr>SHOULD_POLL := target \<le> tick k + 1\<rparr>)))" "quiet f"
    using process_time_futures_first [of "k\<lparr>tick := tick k + 1\<rparr>" ctx] assms
    by (auto simp: first_future_def process_tick_def)
  from rtc_irq_spec [OF _ f] assms show ?thesis by (auto simp: first_future_def)
qed

interpretation rtc_clock: clock "rtc_irq E" no_futures for E
proof
  fix k assume "no_futures k"
  then show "\<exists>k'. rtc_irq E k = Some (Inr k') \<and> no_futures k' \<and> tick k' = tick k + 1"
    using no_futures_tick [of k E] by (auto simp: no_futures_def rtc_registered_def)
qed (simp_all add: no_futures_def rtc_registered_def)

interpretation rtc_waking: waking_clock "rtc_irq E" "first_future h ctx target" ctx target for E h ctx target
proof
  fix k assume f: "first_future h ctx target k"
  obtain g where g: "rtc_irq E k = Some (Inr (upd_trace g (k\<lparr>tick := tick k + 1, SHOULD_POLL := target \<le> tick k + 1\<rparr>)))"
    using first_future_tick [OF f] by blast
  show "\<exists>k'. rtc_irq E k = Some (Inr k') \<and> first_future h ctx target k' \<and> tick k' = tick k + 1"
    using g f by (auto simp: first_future_def rtc_registered_def)
  show "rtc_irq E k = Some (Inr k') \<Longrightarrow> SHOULD_POLL k' = (target \<le> tick k')" for k'
    using g by auto
qed (auto simp: first_future_def rtc_registered_def)

lemma await_sleep:
  assumes "no_futures k" "length (timeFutures k) = 10"
    and fut: "fut_type fut = SleepFuture" "is_ready fut = Fut_is_ready" "fut_context fut = ctx" "ctx \<noteq> 0"
    and target: "load32 (bytes (k_heap k)) ctx = target" "tick k \<le> target"
    and fr: "free (k_heap k) ctx = Some (Inr h')"
  shows "\<exists>k'. await E (rtc_irq E) fut k = Some (Inr k') \<and> tick k' = target \<and> k_heap k' = h'"
proof -
  define k1 where "k1 = k_sti ((k_cli k)\<lparr>timeFutures := (timeFutures k)[0 := fut], lastIdx := 0\<rparr>)"
  have add: "add_future E fut k = Some (Inr k1)"
    using assms(1) by (simp add: add_future_def guarded_def no_futures_def FUTURE_COUNT_def k_cli_def k_sti_def k1_def Let_def)
  have good: "first_future (k_heap k) ctx target k1" "tick k1 = tick k"
    using assms by (simp_all add: first_future_def no_futures_def rtc_registered_def k1_def k_cli_def k_sti_def)
  obtain k2 where k2: "await_loop E (rtc_irq E) fut k1 = Some (Inr k2)" "first_future (k_heap k) ctx target k2" "tick k2 = target"
    using rtc_waking.await_loop_returns [OF good(1) _ fut(2,3), of E] good(2) target(2) by auto
  have "k_heap k2 = k_heap k" using k2(2) by (simp add: first_future_def)
  then show ?thesis
    using add k2 fut(1,3) fr by (simp add: await_def delete_future_def)
qed

lemma create_future_spec:
  assumes "heap_inv hi (k_heap k)" "unat (4 :: u32) \<le> heap_limit (k_heap k)"
    and "create_future s ready k = Some (Inr (fut, k1))"
  shows "\<exists>ctx h. fut = \<lparr>fut_type = SleepFuture, fut_context = ctx, is_ready = ready\<rparr> \<and> ctx \<noteq> 0
    \<and> rtc_registered k1 = rtc_registered k \<and> lastIdx k1 = lastIdx k \<and> timeFutures k1 = timeFutures k
    \<and> tick k1 = tick k \<and> load32 (bytes (k_heap k1)) ctx = tick k + s * RTC_FREQ
    \<and> free (k_heap k1) ctx = Some (Inr h) \<and> heap_inv hi h \<and> freeSegment h = freeSegment (k_heap k)
    \<and> heap_blocks hi h = heap_blocks hi (k_heap k)"
proof -
  let ?t = "tick k + s * RTC_FREQ"
  obtain ctx h1 where m: "malloc (k_heap k) 4 = Some (Inr (ctx, h1))"
    and fut: "fut = \<lparr>fut_type = SleepFuture, fut_context = ctx, is_ready = ready\<rparr>"
    and k1: "k1 = (snd (get_tick (k\<lparr>k_heap := h1\<rparr>)))\<lparr>k_heap := h1\<lparr>bytes := store32 (bytes h1) ctx ?t\<rparr>\<rparr>"
    using assms(3) by (auto simp: create_future_def alloc_sleep_context_def bindE_def get_tick_def Let_def
        k_cli_def k_sti_def split: option.splits sum.splits)
  obtain n xs ys where n: "unat (4 :: u32) \<le> n" "heap_live hi h1 = xs @ (unat ctx, n) # ys"
    using kheap.alloc_owned [OF assms(1,2) m] by blast
  have inv: "heap_inv hi h1" using kheap.alloc_valid [OF assms(1,2) m] by simp
  have s: "alloc_spec 4 (unat (freeSegment (k_heap k))) (heap_blocks hi (k_heap k)) = Some (unat ctx, heap_blocks hi h1)"
    "freeSegment h1 = freeSegment (k_heap k)"
    by (rule malloc_SomeE [OF assms(1,2) m], simp)+
  have live: "(unat ctx, n) \<in> set (heap_live hi h1)" using n(2) by simp
  then have b: "8 \<le> unat ctx" "unat ctx + n < 2 ^ 32"
    using inv live_bounds [of "unat ctx" n "unat (freeSegment h1)" "heap_blocks hi h1"]
    by (auto simp: heap_live_def heap_inv_def heap_rel_def)
  have u: "unat (ctx + 1) = unat ctx + 1" "unat (ctx + 2) = unat ctx + 2" "unat (ctx + 3) = unat ctx + 3"
    using b(2) n(1) unat_plus_small [of ctx 1] unat_plus_small [of ctx 2] unat_plus_small [of ctx 3] by simp_all
  define h2 where "h2 = h1\<lparr>bytes := store32 (bytes h1) ctx ?t\<rparr>"
  have h2: "heap_inv hi h2" "heap_blocks hi h2 = heap_blocks hi h1" "freeSegment h2 = freeSegment h1"
    unfolding h2_def using n(1) store32_payload [OF inv live, of ctx] by (simp_all add: u)
  have "unat ctx \<in> fst ` set (heap_live hi h2)" using live h2(2,3) by (force simp: heap_live_def)
  then obtain h where "free h2 ctx = Some (Inr h)" "heap_inv hi h" "freeSegment h = freeSegment h2"
    "heap_blocks hi h = free_spec (unat ctx) (unat (freeSegment h2)) (heap_blocks hi h2)"
    using free_SomeE [OF h2(1)] by metis
  moreover have "coalesced (heap_blocks hi (k_heap k))" "4 \<le> unat (freeSegment (k_heap k))"
    using assms(1,2) by (simp_all add: heap_inv_def heap_rel_def heap_limit_def)
  then have "free_spec (unat ctx) (unat (freeSegment h2)) (heap_blocks hi h2) = heap_blocks hi (k_heap k)"
    using free_alloc_spec [OF s(1)] h2 s(2) by simp
  moreover have "ctx \<noteq> 0" using b(1) by auto
  ultimately show ?thesis using h2(3) s(2)
    by (auto simp: fut k1 h2_def get_tick_def Let_def k_cli_def k_sti_def rtc_registered_def load32_store32_same)
qed

subsection \<open>Properties\<close>

text \<open>
  C30. \<open>sleep\<close> of \<open>t\<close> seconds with the clock driver registered and no futures returns after
  exactly \<open>256 * t\<close> ticks, as long as the tick counter does not wrap before; where the end wraps
  around to the present or before it, \<open>sleep\<close> returns at once.
\<close>

theorem sleep_waits_or_wraps:
  assumes "rtc_registered k" "lastIdx k = -1"
  shows "(unat (tick k) + unat t * 256 < 2 ^ 32 \<longrightarrow>
      (\<exists>k'. sleep (rtc_irq E) t k = Some (Inr k') \<and> unat (tick k') = unat (tick k) + unat t * 256))
    \<and> (tick k + t * RTC_FREQ \<le> tick k \<longrightarrow>
      (\<exists>k'. sleep (rtc_irq E) t k = Some (Inr k') \<and> tick k' = tick k))"
proof (intro conjI impI)
  have good: "no_futures k" using assms by (simp add: no_futures_def)
  show "unat (tick k) + unat t * 256 < 2 ^ 32 \<Longrightarrow>
      \<exists>k'. sleep (rtc_irq E) t k = Some (Inr k') \<and> unat (tick k') = unat (tick k) + unat t * 256"
    by (rule rtc_clock.sleep_returns [OF good])
  assume "tick k + t * RTC_FREQ \<le> tick k"
  then have "\<not> tick k < tick k + t * RTC_FREQ" by simp
  then show "\<exists>k'. sleep (rtc_irq E) t k = Some (Inr k') \<and> tick k' = tick k"
    by (simp add: sleep_def get_tick_def Let_def k_cli_def k_sti_def sleep_loop.simps)
qed

definition ticking_kernel :: kernel where
  "ticking_kernel = boot_kernel\<lparr>interruptList := (replicate 256 None)[0x28 := Some Process_rtc_interrupt], lastIdx := -1\<rparr>"

theorem sleep_waits_or_wraps_witness:
  "(\<exists>k'. sleep (rtc_irq test_env) 4 ticking_kernel = Some (Inr k') \<and> unat (tick k') = 1024)
    \<and> (\<exists>k'. sleep (rtc_irq test_env) 0x1000000 ticking_kernel = Some (Inr k') \<and> tick k' = 0)"
  using sleep_waits_or_wraps [of ticking_kernel 4 test_env] sleep_waits_or_wraps [of ticking_kernel "0x1000000" test_env]
  by (simp add: ticking_kernel_def rtc_registered_def boot_kernel_def RTC_FREQ_def)

text \<open>
  A sleep future, created and awaited with no other future around and room on the heap: \<open>await\<close>
  returns after exactly \<open>256 * seconds\<close> ticks (if the counter does not wrap before), and the
  context that \<open>create_future\<close> allocated has been given back, so that the same blocks are live as
  before.
\<close>

theorem sleep_future_waits:
  assumes "rtc_registered k" "lastIdx k = -1" "length (timeFutures k) = 10"
    and "heap_inv hi (k_heap k)" "4 \<le> heap_limit (k_heap k)"
    and "create_future s Fut_is_ready k = Some (Inr (fut, k1))"
    and "unat (tick k) + unat s * 256 < 2 ^ 32"
  shows "\<exists>k'. await E (rtc_irq E) fut k1 = Some (Inr k') \<and> unat (tick k') = unat (tick k) + unat s * 256
    \<and> heap_inv hi (k_heap k') \<and> heap_live hi (k_heap k') = heap_live hi (k_heap k)"
proof -
  have "unat (4 :: u32) \<le> heap_limit (k_heap k)" using assms(5) by simp
  from create_future_spec [OF assms(4) this assms(6)] obtain ctx h where f:
    "fut = \<lparr>fut_type = SleepFuture, fut_context = ctx, is_ready = Fut_is_ready\<rparr>" "ctx \<noteq> 0"
    "rtc_registered k1 = rtc_registered k" "lastIdx k1 = lastIdx k" "timeFutures k1 = timeFutures k" "tick k1 = tick k"
    "load32 (bytes (k_heap k1)) ctx = tick k + s * RTC_FREQ"
    "free (k_heap k1) ctx = Some (Inr h)" "heap_inv hi h" "freeSegment h = freeSegment (k_heap k)"
    "heap_blocks hi h = heap_blocks hi (k_heap k)"
    by metis
  have e: "unat (tick k + s * RTC_FREQ) = unat (tick k) + unat s * 256"
    by (rule unat_target) (rule assms(7))
  then have "tick k1 \<le> tick k + s * RTC_FREQ" by (simp add: f word_le_nat_alt)
  then have "\<exists>k'. await E (rtc_irq E) fut k1 = Some (Inr k') \<and> tick k' = tick k + s * RTC_FREQ \<and> k_heap k' = h"
    using assms(1-3) f by (intro await_sleep) (simp_all add: no_futures_def)
  then show ?thesis using e f by (auto simp: heap_live_def)
qed

theorem sleep_future_waits_witness:
  "\<exists>fut k1 k'. create_future 3 Fut_is_ready (ticking_kernel\<lparr>k_heap := small_heap\<rparr>) = Some (Inr (fut, k1))
    \<and> await test_env (rtc_irq test_env) fut k1 = Some (Inr k') \<and> unat (tick k') = 768
    \<and> heap_live 4208 (k_heap k') = []"
proof -
  obtain h where h: "malloc small_heap 4 = Some (Inr (4200, h))"
    using malloc_refines [of 4208 small_heap 4] by (auto simp: small_heap_facts alloc_spec.simps carve_def)
  obtain fut k1 where c: "create_future 3 Fut_is_ready (ticking_kernel\<lparr>k_heap := small_heap\<rparr>) = Some (Inr (fut, k1))"
    using h by (simp add: create_future_def alloc_sleep_context_def get_tick_def Let_def k_cli_def k_sti_def)
  have "heap_live 4208 small_heap = []" by (simp add: heap_live_def small_heap_facts)
  then show ?thesis
    using sleep_future_waits [OF _ _ _ _ _ c, of 4208 test_env] c
    by (auto simp: ticking_kernel_def rtc_registered_def boot_kernel_def small_heap_facts heap_limit_def)
qed

text \<open>
  The list of futures is not guarded at its two ends. With ten futures in it, the check
  against 10 passes and the next one is stored behind the array. Before \<open>init_futures\<close>, when all
  of the list is zero, a tick reads through the null pointer in its first entry.
\<close>

theorem future_list_faults:
  "(lastIdx k = 9 \<and> fut_type fut = SleepFuture \<longrightarrow>
      await E irq fut k = Some (Inl (Undefined ''timeFutures: index out of bounds'')))
    \<and> process_tick boot_kernel = Some (Inl (Undefined ''null pointer''))"
proof (intro conjI impI)
  assume "lastIdx k = 9 \<and> fut_type fut = SleepFuture"
  then show "await E irq fut k = Some (Inl (Undefined ''timeFutures: index out of bounds''))"
    by (simp add: await_def add_future_def guarded_def FUTURE_COUNT_def k_cli_def)
qed (simp add: process_tick_def process_time_futures_def guarded_def boot_kernel_def k_cli_def
    target_tick_def liftE_def Let_def case_prod_unfold)

theorem future_list_faults_witness:
  "await test_env (rtc_irq test_env) \<lparr>fut_type = SleepFuture, fut_context = 4200, is_ready = Fut_is_ready\<rparr>
      (boot_kernel\<lparr>lastIdx := 9\<rparr>) = Some (Inl (Undefined ''timeFutures: index out of bounds''))"
  using future_list_faults [of "boot_kernel\<lparr>lastIdx := 9\<rparr>"
      "\<lparr>fut_type = SleepFuture, fut_context = 4200, is_ready = Fut_is_ready\<rparr>"]
  by simp

end
