(* ===== verification/Rtc_Date.thy ===== *)
theory Rtc_Date
  imports Rtc
begin

text \<open>
  Reading and setting the date (kernel/kernel/io/rtc.c) on two models of the chip that serve as
  instances of the device parameter: one that stores what is written to it while its clock stands
  still, and one that shows a first set of registers for some number of reads and a second one
  after.
\<close>

unbundle bit_operations_syntax

subsection \<open>The registers behind the ports\<close>

text \<open>Bit 7 of the index port is the mask of the non-maskable interrupt, not part of the index.\<close>

fun selected :: "trace \<Rightarrow> u8" where
  "selected [] = 0"
| "selected (Out8 p v # tr) = (if p = CMOS_CONTROL_REG then v AND 0x7F else selected tr)"
| "selected (_ # tr) = selected tr"

fun cmos_file :: "(u8 \<Rightarrow> u8) \<Rightarrow> trace \<Rightarrow> u8 \<Rightarrow> u8" where
  "cmos_file init [] = init"
| "cmos_file init (Out8 p v # tr) =
     (if p = CMOS_DATA_REG then (cmos_file init tr)(selected tr := v) else cmos_file init tr)"
| "cmos_file init (_ # tr) = cmos_file init tr"

definition cmos_chip :: "devices \<Rightarrow> (u8 \<Rightarrow> u8) \<Rightarrow> bool" where
  "cmos_chip D init \<longleftrightarrow> (\<forall>tr. dev8 D tr CMOS_DATA_REG = cmos_file init tr (selected tr))"

definition still_chip :: "(u8 \<Rightarrow> u8) \<Rightarrow> devices" where
  "still_chip init = \<lparr>dev8 = (\<lambda>tr port. if port = CMOS_DATA_REG then cmos_file init tr (selected tr) else 0),
     dev32 = (\<lambda>_ _. 0)\<rparr>"

lemma still_chip: "cmos_chip (still_chip init) init"
  by (simp add: cmos_chip_def still_chip_def)

definition date_regs :: "u8 list" where
  "date_regs = [SECONDS_REG, MINUTES_REG, HOURS_REG, WEEK_DAY_REG, DAY_OF_MONTH_REG, MONTH_REG, YEAR_REG, CENTURY_REG]"

definition date_of :: "(u8 \<Rightarrow> u8) \<Rightarrow> DateTime" where
  "date_of f = \<lparr>seconds = f SECONDS_REG, minutes = f MINUTES_REG, hours = f HOURS_REG, week_day = f WEEK_DAY_REG,
     day_of_month = f DAY_OF_MONTH_REG, month = f MONTH_REG, year = f YEAR_REG, century = f CENTURY_REG\<rparr>"

lemmas cmos_reg_defs = SECONDS_REG_def MINUTES_REG_def HOURS_REG_def WEEK_DAY_REG_def DAY_OF_MONTH_REG_def
  MONTH_REG_def YEAR_REG_def CENTURY_REG_def STATUS_REG_A_def STATUS_REG_B_def

lemma cmos_ports_differ [simp]: "CMOS_CONTROL_REG \<noteq> CMOS_DATA_REG" "CMOS_DATA_REG \<noteq> CMOS_CONTROL_REG"
  by (simp_all add: CMOS_CONTROL_REG_def CMOS_DATA_REG_def)

lemma read_cmos:
  assumes "cmos_chip D init"
  shows "fst (read_cmos_register D r tr) = cmos_file init tr (r AND 0x7F)"
    and "cmos_file init (snd (read_cmos_register D r tr)) = cmos_file init tr"
  using assms by (simp_all add: read_cmos_register_def select_cmos_register_def inb_def outb_def cmos_chip_def Let_def)

lemma write_cmos:
  "cmos_file init (write_cmos_register r v tr) = (cmos_file init tr)(r AND 0x7F := v)"
  by (simp add: write_cmos_register_def select_cmos_register_def outb_def)

lemma busy_bit: "drop_bit 7 (v :: u8) AND 1 = 1 \<longleftrightarrow> bit v 7"
proof -
  have "drop_bit 7 v AND 1 = of_bool (bit v 7)"
    by (rule bit_word_eqI) (auto simp: bit_simps)
  then show ?thesis by simp
qed

text \<open>None of this writes to the data port of the serial port.\<close>

lemma not_data_reg [simp]: "CMOS_CONTROL_REG \<noteq> DATA_REG" "CMOS_DATA_REG \<noteq> DATA_REG" "PIC1_DATA \<noteq> DATA_REG" "PIC2_DATA \<noteq> DATA_REG"
  by (simp_all add: CMOS_CONTROL_REG_def CMOS_DATA_REG_def PIC1_DATA_def PIC2_DATA_def DATA_REG_def COM1_def)

lemma cmos_quiet [simp]:
  "written_to DATA_REG (snd (read_cmos_register D r tr)) = written_to DATA_REG tr"
  "written_to DATA_REG (write_cmos_register r v tr) = written_to DATA_REG tr"
  by (simp_all add: read_cmos_register_def write_cmos_register_def select_cmos_register_def inb_def outb_def Let_def)

lemma wait_update_quiet: "wait_update D tr = Some tr' \<Longrightarrow> written_to DATA_REG tr' = written_to DATA_REG tr"
proof (induction rule: wait_update.raw_induct [rotated, consumes 1])
  case (1 f D tr tr')
  then show ?case
    by (auto simp: is_update_in_progress_def case_prod_unfold Let_def split: if_splits)
qed

lemma get_date_time_quiet:
  assumes "get_date_time D junk tr = Some (d, tr')"
  shows "written_to DATA_REG tr' = written_to DATA_REG tr"
  using assms
  by (auto simp: get_date_time_def guarded_op_def read_date_def case_prod_unfold Let_def split: option.splits
      dest!: wait_update_quiet)

lemma wait_update_still:
  assumes "cmos_chip D init" "\<not> bit (cmos_file init tr STATUS_REG_A) 7"
  shows "\<exists>tr'. wait_update D tr = Some tr' \<and> cmos_file init tr' = cmos_file init tr"
proof -
  have "fst (read_cmos_register D STATUS_REG_A tr) = cmos_file init tr STATUS_REG_A"
    using read_cmos(1) [OF assms(1)] by (simp add: STATUS_REG_A_def)
  then have "wait_update D tr = Some (snd (read_cmos_register D STATUS_REG_A tr))"
    using assms(2) by (subst wait_update.simps) (simp add: is_update_in_progress_def busy_bit case_prod_unfold Let_def)
  then show ?thesis using read_cmos(2) [OF assms(1)] by simp
qed

lemma read_date_still:
  assumes "cmos_chip D init"
  shows "fst (read_date D d tr) = date_of (cmos_file init tr)"
    and "cmos_file init (snd (read_date D d tr)) = cmos_file init tr"
  using read_cmos [OF assms] by (simp_all add: read_date_def date_of_def case_prod_unfold Let_def cmos_reg_defs)

lemma write_date_still:
  "cmos_file init (snd (write_date j d tr)) = (cmos_file init tr)
     (SECONDS_REG := seconds d, MINUTES_REG := minutes d, HOURS_REG := hours d, WEEK_DAY_REG := week_day d,
      DAY_OF_MONTH_REG := day_of_month d, MONTH_REG := month d, YEAR_REG := year d, CENTURY_REG := century d)"
  by (simp add: write_date_def write_cmos Let_def cmos_reg_defs)

lemma guarded_op_still:
  assumes "cmos_chip D init" "\<not> bit (cmos_file init tr STATUS_REG_A) 7"
    and "\<And>tr'. cmos_file init tr' = cmos_file init tr \<Longrightarrow> fst (f d tr') = x \<and> cmos_file init (snd (f d tr')) = g"
    and "\<not> bit (g STATUS_REG_A) 7"
  shows "\<exists>tr'. guarded_op D f d tr = Some (x, tr') \<and> cmos_file init tr' = g"
proof -
  obtain t1 where t1: "wait_update D tr = Some t1" "cmos_file init t1 = cmos_file init tr"
    using wait_update_still [OF assms(1,2)] by blast
  have f: "fst (f d t1) = x" "cmos_file init (snd (f d t1)) = g" using assms(3) [OF t1(2)] by auto
  obtain t2 where "wait_update D (snd (f d t1)) = Some t2" "cmos_file init t2 = g"
    using wait_update_still [OF assms(1), of "snd (f d t1)"] f(2) assms(4) by auto
  then show ?thesis using t1(1) f(1) by (auto simp: guarded_op_def case_prod_unfold)
qed

lemma set_get_spec:
  assumes "cmos_chip D init" "\<not> bit (cmos_file init tr STATUS_REG_A) 7"
  shows "\<exists>tr1 tr2. set_date_time D j d tr = Some tr1 \<and> get_date_time D j' tr1 = Some (d, tr2)
    \<and> cmos_file init tr2 = cmos_file init tr1
    \<and> (\<forall>r. r \<notin> set date_regs \<longrightarrow> cmos_file init tr1 r = cmos_file init tr r)"
proof -
  define g where "g = (cmos_file init tr)(SECONDS_REG := seconds d, MINUTES_REG := minutes d, HOURS_REG := hours d,
      WEEK_DAY_REG := week_day d, DAY_OF_MONTH_REG := day_of_month d, MONTH_REG := month d, YEAR_REG := year d,
      CENTURY_REG := century d)"
  have ga: "\<not> bit (g STATUS_REG_A) 7" using assms(2) by (simp add: g_def cmos_reg_defs)
  obtain tr1 where w: "guarded_op D (write_date j) d tr = Some (j, tr1)" "cmos_file init tr1 = g"
    using guarded_op_still [OF assms, of "write_date j" d j g] ga
    by (auto simp: write_date_still g_def) (auto simp: write_date_def Let_def)
  obtain tr2 where r: "guarded_op D (read_date D) j' tr1 = Some (date_of g, tr2)" "cmos_file init tr2 = g"
    using guarded_op_still [OF assms(1), of tr1 "read_date D" j' "date_of g" g] w(2) ga read_date_still [OF assms(1)]
    by auto
  have "date_of g = d" by (simp add: date_of_def g_def cmos_reg_defs)
  moreover have "g r = cmos_file init tr r" if "r \<notin> set date_regs" for r
    using that by (simp add: g_def date_regs_def)
  ultimately show ?thesis
    using w r by (auto simp: set_date_time_def get_date_time_def)
qed

lemma set_get_still:
  "\<exists>tr1 tr2. set_date_time (still_chip (\<lambda>_. 0)) d d [] = Some tr1
    \<and> get_date_time (still_chip (\<lambda>_. 0)) d tr1 = Some (d, tr2)"
  using set_get_spec [OF still_chip, of "\<lambda>_. 0" "[]" d d d] by auto

text \<open>
  C27. Round trip through the chip: \<open>get_date_time\<close> after \<open>set_date_time\<close> returns the date that was
  set, while the clock does not advance and no update is running; \<open>set_date_time\<close> changes the eight
  registers of the date only, and \<open>get_date_time\<close> none.
\<close>

theorem set_get_date_time:
  assumes "cmos_chip D init" "\<not> bit (cmos_file init tr STATUS_REG_A) 7"
  shows "\<exists>tr1 tr2. set_date_time D j d tr = Some tr1 \<and> get_date_time D j' tr1 = Some (d, tr2)
    \<and> cmos_file init tr2 = cmos_file init tr1
    \<and> (\<forall>r. r \<notin> set date_regs \<longrightarrow> cmos_file init tr1 r = cmos_file init tr r)"
  by (rule set_get_spec [OF assms])

definition new_year :: DateTime where
  "new_year = \<lparr>seconds = 0, minutes = 0, hours = 0, week_day = 5, day_of_month = 1, month = 1, year = 26, century = 20\<rparr>"

theorem set_get_date_time_witness:
  "\<exists>tr1 tr2. set_date_time (still_chip (\<lambda>_. 0)) new_year new_year [] = Some tr1
    \<and> get_date_time (still_chip (\<lambda>_. 0)) new_year tr1 = Some (new_year, tr2)"
  using set_get_date_time [OF still_chip, of "\<lambda>_. 0" "[]" new_year new_year new_year] by auto

subsection \<open>Waiting for the end of an update\<close>

primrec update_polls :: "devices \<Rightarrow> nat \<Rightarrow> trace \<Rightarrow> trace" where
  "update_polls D 0 tr = tr"
| "update_polls D (Suc n) tr = update_polls D n (snd (is_update_in_progress D tr))"

definition update_ends :: "devices \<Rightarrow> bool" where
  "update_ends D \<longleftrightarrow> (\<forall>tr. \<exists>n. \<not> fst (is_update_in_progress D (update_polls D n tr)))"

definition update_stuck :: "devices \<Rightarrow> bool" where
  "update_stuck D \<longleftrightarrow> (\<forall>tr. fst (is_update_in_progress D tr))"

lemma wait_update_polls:
  "\<not> fst (is_update_in_progress D (update_polls D n tr)) \<Longrightarrow> \<exists>tr'. wait_update D tr = Some tr'"
proof (induction n arbitrary: tr)
  case 0
  then show ?case by (subst wait_update.simps) (auto split: prod.split)
next
  case (Suc n)
  then show ?case by (subst wait_update.simps) (auto split: prod.split)
qed

lemma wait_update_ends: "update_ends D \<Longrightarrow> \<exists>tr'. wait_update D tr = Some tr'"
  using wait_update_polls unfolding update_ends_def by blast

lemma wait_update_result: "wait_update D tr = Some tr' \<Longrightarrow> \<exists>t. \<not> fst (is_update_in_progress D t)"
proof (induction rule: wait_update.raw_induct [rotated, consumes 1])
  case (1 rec D tr tr')
  obtain b t where t: "is_update_in_progress D tr = (b, t)" by fastforce
  show ?case
  proof (cases b)
    case True
    then show ?thesis using 1 t by simp
  next
    case False
    then show ?thesis using t by (intro exI [of _ tr]) simp
  qed
qed

text \<open>
  C28. Termination of the waits around \<open>read\<close> and \<open>write\<close>: with a chip whose update flag is clear
  again after some number of polls \<open>get_date_time\<close> and \<open>set_date_time\<close> return; with a chip that
  always shows the flag they never return, there is no bound on the polls.
\<close>

theorem date_access_returns:
  shows "(update_ends D \<longrightarrow> get_date_time D j tr \<noteq> None \<and> set_date_time D j d tr \<noteq> None)
    \<and> (update_stuck D \<longrightarrow> get_date_time D j tr = None \<and> set_date_time D j d tr = None)"
proof (intro conjI impI)
  assume u: "update_ends D"
  have "guarded_op D f d tr \<noteq> None" for f d tr
  proof -
    obtain t1 t2 where "wait_update D tr = Some t1" "wait_update D (snd (f d t1)) = Some t2"
      using wait_update_ends [OF u] by blast
    then show ?thesis by (simp add: guarded_op_def case_prod_unfold)
  qed
  then show "get_date_time D j tr \<noteq> None" "set_date_time D j d tr \<noteq> None"
    by (simp_all add: get_date_time_def set_date_time_def)
next
  assume "update_stuck D"
  then have "wait_update D tr = None" for tr
    using wait_update_result [of D tr] by (cases "wait_update D tr") (auto simp: update_stuck_def)
  then show "get_date_time D j tr = None" "set_date_time D j d tr = None"
    by (simp_all add: get_date_time_def set_date_time_def guarded_op_def)
qed

lemma still_chip_update:
  "\<not> bit (init STATUS_REG_A) 7 \<Longrightarrow> \<not> fst (is_update_in_progress (still_chip init) [])"
  using read_cmos(1) [OF still_chip, of init STATUS_REG_A "[]"]
  by (simp add: is_update_in_progress_def busy_bit case_prod_unfold Let_def STATUS_REG_A_def)

definition constant_chip :: "u8 \<Rightarrow> devices" where
  "constant_chip v = \<lparr>dev8 = (\<lambda>_ _. v), dev32 = (\<lambda>_ _. 0)\<rparr>"

lemma constant_chip_update: "fst (is_update_in_progress (constant_chip v) tr) = bit v 7"
  by (simp add: is_update_in_progress_def read_cmos_register_def inb_def constant_chip_def Let_def busy_bit)

theorem date_access_returns_witness:
  "get_date_time (constant_chip 0) new_year [] \<noteq> None \<and> get_date_time (constant_chip 0x80) new_year [] = None"
  using date_access_returns [of "constant_chip 0" new_year "[]" new_year]
    date_access_returns [of "constant_chip 0x80" new_year "[]" new_year]
  by (simp add: update_ends_def update_stuck_def constant_chip_update)

subsection \<open>A date that is read while it changes\<close>

text \<open>
  A chip whose registers change from \<open>before\<close> to \<open>after\<close> once \<open>n\<close> bytes have been read from it.
\<close>

fun cmos_reads :: "trace \<Rightarrow> nat" where
  "cmos_reads [] = 0"
| "cmos_reads (In8 p v # tr) = (if p = CMOS_DATA_REG then 1 else 0) + cmos_reads tr"
| "cmos_reads (_ # tr) = cmos_reads tr"

definition changing_chip :: "nat \<Rightarrow> (u8 \<Rightarrow> u8) \<Rightarrow> (u8 \<Rightarrow> u8) \<Rightarrow> devices" where
  "changing_chip n before after = \<lparr>dev8 = (\<lambda>tr port. if port = CMOS_DATA_REG
      then (if cmos_reads tr < n then before else after) (selected tr) else 0), dev32 = (\<lambda>_ _. 0)\<rparr>"

lemma changing_chip_read:
  "fst (read_cmos_register (changing_chip n b a) r tr) = (if cmos_reads tr < n then b else a) (r AND 0x7F)"
  "cmos_reads (snd (read_cmos_register (changing_chip n b a) r tr)) = cmos_reads tr + 1"
  by (simp_all add: read_cmos_register_def select_cmos_register_def inb_def outb_def changing_chip_def Let_def)

lemma wait_update_changing:
  assumes "\<not> bit (b STATUS_REG_A) 7" "\<not> bit (a STATUS_REG_A) 7"
  shows "wait_update (changing_chip n b a) tr = Some (snd (read_cmos_register (changing_chip n b a) STATUS_REG_A tr))"
  using assms changing_chip_read(1) [of n b a STATUS_REG_A tr]
  by (subst wait_update.simps)
    (simp add: is_update_in_progress_def busy_bit case_prod_unfold Let_def STATUS_REG_A_def split: if_splits)

lemma read_date_changing:
  assumes "cmos_reads tr = 1"
  shows "fst (read_date (changing_chip (n + 1) b a) d tr) = date_of (\<lambda>r. if r \<in> set (take n date_regs) then b r else a r)"
proof -
  consider "n = 0" | "n = 1" | "n = 2" | "n = 3" | "n = 4" | "n = 5" | "n = 6" | "n = 7" | "8 \<le> n" by linarith
  then show ?thesis
    using assms
    by cases (simp_all add: read_date_def changing_chip_read date_of_def date_regs_def case_prod_unfold Let_def cmos_reg_defs)
qed

text \<open>
  The second wait of \<open>guarded_op\<close> does not repeat a read that an update has overtaken: when the
  registers change after \<open>n\<close> of the eight have been read, and no update is running at the two
  waits, \<open>get_date_time\<close> returns the first \<open>n\<close> registers of the old date with the rest of the
  new one.
\<close>

theorem get_date_time_mixes_dates:
  assumes "\<not> bit (before STATUS_REG_A) 7" "\<not> bit (after STATUS_REG_A) 7"
  shows "\<exists>tr. get_date_time (changing_chip (n + 1) before after) j [] =
    Some (date_of (\<lambda>r. if r \<in> set (take n date_regs) then before r else after r), tr)"
proof -
  let ?D = "changing_chip (n + 1) before after"
  let ?t = "snd (read_cmos_register ?D STATUS_REG_A [])"
  have "cmos_reads ?t = 1" by (simp add: changing_chip_read)
  from read_date_changing [OF this] show ?thesis
    using wait_update_changing [of before after "n + 1"] assms
    by (simp add: get_date_time_def guarded_op_def case_prod_unfold)
qed

definition old_year :: "u8 \<Rightarrow> u8" where
  "old_year = (\<lambda>_. 0)(SECONDS_REG := 59, MINUTES_REG := 59, HOURS_REG := 23, WEEK_DAY_REG := 4,
     DAY_OF_MONTH_REG := 31, MONTH_REG := 12, YEAR_REG := 25, CENTURY_REG := 20)"

definition year_after :: "u8 \<Rightarrow> u8" where
  "year_after = (\<lambda>_. 0)(SECONDS_REG := 0, WEEK_DAY_REG := 5, DAY_OF_MONTH_REG := 1, MONTH_REG := 1,
     YEAR_REG := 26, CENTURY_REG := 20)"

theorem get_date_time_mixes_dates_witness:
  "\<exists>tr. get_date_time (changing_chip 4 old_year year_after) new_year [] =
    Some (\<lparr>seconds = 59, minutes = 59, hours = 23, week_day = 5, day_of_month = 1, month = 1, year = 26, century = 20\<rparr>, tr)"
  using get_date_time_mixes_dates [of old_year year_after 3 new_year]
  by (simp add: old_year_def year_after_def date_of_def date_regs_def cmos_reg_defs)

subsection \<open>Setting up the clock\<close>

lemma cmos_file_masked: "cmos_file init (masked_at E PIC1_DATA tr b) = cmos_file init tr"
    "cmos_file init (masked_at E PIC2_DATA tr b) = cmos_file init tr"
  by (simp_all add: masked_at_def outb_def inb_def Let_def PIC1_DATA_def PIC2_DATA_def CMOS_DATA_REG_def)

lemma configure_rtc_interrupts_still:
  assumes "cmos_chip D init"
  shows "cmos_file init (configure_rtc_interrupts D tr) = (cmos_file init tr)
    (STATUS_REG_B := cmos_file init tr STATUS_REG_B OR 0x40, STATUS_REG_A := 1)"
  using assms
  by (simp add: configure_rtc_interrupts_def disable_cmos_nmi_def select_cmos_register_def write_cmos outb_def inb_def
      Let_def cmos_chip_def cmos_reg_defs)

lemma k_trace_handlers [simp]: "k_trace (k\<lparr>interruptList := x\<rparr>) = k_trace k"
  by (simp add: k_trace_def)

lemma configure_rtc_spec:
  assumes "cmos_chip (devs E) init"
  shows "\<exists>f. configure_rtc E k = Some (Inr (upd_trace f (k\<lparr>interruptList := (interruptList k)[0x28 := Some Process_rtc_interrupt]\<rparr>)))
    \<and> cmos_file init (f (k_trace k)) = (cmos_file init (k_trace k))(STATUS_REG_B := 0x46, STATUS_REG_A := 1)
    \<and> interrupt_flag b (f (k_trace k)) \<and> quiet f"
proof -
  define g where "g = (\<lambda>tr. masked_at E PIC2_DATA (masked_at E PIC1_DATA (configure_rtc_interrupts (devs E)
    (disable_interrupts (write_cmos_register STATUS_REG_B 6 (snd (read_cmos_register (devs E) STATUS_REG_B tr))))) 2) 0)"
  have v: "(0x20 :: u32) \<le> 0x28" "0x28 < (0x30 :: u32)" by simp_all
  have l: "upd_trace f k\<lparr>interruptList := x\<rparr> = upd_trace f (k\<lparr>interruptList := x\<rparr>)" for f k x
    by (simp add: upd_trace_def k_trace_def)
  have "configure_rtc E k = Some (Inr (upd_trace (enable_interrupts \<circ> g)
      (k\<lparr>interruptList := (interruptList k)[0x28 := Some Process_rtc_interrupt]\<rparr>)))"
    by (simp add: configure_rtc_def register_rtc_driver_def guarded_def register_interrupt_spec [OF v] k_cli_def k_sti_def
        l Let_def comp_def g_def PIC_2_OFFSET_def)
  moreover have "cmos_file init (enable_interrupts (g (k_trace k))) =
      (cmos_file init (k_trace k))(STATUS_REG_B := 0x46, STATUS_REG_A := 1)"
    using read_cmos(2) [OF assms]
    by (simp add: g_def cmos_file_masked configure_rtc_interrupts_still [OF assms] disable_interrupts_def
        enable_interrupts_def write_cmos) (simp add: cmos_reg_defs)
  moreover have "quiet (enable_interrupts \<circ> g)"
    by (simp add: quiet_def g_def masked_at_def configure_rtc_interrupts_def disable_cmos_nmi_def select_cmos_register_def
        disable_interrupts_def enable_interrupts_def inb_def outb_def Let_def)
  ultimately show ?thesis
    by (intro exI [of _ "enable_interrupts \<circ> g"]) (simp add: enable_interrupts_def)
qed

text \<open>
  C29. \<open>configure_rtc\<close> enables the periodic interrupt: status register B is left with the interrupt, 24
  hour and binary flags whatever it held before, register A with rate 1, no other register changes,
  and vector 40 runs \<open>process_rtc_interrupt\<close>, so that the next interrupt of the clock advances the
  tick. Interrupts are enabled when it returns.
\<close>

theorem configure_rtc_starts_ticks:
  assumes "cmos_chip (devs E) init" "length (interruptList k) = 256"
  shows "\<exists>k1. configure_rtc E k = Some (Inr k1) \<and> rtc_registered k1 \<and> interrupt_flag b (k_trace k1)
    \<and> cmos_file init (k_trace k1) = (cmos_file init (k_trace k))(STATUS_REG_B := 0x46, STATUS_REG_A := 1)
    \<and> (\<exists>k2. rtc_irq E (init_futures k1) = Some (Inr k2) \<and> tick k2 = tick k + 1)"
proof -
  obtain f where f: "configure_rtc E k = Some (Inr (upd_trace f (k\<lparr>interruptList := (interruptList k)[0x28 := Some Process_rtc_interrupt]\<rparr>)))"
    "cmos_file init (f (k_trace k)) = (cmos_file init (k_trace k))(STATUS_REG_B := 0x46, STATUS_REG_A := 1)"
    "interrupt_flag b (f (k_trace k))"
    using configure_rtc_spec [OF assms(1)] by blast
  define k1 where "k1 = upd_trace f (k\<lparr>interruptList := (interruptList k)[0x28 := Some Process_rtc_interrupt]\<rparr>)"
  have "no_futures (init_futures k1)"
    using assms(2) by (simp add: no_futures_def rtc_registered_def init_futures_def k1_def)
  from no_futures_tick [OF this, of E] have "\<exists>k2. rtc_irq E (init_futures k1) = Some (Inr k2) \<and> tick k2 = tick k + 1"
    by (auto simp: init_futures_def k1_def)
  then show ?thesis
    using f assms(2) by (intro exI [of _ k1]) (simp add: k1_def rtc_registered_def)
qed

definition rtc_env :: env where
  "rtc_env = test_env\<lparr>devs := still_chip (\<lambda>_. 0)\<rparr>"

theorem configure_rtc_starts_ticks_witness:
  "\<exists>k1 k2. configure_rtc rtc_env boot_kernel = Some (Inr k1) \<and> rtc_irq rtc_env (init_futures k1) = Some (Inr k2) \<and> tick k2 = 1"
proof -
  have "cmos_chip (devs rtc_env) (\<lambda>_. 0)" "length (interruptList boot_kernel) = 256" "tick boot_kernel = 0"
    by (simp_all add: rtc_env_def still_chip boot_kernel_def)
  then show ?thesis using configure_rtc_starts_ticks [of rtc_env "\<lambda>_. 0" boot_kernel True] by auto
qed

subsection \<open>The text of a date\<close>

definition date_text :: "DateTime \<Rightarrow> u8 list" where
  "date_text d = lit ''DateTime { seconds: '' @ decimal (uint (seconds d)) @ lit '', minutes: '' @ decimal (uint (minutes d))
     @ lit '', hours: '' @ decimal (uint (hours d)) @ lit '', day_of_month: '' @ decimal (uint (day_of_month d))
     @ lit '', month: '' @ decimal (uint (month d)) @ lit '', year: '' @ decimal (uint (year d))
     @ lit '', century: '' @ decimal (uint (century d)) @ lit '' }''"

lemma byte_decimal:
  "print_signed (ucast (v :: u8)) = Some (decimal (uint v))"
  "length (decimal (uint v)) = (if v < 10 then 1 else if v < 100 then 2 else 3)"
proof -
  have u: "uint v < 256" using uint_lt2p [of v] by simp
  have s: "sint (ucast v :: u32) = uint v"
    using u order_trans [OF _ uint_ge_0 [of v], of "-2147483648"] signed_take_bit_int_eq_self [of 31 "uint v"]
    by (simp add: signed_ucast_eq)
  moreover have "sint (0x80000000 :: u32) < 0" by simp
  ultimately have "ucast v \<noteq> (0x80000000 :: u32)" using uint_ge_0 [of v] by (metis not_less)
  then show "print_signed (ucast v) = Some (decimal (uint v))" by (simp add: print_signed_def s)
  show "length (decimal (uint v)) = (if v < 10 then 1 else if v < 100 then 2 else 3)"
  proof -
    have "length (dec n) = (if n < 10 then 1 else if n < 100 then 2 else 3)" if "n < 256" for n
    proof -
      have one: "length (dec m) = 1" if "m < 10" for m using that by (subst dec.simps) simp
      have two: "length (dec m) = 2" if "10 \<le> m" "m < 100" for m
        using that one [of "m div 10"] by (subst dec.simps) simp
      show ?thesis using that one [of n] two [of n] two [of "n div 10"]
        by (cases "n < 100") (auto simp: dec.simps [of n])
    qed
    moreover have "unat v < 256" by (rule order_less_le_trans [OF unsigned_less]) simp
    ultimately show ?thesis by (simp add: decimal_def word_less_nat_alt)
  qed
qed

lemma print_pieces_plain:
  "print_pieces (map Plain xs @ ps) args = map_option ((@) xs) (print_pieces ps args)"
  by (induction xs) (auto simp: option.map_comp comp_def option.map_ident)

lemma print_pieces_all_plain: "print_pieces (map Plain xs) args = Some xs"
  using print_pieces_plain [of xs "[]" args] by simp

lemma date_format_pieces:
  "pieces (lit ''DateTime { seconds: %d, minutes: %d, hours: %d, day_of_month: %d, month: %d, year: %d, century: %d }'') =
    Some (map Plain (lit ''DateTime { seconds: '') @ Arg_d # map Plain (lit '', minutes: '') @ Arg_d #
      map Plain (lit '', hours: '') @ Arg_d # map Plain (lit '', day_of_month: '') @ Arg_d #
      map Plain (lit '', month: '') @ Arg_d # map Plain (lit '', year: '') @ Arg_d #
      map Plain (lit '', century: '') @ Arg_d # map Plain (lit '' }'') @ [])"
  by code_simp

lemma date_text_rendered:
  "render (lit ''DateTime { seconds: %d, minutes: %d, hours: %d, day_of_month: %d, month: %d, year: %d, century: %d }'')
     [VWord (ucast (seconds d)), VWord (ucast (minutes d)), VWord (ucast (hours d)), VWord (ucast (day_of_month d)),
      VWord (ucast (month d)), VWord (ucast (year d)), VWord (ucast (century d))] = Some (date_text d)"
  unfolding render_def date_text_def date_format_pieces
  by (simp only: bind.bind_lunit print_pieces_plain print_pieces_all_plain print_pieces.simps print_piece.simps byte_decimal(1) option.map
      option.case prod.case append_assoc append_Nil2)

lemma date_text_no_nul: "0 \<notin> set (date_text d)"
  by (simp add: date_text_def decimal_no_nul) (simp add: lit_def)

lemma length_date_text:
  "length (date_text d) = 86 + (\<Sum>v \<leftarrow> [seconds d, minutes d, hours d, day_of_month d, month d, year d, century d].
     if v < 10 then 1 else if v < 100 then 2 else 3)"
  unfolding date_text_def length_append byte_decimal(2) by (simp add: lit_def)

lemma date_short_log:
  fixes d :: DateTime
  assumes "\<forall>v \<in> set [seconds d, minutes d, hours d, day_of_month d, month d, year d, century d]. v < 100"
  shows "short_log ''kernel/io/rtc.c'' 98
    ''DateTime { seconds: %d, minutes: %d, hours: %d, day_of_month: %d, month: %d, year: %d, century: %d }''
    [VWord (ucast (seconds d)), VWord (ucast (minutes d)), VWord (ucast (hours d)), VWord (ucast (day_of_month d)),
     VWord (ucast (month d)), VWord (ucast (year d)), VWord (ucast (century d))]"
proof -
  have "length (date_text d) \<le> 100" using assms unfolding length_date_text by simp
  moreover have "0 \<notin> set (lit ''DateTime { seconds: %d, minutes: %d, hours: %d, day_of_month: %d, month: %d, year: %d, century: %d }'')"
    by (simp add: lit_def)
  moreover have "length (prefix_text (lit ''INFO'') (lit ''kernel/io/rtc.c'') 98) < 100" by code_simp
  ultimately show ?thesis by (simp add: short_log_def date_text_rendered date_text_no_nul)
qed

lemma print_date_time_spec:
  assumes "env_ok E" "log_ok k"
    and "\<forall>v \<in> set [seconds d, minutes d, hours d, day_of_month d, month d, year d, century d]. v < 100"
  shows "\<exists>k'. print_date_time E d k = Some (Inr k') \<and> logged k k'"
  unfolding print_date_time_def by (rule k_LOG_spec [OF assms(1,2) date_short_log [OF assms(3)]])

definition date_prefix :: "u8 list" where
  "date_prefix = prefix_text (lit ''INFO'') (lit ''kernel/io/rtc.c'') 98"

text \<open>
  \<open>print_date_time\<close> appends one line to the log (flushing it before where it is full). With
  fields below 100, as in binary or BCD registers of a running clock, the text has at most 100
  characters; when all seven fields have two digits it has exactly 100, one more than the local
  buffer of \<open>write_to_buffer\<close> has room for, and the closing brace is lost. With six or more fields
  of three digits the text is longer than that buffer and \<open>memcpy\<close> reads behind it.
\<close>

theorem print_date_time_line:
  assumes "env_ok E" "log_rel ls (k_log k)"
  shows "((\<forall>v \<in> set [seconds d, minutes d, hours d, day_of_month d, month d, year d, century d]. v < 100) \<longrightarrow>
      (\<exists>l. print_date_time E d k = Some (Inr (k\<lparr>k_log := l\<rparr>))
        \<and> log_rel (after_write ls (date_prefix @ take 99 (date_text d))) l)
      \<and> (length (date_text d) = 100 \<longleftrightarrow>
          (\<forall>v \<in> set [seconds d, minutes d, hours d, day_of_month d, month d, year d, century d]. 10 \<le> v)))
    \<and> ((\<forall>v \<in> set [seconds d, minutes d, hours d, day_of_month d, month d, year d]. 100 \<le> v) \<longrightarrow>
      print_date_time E d k = Some (Inl (Undefined ''memcpy: source too short'')))"
proof -
  let ?vs = "[seconds d, minutes d, hours d, day_of_month d, month d, year d, century d]"
  have env: "length (stack E) = 1024" "transmitter_empties (devs E)" using assms(1) by (simp_all add: env_ok_def)
  have nz: "0 \<notin> set (lit ''DateTime { seconds: %d, minutes: %d, hours: %d, day_of_month: %d, month: %d, year: %d, century: %d }'')"
    by (simp add: lit_def)
  have pre: "length (prefix_text (lit ''INFO'') (lit ''kernel/io/rtc.c'') 98) < 100" "(98 :: u32) \<noteq> 0x80000000"
    by code_simp simp
  have n: "100 \<le> v \<Longrightarrow> \<not> v < 10 \<and> \<not> v < (100 :: u8)" for v
    by (auto simp: not_less intro: order_trans [of 10 100])
  note run = print_date_time_def k_LOG_def on_log_def LOG_def
  { assume small: "\<forall>v \<in> set ?vs. v < 100"
    then have "length (date_text d) \<le> 100" unfolding length_date_text by simp
    from write_to_buffer_cut [OF env assms(2) nz date_text_rendered date_text_no_nul this pre(2,1)]
    have "\<exists>l. print_date_time E d k = Some (Inr (k\<lparr>k_log := l\<rparr>))
        \<and> log_rel (after_write ls (date_prefix @ take 99 (date_text d))) l"
      by (auto simp: run date_prefix_def)
    moreover have "length (date_text d) = 100 \<longleftrightarrow> (\<forall>v \<in> set ?vs. 10 \<le> v)"
      using small unfolding length_date_text by (simp add: not_less [symmetric])
    ultimately have "(\<exists>l. print_date_time E d k = Some (Inr (k\<lparr>k_log := l\<rparr>))
        \<and> log_rel (after_write ls (date_prefix @ take 99 (date_text d))) l)
      \<and> (length (date_text d) = 100 \<longleftrightarrow> (\<forall>v \<in> set ?vs. 10 \<le> v))" by blast }
  moreover
  { assume big: "\<forall>v \<in> set [seconds d, minutes d, hours d, day_of_month d, month d, year d]. 100 \<le> v"
    then have "100 < length (date_text d)" "length (date_text d) \<le> 800"
      unfolding length_date_text by (simp_all add: n)
    from write_to_buffer_overread [OF env assms(2) nz date_text_rendered this pre(2,1)]
    have "print_date_time E d k = Some (Inl (Undefined ''memcpy: source too short''))" by (simp add: run) }
  ultimately show ?thesis by blast
qed

definition date_32 :: DateTime where
  "date_32 = \<lparr>seconds = 45, minutes = 30, hours = 12, week_day = 2, day_of_month = 15, month = 11, year = 25, century = 20\<rparr>"

definition date_ff :: DateTime where
  "date_ff = \<lparr>seconds = 255, minutes = 255, hours = 255, week_day = 255, day_of_month = 255, month = 255,
     year = 255, century = 255\<rparr>"

theorem print_date_time_line_witness:
  "(\<exists>l. print_date_time test_env date_32 boot_kernel = Some (Inr (boot_kernel\<lparr>k_log := l\<rparr>))
      \<and> log_rel [date_prefix @ take 99 (date_text date_32)] l) \<and> length (date_text date_32) = 100
    \<and> print_date_time test_env date_ff boot_kernel = Some (Inl (Undefined ''memcpy: source too short''))"
proof -
  have rel: "log_rel [] (k_log boot_kernel)" using initial_log_rel by (simp add: boot_kernel_def)
  show ?thesis
    using print_date_time_line [OF test_env_ok rel, of date_32] print_date_time_line [OF test_env_ok rel, of date_ff]
    by (simp add: date_32_def date_ff_def after_write_def)
qed

subsection \<open>The time stamp\<close>

lemma timestamp_format_pieces:
  "pieces (lit ''[%d%d-%d-%dT%d:%d:%d]  '') =
    Some (map Plain (lit ''['') @ Arg_d # Arg_d # map Plain (lit ''-'') @ Arg_d # map Plain (lit ''-'') @ Arg_d #
      map Plain (lit ''T'') @ Arg_d # map Plain (lit '':'') @ Arg_d # map Plain (lit '':'') @ Arg_d #
      map Plain (lit '']  '') @ [])"
  by code_simp

text \<open>
  \<open>get_timestamp\<close> is undefined on every date: its format has seven conversions, and it passes six
  arguments (the day of the month is missing), so that \<open>vsnprintf\<close> fetches an argument that does not
  exist.
\<close>

theorem get_timestamp_undefined:
  assumes "get_date_time D j tr = Some (d, tr')" "100 \<le> length dst"
  shows "\<exists>e. get_timestamp D j dst tr = Some (Inl e)"
proof -
  have nz: "0 \<notin> set (lit ''[%d%d-%d-%dT%d:%d:%d]  '')" by (simp add: lit_def)
  have r: "render (lit ''[%d%d-%d-%dT%d:%d:%d]  '') [VWord (ucast (century d)), VWord (ucast (year d)),
      VWord (ucast (month d)), VWord (ucast (hours d)), VWord (ucast (minutes d)), VWord (ucast (seconds d))] = None"
    unfolding render_def timestamp_format_pieces
    by (simp only: bind.bind_lunit print_pieces_plain print_pieces.simps print_piece.simps byte_decimal(1) option.map
        option.case prod.case)
  have b: "unat (100 :: u32) \<le> length dst" using assms(2) by simp
  show ?thesis
    using vsnprintf_spec(2) [OF nz b r] assms(1) by (auto simp: get_timestamp_def get_timestamp_wrapper_def liftE_def)
qed

theorem get_timestamp_undefined_witness:
  "\<exists>tr1 e. set_date_time (still_chip (\<lambda>_. 0)) date_32 date_32 [] = Some tr1
    \<and> get_timestamp (still_chip (\<lambda>_. 0)) date_32 (replicate 100 0) tr1 = Some (Inl e)"
proof -
  obtain tr1 tr2 where t: "set_date_time (still_chip (\<lambda>_. 0)) date_32 date_32 [] = Some tr1"
    "get_date_time (still_chip (\<lambda>_. 0)) date_32 tr1 = Some (date_32, tr2)"
    using set_get_still by blast
  then show ?thesis using get_timestamp_undefined [OF t(2), of "replicate 100 0"] by simp
qed

end
