(* ===== verification/Pci.thy ===== *)
theory Pci
  imports Interrupts
begin

text \<open>
  kernel/kernel/pci.c: configuration reads through the ports CF8 and CFC, the search for a device,
  and the search of its base addresses. The documented behaviour of the bus is that a read of the
  data port returns the configuration word of the address written last; the words are the
  parameter \<open>cfg\<close> of the hypothesis.
\<close>

unbundle bit_operations_syntax

record PciAddress =
  bus :: int
  slot :: int

datatype PciHeader = General | PciToPci | PciToCardBridge

record Pci =
  address :: PciAddress
  header_type :: PciHeader

definition k_outl :: "u16 \<Rightarrow> u32 \<Rightarrow> kernel \<Rightarrow> kernel" where
  "k_outl port v k = upd_trace (outl port v) k"

definition k_inl :: "env \<Rightarrow> u16 \<Rightarrow> kernel \<Rightarrow> u32 \<times> kernel" where
  "k_inl E port k = (let (v, tr) = inl (devs E) port (k_trace k) in (v, upd_trace (\<lambda>_. tr) k))"

definition config_address :: "u8 \<Rightarrow> u8 \<Rightarrow> u8 \<Rightarrow> u8 \<Rightarrow> u32" where
  "config_address b s func off =
     push_bit 31 1 OR push_bit 16 (ucast b) OR push_bit 11 (ucast s) OR push_bit 8 (ucast func)
       OR (ucast off AND 0xFC)"

definition pci_config_read :: "env \<Rightarrow> u8 \<Rightarrow> u8 \<Rightarrow> u8 \<Rightarrow> u8 \<Rightarrow> kernel \<Rightarrow> (u32 \<times> kernel) effect" where
  "pci_config_read E b s func off k =
     bindE (k_assert E (off AND 3 = 0 \<and> off \<le> 0xFC) ''offset must be 4-byte aligned'' k) (\<lambda>k.
     let k = k_outl 0xCF8 (config_address b s func off) k in Some (Inr (k_inl E 0xCFC k)))"

definition pci_read_register :: "env \<Rightarrow> PciAddress \<Rightarrow> u8 \<Rightarrow> kernel \<Rightarrow> (u32 \<times> kernel) effect" where
  "pci_read_register E a reg k =
     pci_config_read E (word_of_int (bus a)) (word_of_int (slot a)) 0 (reg * 4) k"

definition check_header :: "env \<Rightarrow> PciAddress \<Rightarrow> kernel \<Rightarrow> (Pci \<times> kernel) effect" where
  "check_header E pciAddress k =
     bindE (pci_read_register E pciAddress 3 k) (\<lambda>(v, k).
     let ht = drop_bit 16 v AND 0xFFFF in
     if ht = 0 then Some (Inr (\<lparr>address = pciAddress, header_type = General\<rparr>, k))
     else if ht = 2 then Some (Inr (\<lparr>address = pciAddress, header_type = PciToPci\<rparr>, k))
     else if ht = 3 then Some (Inr (\<lparr>address = pciAddress, header_type = PciToCardBridge\<rparr>, k))
     else k_panics E ''header type could not be identified for pci device'' k)"

text \<open>The two loops, with the number of rounds left; the inner one may find the device.\<close>

fun scan_slots :: "env \<Rightarrow> u16 \<Rightarrow> u16 \<Rightarrow> int \<Rightarrow> int \<Rightarrow> nat \<Rightarrow> kernel \<Rightarrow> (Pci option \<times> kernel) effect" where
  "scan_slots E vendor_id device_id b s 0 k = Some (Inr (None, k))"
| "scan_slots E vendor_id device_id b s (Suc n) k =
     bindE (pci_config_read E (word_of_int b) (word_of_int s) 0 0 k) (\<lambda>(val, k).
     let vendor = ucast (val AND 0xFFFF) :: u16; device = ucast (drop_bit 16 val AND 0xFFFF) :: u16 in
     if vendor \<noteq> 0xFFFF \<and> vendor = vendor_id \<and> device = device_id
     then bindE (check_header E \<lparr>bus = b, slot = s\<rparr> k) (\<lambda>(pci, k). Some (Inr (Some pci, k)))
     else scan_slots E vendor_id device_id b (s + 1) n k)"

fun scan_buses :: "env \<Rightarrow> u16 \<Rightarrow> u16 \<Rightarrow> int \<Rightarrow> nat \<Rightarrow> kernel \<Rightarrow> (Pci \<times> kernel) effect" where
  "scan_buses E vendor_id device_id b 0 k = k_panics E ''Could not find device'' k"
| "scan_buses E vendor_id device_id b (Suc n) k =
     bindE (scan_slots E vendor_id device_id b 0 32 k) (\<lambda>(r, k).
     case r of Some pci \<Rightarrow> Some (Inr (pci, k)) | None \<Rightarrow> scan_buses E vendor_id device_id (b + 1) n k)"

definition find_pci_address :: "env \<Rightarrow> u16 \<Rightarrow> u16 \<Rightarrow> kernel \<Rightarrow> (Pci \<times> kernel) effect" where
  "find_pci_address E vendor_id device_id k = scan_buses E vendor_id device_id 0 256 k"

fun scan_bars :: "env \<Rightarrow> (u32 \<Rightarrow> u32 option) \<Rightarrow> PciAddress \<Rightarrow> u8 \<Rightarrow> nat \<Rightarrow> kernel \<Rightarrow> (u32 \<times> kernel) effect" where
  "scan_bars E pick a i 0 k = k_panics E ''Could not find base address'' k"
| "scan_bars E pick a i (Suc n) k =
     bindE (pci_read_register E a (4 + i) k) (\<lambda>(base_address, k).
     case pick base_address of Some r \<Rightarrow> Some (Inr (r, k)) | None \<Rightarrow> scan_bars E pick a (i + 1) n k)"

definition pick_io :: "u32 \<Rightarrow> u32 option" where
  "pick_io base_address =
     (if base_address AND 1 \<noteq> 0 \<and> 0 < base_address then Some (base_address AND NOT 3) else None)"

definition pick_mmap :: "u32 \<Rightarrow> u32 option" where
  "pick_mmap base_address =
     (if base_address AND 1 = 0 \<and> 0 < base_address then Some (base_address AND NOT 15) else None)"

definition find_io_base :: "env \<Rightarrow> Pci \<Rightarrow> kernel \<Rightarrow> (u32 \<times> kernel) effect" where
  "find_io_base E pci k =
     bindE (k_assert E (header_type pci = General) ''find_io_base cannot be used for non General pci devices'' k)
       (scan_bars E pick_io (address pci) 0 6)"

definition find_mmap_base :: "env \<Rightarrow> Pci \<Rightarrow> kernel \<Rightarrow> (u32 \<times> kernel) effect" where
  "find_mmap_base E pci k =
     bindE (k_assert E (header_type pci = General) ''find_io_base cannot be used for non General pci devices'' k)
       (scan_bars E pick_mmap (address pci) 0 6)"

subsection \<open>The bus\<close>

definition pci_bus :: "(u32 \<Rightarrow> u32) \<Rightarrow> devices \<Rightarrow> bool" where
  "pci_bus cfg D \<longleftrightarrow> (\<forall>a tr. dev32 D (Out32 0xCF8 a # tr) 0xCFC = cfg a)"

text \<open>Accesses to the two configuration ports, and states that differ by such accesses.\<close>

fun config_event :: "io_event \<Rightarrow> bool" where
  "config_event (Out32 p v) = (p = 0xCF8)"
| "config_event (In32 p v) = (p = 0xCFC)"
| "config_event _ = False"

definition touched :: "kernel \<Rightarrow> kernel \<Rightarrow> bool" where
  "touched k k' \<longleftrightarrow> (\<exists>es. k' = upd_trace ((@) es) k \<and> list_all config_event es)"

lemma touched_refl: "touched k k"
  by (auto simp: touched_def upd_trace_def k_trace_def intro!: exI [of _ "[]"])

lemma touched_upd:
  assumes "touched k k'" "config_event e1" "config_event e2"
  shows "touched k (upd_trace (\<lambda>tr. e1 # e2 # tr) k')"
proof -
  obtain es where es: "k' = upd_trace ((@) es) k" "list_all config_event es"
    using assms(1) by (auto simp: touched_def)
  have "(@) (e1 # e2 # es) = (\<lambda>tr. e1 # e2 # es @ tr)" by auto
  then show ?thesis
    using es assms(2,3) unfolding touched_def by (intro exI [of _ "e1 # e2 # es"]) (simp add: comp_def)
qed

lemma touched_log_ok: "touched k k' \<Longrightarrow> log_ok k' = log_ok k"
  by (auto simp: touched_def)

lemma config_read_spec:
  assumes "pci_bus cfg (devs E)" "off AND 3 = 0" "off \<le> 0xFC" "touched k0 k"
  shows "\<exists>k'. pci_config_read E b s func off k = Some (Inr (cfg (config_address b s func off), k')) \<and> touched k0 k'"
proof -
  let ?a = "config_address b s func off"
  have u: "upd_trace (\<lambda>_. In32 0xCFC v # Out32 0xCF8 ?a # k_trace k) k = upd_trace (\<lambda>tr. In32 0xCFC v # Out32 0xCF8 ?a # tr) k" for v
    by (simp add: upd_trace_def)
  have "touched k0 (upd_trace (\<lambda>tr. In32 0xCFC v # Out32 0xCF8 ?a # tr) k)" for v
    by (intro touched_upd [OF assms(4)]) simp_all
  then show ?thesis
    using assms(1-3)
    by (simp add: pci_config_read_def k_assert_def k_outl_def k_inl_def outl_def inl_def Let_def pci_bus_def comp_def u)
qed

text \<open>A configuration word of function 0, and whether it is that of the device looked for.\<close>

definition config_word :: "(u32 \<Rightarrow> u32) \<Rightarrow> int \<Rightarrow> int \<Rightarrow> u8 \<Rightarrow> u32" where
  "config_word cfg b s reg = cfg (config_address (word_of_int b) (word_of_int s) 0 (reg * 4))"

definition is_device :: "(u32 \<Rightarrow> u32) \<Rightarrow> u16 \<Rightarrow> u16 \<Rightarrow> int \<Rightarrow> int \<Rightarrow> bool" where
  "is_device cfg vendor_id device_id b s \<longleftrightarrow> vendor_id \<noteq> 0xFFFF
     \<and> config_word cfg b s 0 = ucast vendor_id OR push_bit 16 (ucast device_id)"

definition header_of :: "(u32 \<Rightarrow> u32) \<Rightarrow> int \<Rightarrow> int \<Rightarrow> PciHeader option" where
  "header_of cfg b s = (let ht = ucast (drop_bit 16 (config_word cfg b s 3)) :: u16 in
     if ht = 0 then Some General else if ht = 2 then Some PciToPci
     else if ht = 3 then Some PciToCardBridge else None)"

lemma match_word:
  "ucast (val AND 0xFFFF) = v \<and> ucast (drop_bit 16 val AND 0xFFFF) = d \<longleftrightarrow>
    val = ucast v OR push_bit 16 (ucast d)" for val :: u32 and v d :: u16
proof -
  have m: "(0xFFFF :: u32) = mask 16" by (simp add: mask_eq_exp_minus_1)
  have "ucast (val AND mask 16) = v \<and> ucast (drop_bit 16 val AND mask 16) = d" if "val = ucast v OR push_bit 16 (ucast d)"
  proof -
    have "\<not> bit v (16 + n)" for n using bit_imp_le_length [of v "16 + n"] by auto
    then show ?thesis unfolding that by (auto intro!: bit_word_eqI simp: bit_simps)
  qed
  moreover have "val = ucast v OR push_bit 16 (ucast d)"
    if "ucast (val AND mask 16) = v" "ucast (drop_bit 16 val AND mask 16) = d"
  proof (rule bit_word_eqI)
    fix n
    assume "n < LENGTH(32)"
    then show "bit val n = bit (ucast v OR push_bit 16 (ucast d) :: u32) n"
      unfolding that [symmetric] by (cases "n < 16") (auto simp: bit_simps)
  qed
  ultimately show ?thesis unfolding m by blast
qed

definition pci_found :: "(u32 \<Rightarrow> u32) \<Rightarrow> int \<times> int \<Rightarrow> kerror + Pci" where
  "pci_found cfg bs = (case header_of cfg (fst bs) (snd bs) of
     Some h \<Rightarrow> Inr \<lparr>address = \<lparr>bus = fst bs, slot = snd bs\<rparr>, header_type = h\<rparr>
   | None \<Rightarrow> Inl (Panic ''header type could not be identified for pci device''))"

definition returns :: "kernel \<Rightarrow> (kerror + 'a) \<Rightarrow> ('a \<times> kernel) effect \<Rightarrow> bool" where
  "returns k0 r e \<longleftrightarrow> (case r of Inl err \<Rightarrow> e = Some (Inl err)
     | Inr x \<Rightarrow> \<exists>k'. e = Some (Inr (x, k')) \<and> touched k0 k')"

lemma ucast_low16: "ucast (w AND 0xFFFF) = (ucast w :: u16)" for w :: u32
proof -
  have m: "(0xFFFF :: u32) = mask 16" by (simp add: mask_eq_exp_minus_1)
  show ?thesis unfolding m by (rule bit_word_eqI) (auto simp: bit_simps)
qed

lemma header_cond: "w AND 0xFFFF = of_nat h \<longleftrightarrow> (ucast w :: u16) = of_nat h" if "h < 2 ^ 16" for w :: u32
proof -
  have m: "(0xFFFF :: u32) = mask 16" by (simp add: mask_eq_exp_minus_1)
  have "uint (w AND 0xFFFF) = uint (ucast w :: u16)"
    by (simp add: m unsigned_ucast_eq unsigned_take_bit_eq flip: take_bit_eq_mask)
  moreover have "uint (of_nat h :: u32) = int h" "uint (of_nat h :: u16) = int h"
    using that by (simp_all add: unsigned_of_nat take_bit_nat_eq_self)
  ultimately show ?thesis by (simp add: word_uint_eq_iff)
qed

lemma check_header_spec:
  assumes "pci_bus cfg (devs E)" "env_ok E" "log_ok k0" "touched k0 k"
  shows "returns k0 (pci_found cfg (b, s)) (check_header E \<lparr>bus = b, slot = s\<rparr> k)"
proof -
  have r: "(3 :: u8) * 4 AND 3 = 0" "(3 :: u8) * 4 \<le> 0xFC" by simp_all
  obtain k' where k': "pci_config_read E (word_of_int b) (word_of_int s) 0 (3 * 4) k =
      Some (Inr (config_word cfg b s 3, k'))" "touched k0 k'"
    using config_read_spec [OF assms(1) r assms(4), of "word_of_int b" "word_of_int s" 0] by (auto simp: config_word_def)
  have p: "k_panics E ''header type could not be identified for pci device'' k' =
      (Some (Inl (Panic ''header type could not be identified for pci device'')) :: (Pci \<times> kernel) effect)"
    using touched_log_ok [OF k'(2)] assms(3) by (intro k_panics_spec [OF assms(2)]) (simp_all add: lit_def c_content_def)
  show ?thesis
    using k' p header_cond [of 0 "drop_bit 16 (config_word cfg b s 3)"] header_cond [of 2 "drop_bit 16 (config_word cfg b s 3)"]
      header_cond [of 3 "drop_bit 16 (config_word cfg b s 3)"]
    by (simp add: check_header_def pci_read_register_def Let_def returns_def pci_found_def header_of_def)
qed

lemma scan_slots_spec:
  assumes "pci_bus cfg (devs E)" "env_ok E" "log_ok k0"
  shows "touched k0 k \<Longrightarrow> case find (is_device cfg v d b) [s..s + int n - 1] of
      None \<Rightarrow> \<exists>k'. scan_slots E v d b s n k = Some (Inr (None, k')) \<and> touched k0 k'
    | Some s' \<Rightarrow> returns k0 (case pci_found cfg (b, s') of Inl e \<Rightarrow> Inl e | Inr p \<Rightarrow> Inr (Some p)) (scan_slots E v d b s n k)"
proof (induction n arbitrary: s k)
  case 0
  then show ?case by auto
next
  case (Suc n)
  have r: "(0 :: u8) AND 3 = 0" "(0 :: u8) \<le> 0xFC" by simp_all
  obtain k1 where k1: "pci_config_read E (word_of_int b) (word_of_int s) 0 0 k =
      Some (Inr (config_word cfg b s 0, k1))" "touched k0 k1"
    using config_read_spec [OF assms(1) r Suc.prems, of "word_of_int b" "word_of_int s" 0] by (auto simp: config_word_def)
  let ?w = "config_word cfg b s 0"
  have dev: "(ucast (?w AND 0xFFFF) \<noteq> (0xFFFF :: u16) \<and> ucast (?w AND 0xFFFF) = v \<and> ucast (drop_bit 16 ?w AND 0xFFFF) = d) \<longleftrightarrow>
      is_device cfg v d b s"
    using match_word [of ?w v d] by (auto simp: is_device_def)
  have list: "[s..s + int (Suc n) - 1] = s # [s + 1..s + 1 + int n - 1]"
    using upto_rec1 [of s "s + int n"] by (simp add: add.commute)
  show ?case
  proof (cases "is_device cfg v d b s")
    case True
    then show ?thesis
      using check_header_spec [OF assms k1(2), of b s] k1(1) dev unfolding list
      by (auto simp: Let_def returns_def split: sum.splits)
  next
    case False
    then have step: "scan_slots E v d b s (Suc n) k = scan_slots E v d b (s + 1) n k1"
      using k1(1) dev by (auto simp: Let_def)
    show ?thesis using Suc.IH [OF k1(2), of "s + 1"] False unfolding list step by simp
  qed
qed

definition pci_slots :: "int \<Rightarrow> nat \<Rightarrow> (int \<times> int) list" where
  "pci_slots b n = concat (map (\<lambda>b. map (Pair b) [0..31]) [b..b + int n - 1])"

lemma find_append: "find P (xs @ ys) = (case find P xs of None \<Rightarrow> find P ys | Some x \<Rightarrow> Some x)"
  by (induction xs) auto

lemma find_map_Pair: "find P (map (Pair b) xs) = map_option (Pair b) (find (\<lambda>s. P (b, s)) xs)"
  by (induction xs) auto

lemma scan_buses_spec:
  assumes "pci_bus cfg (devs E)" "env_ok E" "log_ok k0"
  shows "touched k0 k \<Longrightarrow> returns k0
    (case find (\<lambda>(b, s). is_device cfg v d b s) (pci_slots b n) of
       None \<Rightarrow> Inl (Panic ''Could not find device'') | Some bs \<Rightarrow> pci_found cfg bs)
    (scan_buses E v d b n k)"
proof (induction n arbitrary: b k)
  case 0
  have "k_panics E ''Could not find device'' k = (Some (Inl (Panic ''Could not find device'')) :: (Pci \<times> kernel) effect)"
    using touched_log_ok [OF 0] assms(3) by (intro k_panics_spec [OF assms(2)]) (simp_all add: lit_def c_content_def)
  then show ?case by (simp add: pci_slots_def returns_def)
next
  case (Suc n)
  have list: "pci_slots b (Suc n) = map (Pair b) [0..31] @ pci_slots (b + 1) n"
    using upto_rec1 [of b "b + int n"] by (simp add: pci_slots_def add.commute)
  note slots = scan_slots_spec [OF assms Suc.prems, of v d b 0 32]
  show ?case
  proof (cases "find (is_device cfg v d b) [0..31]")
    case None
    then obtain k1 where "scan_slots E v d b 0 32 k = Some (Inr (None, k1))" "touched k0 k1"
      using slots by auto
    then show ?thesis using Suc.IH [of k1 "b + 1"] None by (simp add: list find_append find_map_Pair)
  next
    case (Some s')
    then show ?thesis using slots
      by (auto simp: list find_append find_map_Pair returns_def split: sum.splits)
  qed
qed

subsection \<open>Base addresses\<close>

lemma scan_bars_spec:
  assumes "pci_bus cfg (devs E)" "env_ok E" "log_ok k0"
  shows "touched k0 k \<Longrightarrow> i + n \<le> 6 \<Longrightarrow> returns k0
    (case find (\<lambda>j. pick (config_word cfg b s (4 + of_nat j)) \<noteq> None) [i..<i + n] of
       None \<Rightarrow> Inl (Panic ''Could not find base address'')
     | Some j \<Rightarrow> Inr (the (pick (config_word cfg b s (4 + of_nat j)))))
    (scan_bars E pick \<lparr>bus = b, slot = s\<rparr> (of_nat i) n k)"
proof (induction n arbitrary: i k)
  case 0
  have "k_panics E ''Could not find base address'' k = (Some (Inl (Panic ''Could not find base address'')) :: (u32 \<times> kernel) effect)"
    using touched_log_ok [OF 0(1)] assms(3) by (intro k_panics_spec [OF assms(2)]) (simp_all add: lit_def c_content_def)
  then show ?case by (simp add: returns_def)
next
  case (Suc n)
  then have i: "i \<in> {0, 1, 2, 3, 4, 5}" by auto
  have r: "((4 + of_nat i) * 4 :: u8) AND 3 = 0" "((4 + of_nat i) * 4 :: u8) \<le> 0xFC"
    using i by auto
  obtain k1 where k1: "pci_config_read E (word_of_int b) (word_of_int s) 0 ((4 + of_nat i) * 4) k =
      Some (Inr (config_word cfg b s (4 + of_nat i), k1))" "touched k0 k1"
    using config_read_spec [OF assms(1) r Suc.prems(1), of "word_of_int b" "word_of_int s" 0] by (auto simp: config_word_def)
  have list: "[i..<i + Suc n] = i # [Suc i..<Suc i + n]" by (simp add: upt_rec)
  have w: "of_nat i + 1 = (of_nat (Suc i) :: u8)" by simp
  show ?case
    unfolding list using Suc.IH [OF k1(2), of "Suc i"] k1 Suc.prems(2)
    by (cases "pick (config_word cfg b s (4 + of_nat i))")
      (auto simp: pci_read_register_def returns_def w simp del: of_nat_Suc)
qed

lemma bars_found:
  assumes "pci_bus cfg (devs E)" "env_ok E" "log_ok k"
    and pick: "\<And>j. pick (config_word cfg b s (4 + of_nat j)) = (if c j then Some (r j) else None)"
  shows "case find c [0..<6] of
      None \<Rightarrow> scan_bars E pick \<lparr>bus = b, slot = s\<rparr> 0 6 k = Some (Inl (Panic ''Could not find base address''))
    | Some j \<Rightarrow> \<exists>es. scan_bars E pick \<lparr>bus = b, slot = s\<rparr> 0 6 k = Some (Inr (r j, upd_trace ((@) es) k)) \<and> list_all config_event es"
proof -
  have c: "(\<lambda>j. pick (config_word cfg b s (4 + of_nat j)) \<noteq> None) = c" by (auto simp: pick)
  have "find c xs = Some j \<Longrightarrow> c j" for xs j by (auto simp: find_Some_iff)
  then show ?thesis
    using scan_bars_spec [OF assms(1-3) touched_refl, of 0 6 pick b s] unfolding c
    by (auto simp: returns_def touched_def pick split: option.splits)
qed

lemma low_bit: "w AND 1 = 0 \<longleftrightarrow> \<not> bit w 0" for w :: u32
  by (simp add: and_one_eq bit_0 odd_iff_mod_2_eq_one)

lemma find_pci_address_spec:
  assumes "pci_bus cfg (devs E)" "env_ok E" "log_ok k"
  shows "case find (\<lambda>(b, s). is_device cfg vendor_id device_id b s) (pci_slots 0 256) of
      None \<Rightarrow> find_pci_address E vendor_id device_id k = Some (Inl (Panic ''Could not find device''))
    | Some (b, s) \<Rightarrow> (case header_of cfg b s of
        None \<Rightarrow> find_pci_address E vendor_id device_id k =
          Some (Inl (Panic ''header type could not be identified for pci device''))
      | Some h \<Rightarrow> \<exists>es. find_pci_address E vendor_id device_id k =
          Some (Inr (\<lparr>address = \<lparr>bus = b, slot = s\<rparr>, header_type = h\<rparr>, upd_trace ((@) es) k))
          \<and> list_all config_event es)"
  using scan_buses_spec [OF assms touched_refl, of vendor_id device_id 0 256]
  by (auto simp: find_pci_address_def returns_def pci_found_def touched_def split: option.splits)

lemma base_addresses_spec:
  assumes "pci_bus cfg (devs E)" "env_ok E" "log_ok k" "header_type pci = General"
  defines "bar \<equiv> \<lambda>j. config_word cfg (bus (address pci)) (slot (address pci)) (4 + of_nat j)"
  shows "(case find (\<lambda>j. bit (bar j) 0) [0..<6] of
      None \<Rightarrow> find_io_base E pci k = Some (Inl (Panic ''Could not find base address''))
    | Some j \<Rightarrow> \<exists>es. find_io_base E pci k = Some (Inr (bar j AND NOT 3, upd_trace ((@) es) k)) \<and> list_all config_event es)
    \<and> (case find (\<lambda>j. \<not> bit (bar j) 0 \<and> 0 < bar j) [0..<6] of
      None \<Rightarrow> find_mmap_base E pci k = Some (Inl (Panic ''Could not find base address''))
    | Some j \<Rightarrow> \<exists>es. find_mmap_base E pci k = Some (Inr (bar j AND NOT 15, upd_trace ((@) es) k)) \<and> list_all config_event es)"
proof -
  obtain b s where a: "address pci = \<lparr>bus = b, slot = s\<rparr>" by (metis PciAddress.surjective unit.exhaust)
  have bar: "bar = (\<lambda>j. config_word cfg b s (4 + of_nat j))" by (simp add: bar_def a)
  have "pick_io (bar j) = (if bit (bar j) 0 then Some (bar j AND NOT 3) else None)" for j
    by (auto simp: pick_io_def low_bit word_gt_0)
  then have io: "\<And>j. pick_io (config_word cfg b s (4 + of_nat j)) =
      (if bit (bar j) 0 then Some (bar j AND NOT 3) else None)"
    unfolding bar .
  have "pick_mmap (bar j) = (if \<not> bit (bar j) 0 \<and> 0 < bar j then Some (bar j AND NOT 15) else None)" for j
    by (auto simp: pick_mmap_def low_bit)
  then have mmap: "\<And>j. pick_mmap (config_word cfg b s (4 + of_nat j)) =
      (if \<not> bit (bar j) 0 \<and> 0 < bar j then Some (bar j AND NOT 15) else None)"
    unfolding bar .
  have "find_io_base E pci k = scan_bars E pick_io \<lparr>bus = b, slot = s\<rparr> 0 6 k"
    "find_mmap_base E pci k = scan_bars E pick_mmap \<lparr>bus = b, slot = s\<rparr> 0 6 k"
    by (simp_all add: find_io_base_def find_mmap_base_def k_assert_def assms(4) a)
  then show ?thesis
    using bars_found [OF assms(1-3), of pick_io b s "\<lambda>j. bit (bar j) 0" "\<lambda>j. bar j AND NOT 3", OF io]
      bars_found [OF assms(1-3), of pick_mmap b s "\<lambda>j. \<not> bit (bar j) 0 \<and> 0 < bar j" "\<lambda>j. bar j AND NOT 15", OF mmap]
    by (simp only:)
qed

subsection \<open>Properties\<close>

text \<open>
  C23. On a bus that answers configuration reads by address, \<open>find_pci_address\<close> finds the first
  device with the two identifiers in the order of buses and slots, reads its header type, and
  accesses nothing but the two configuration ports; it panics when there is no such device or its header type is not
  one of the three it knows.
\<close>

theorem find_pci_address_finds_first:
  assumes "pci_bus cfg (devs E)" "env_ok E" "log_ok k"
  shows "case find (\<lambda>(b, s). is_device cfg vendor_id device_id b s) (pci_slots 0 256) of
      None \<Rightarrow> find_pci_address E vendor_id device_id k = Some (Inl (Panic ''Could not find device''))
    | Some (b, s) \<Rightarrow> (case header_of cfg b s of
        None \<Rightarrow> find_pci_address E vendor_id device_id k =
          Some (Inl (Panic ''header type could not be identified for pci device''))
      | Some h \<Rightarrow> \<exists>es. find_pci_address E vendor_id device_id k =
          Some (Inr (\<lparr>address = \<lparr>bus = b, slot = s\<rparr>, header_type = h\<rparr>, upd_trace ((@) es) k))
          \<and> list_all config_event es)"
  using find_pci_address_spec [OF assms] .

definition one_device :: "u32 \<Rightarrow> u32" where
  "one_device a = (if a = 0x80001800 then 0x813910EC else if a = 0x8000180C then 0
     else if a = 0x80001810 then 0xC001 else if a = 0x80001814 then 0xFEBC0000 else 0xFFFFFFFF)"

definition pci_env :: env where
  "pci_env = test_env\<lparr>devs := \<lparr>dev8 = dev8 (uart_device 0),
     dev32 = (\<lambda>tr _. case tr of Out32 p a # _ \<Rightarrow> one_device a | _ \<Rightarrow> 0)\<rparr>\<rparr>"

lemma pci_env_facts: "pci_bus one_device (devs pci_env)" "env_ok pci_env"
proof -
  show "pci_bus one_device (devs pci_env)" by (simp add: pci_bus_def pci_env_def)
  have "polls \<lparr>dev8 = dev8 (uart_device 0), dev32 = d\<rparr> n tr = polls (uart_device 0) n tr" for d n tr
    by (induction n arbitrary: tr) (simp_all add: inb_def)
  then show "env_ok pci_env"
    using uart_device_empties [of 0] by (simp add: env_ok_def pci_env_def test_env_def transmitter_empties_def)
qed

lemma one_device_found: "find (\<lambda>(b, s). is_device one_device 0x10EC 0x8139 b s) (pci_slots 0 256) = Some (0, 3)"
proof -
  have "pci_slots 0 256 = [(0, 0), (0, 1), (0, 2)] @ (0, 3) # map (Pair 0) [4..31] @ pci_slots 1 255"
    by (simp add: pci_slots_def upto_rec1 [of 0 255] upto_rec1 [of 0 31] upto_rec1 [of 1 31] upto_rec1 [of 2 31] upto_rec1 [of 3 31])
  then show ?thesis
    by (simp add: is_device_def config_word_def config_address_def one_device_def)
qed

theorem find_pci_address_finds_first_witness:
  "\<exists>es. find_pci_address pci_env 0x10EC 0x8139 boot_kernel =
    Some (Inr (\<lparr>address = \<lparr>bus = 0, slot = 3\<rparr>, header_type = General\<rparr>, upd_trace ((@) es) boot_kernel))
    \<and> list_all config_event es"
proof -
  have h: "header_of one_device 0 3 = Some General"
    by (simp add: header_of_def config_word_def config_address_def one_device_def)
  show ?thesis
    using find_pci_address_finds_first [OF pci_env_facts boot_log_ok, of "0x10EC" "0x8139"]
    by (simp add: one_device_found h)
qed

text \<open>
  \<open>find_io_base\<close> and \<open>find_mmap_base\<close> return the first of the six base address registers of
  their kind, without its flag bits; the others are skipped, and without any the kernel panics.
\<close>

theorem pci_base_addresses:
  assumes "pci_bus cfg (devs E)" "env_ok E" "log_ok k" "header_type pci = General"
  defines "bar \<equiv> \<lambda>j. config_word cfg (bus (address pci)) (slot (address pci)) (4 + of_nat j)"
  shows "(case find (\<lambda>j. bit (bar j) 0) [0..<6] of
      None \<Rightarrow> find_io_base E pci k = Some (Inl (Panic ''Could not find base address''))
    | Some j \<Rightarrow> \<exists>es. find_io_base E pci k = Some (Inr (bar j AND NOT 3, upd_trace ((@) es) k)) \<and> list_all config_event es)
    \<and> (case find (\<lambda>j. \<not> bit (bar j) 0 \<and> 0 < bar j) [0..<6] of
      None \<Rightarrow> find_mmap_base E pci k = Some (Inl (Panic ''Could not find base address''))
    | Some j \<Rightarrow> \<exists>es. find_mmap_base E pci k = Some (Inr (bar j AND NOT 15, upd_trace ((@) es) k)) \<and> list_all config_event es)"
  unfolding bar_def using base_addresses_spec [OF assms(1-4)] .

theorem pci_base_addresses_witness:
  "\<exists>es. find_mmap_base pci_env \<lparr>address = \<lparr>bus = 0, slot = 3\<rparr>, header_type = General\<rparr> boot_kernel =
    Some (Inr (0xFEBC0000, upd_trace ((@) es) boot_kernel)) \<and> list_all config_event es"
proof -
  have f: "find (\<lambda>j. \<not> bit (config_word one_device 0 3 (4 + of_nat j)) 0 \<and> 0 < config_word one_device 0 3 (4 + of_nat j)) [0..<6] = Some 1"
    by (simp add: upt_rec config_word_def config_address_def one_device_def bit_0)
  have w: "config_word one_device 0 3 5 AND - 16 = 0xFEBC0000"
    by (simp add: config_word_def config_address_def one_device_def)
  show ?thesis
    using pci_base_addresses [OF pci_env_facts boot_log_ok, of "\<lparr>address = \<lparr>bus = 0, slot = 3\<rparr>, header_type = General\<rparr>"]
    by (simp add: f w)
qed

end
