(* ===== verification/Multiboot.thy ===== *)
theory Multiboot
  imports Memory
begin

text \<open>
  The records the boot loader leaves in memory (kernel/include/kernel/multiboot.h), read at the
  offsets of their packed layout. Only the members the kernel reads have a reader.
\<close>

definition load64 :: "mem \<Rightarrow> u32 \<Rightarrow> u64" where
  "load64 m a = ucast (load32 m a) OR push_bit 32 (ucast (load32 m (a + 4)))"

definition mbd_flags :: "mem \<Rightarrow> u32 \<Rightarrow> u32" where
  "mbd_flags m mbd = load32 m mbd"

definition mbd_mmap_length :: "mem \<Rightarrow> u32 \<Rightarrow> u32" where
  "mbd_mmap_length m mbd = load32 m (mbd + 44)"

definition mbd_mmap_addr :: "mem \<Rightarrow> u32 \<Rightarrow> u32" where
  "mbd_mmap_addr m mbd = load32 m (mbd + 48)"

record mmap_entry =
  me_size :: u32
  me_addr :: u64
  me_len :: u64
  me_type :: u32

definition sizeof_mmap_entry :: nat where
  "sizeof_mmap_entry = 24"

definition read_mmap_entry :: "mem \<Rightarrow> u32 \<Rightarrow> mmap_entry" where
  "read_mmap_entry m p = \<lparr>me_size = load32 m p, me_addr = load64 m (p + 4),
     me_len = load64 m (p + 12), me_type = load32 m (p + 20)\<rparr>"

text \<open>\<open>KERNEL_START\<close> is fixed by the linker script; \<open>KERNEL_END\<close> depends on the image.\<close>

definition KERNEL_START :: u32 where
  "KERNEL_START = 0x100000"

text \<open>
  The loop of \<open>initialize_free_segments\<close> over the memory map. Its counter is an \<open>int\<close>: stepping
  it past \<open>INT_MAX\<close> is undefined.
\<close>

function find_big_block :: "mem \<Rightarrow> u32 \<Rightarrow> nat \<Rightarrow> kerror + mmap_entry option" where
  "find_big_block m mbd i =
     (if i < unat (mbd_mmap_length m mbd)
      then let mmmt = read_mmap_entry m (mbd_mmap_addr m mbd + of_nat i)
           in if (ucast (me_addr mmmt) :: u32) = KERNEL_START then Inr (Some mmmt)
              else if 2 ^ 31 \<le> i + sizeof_mmap_entry then Inl (Undefined ''signed overflow'')
              else find_big_block m mbd (i + sizeof_mmap_entry)
      else Inr None)"
  by pat_completeness auto
termination
  by (relation "measure (\<lambda>(m, mbd, i). 2 ^ 31 - i)") (auto simp: sizeof_mmap_entry_def)

declare find_big_block.simps [simp del]

lemma find_big_block_Some:
  "find_big_block m mbd i = Inr (Some e) \<Longrightarrow>
    \<exists>k. e = read_mmap_entry m (mbd_mmap_addr m mbd + of_nat (i + sizeof_mmap_entry * k))
      \<and> i + sizeof_mmap_entry * k < unat (mbd_mmap_length m mbd)
      \<and> (ucast (me_addr e) :: u32) = KERNEL_START"
proof (induction m mbd i rule: find_big_block.induct)
  case (1 m mbd i)
  let ?e = "read_mmap_entry m (mbd_mmap_addr m mbd + of_nat i)"
  show ?case
  proof (cases "i < unat (mbd_mmap_length m mbd) \<and> (ucast (me_addr ?e) :: u32) = KERNEL_START")
    case True
    with "1.prems" show ?thesis
      by (intro exI [of _ 0]) (simp add: find_big_block.simps [of m mbd i])
  next
    case False
    with "1.prems" have n: "i < unat (mbd_mmap_length m mbd)" "\<not> 2 ^ 31 \<le> i + sizeof_mmap_entry"
        "find_big_block m mbd (i + sizeof_mmap_entry) = Inr (Some e)"
      by (auto simp: find_big_block.simps [of m mbd i] Let_def split: if_splits)
    from "1.IH" [OF n(1) refl _ n(2) n(3)] False n(1) obtain k where
      "e = read_mmap_entry m (mbd_mmap_addr m mbd + of_nat (i + sizeof_mmap_entry + sizeof_mmap_entry * k))"
      "i + sizeof_mmap_entry + sizeof_mmap_entry * k < unat (mbd_mmap_length m mbd)"
      "(ucast (me_addr e) :: u32) = KERNEL_START" by auto
    then show ?thesis by (intro exI [of _ "Suc k"]) (simp add: ac_simps)
  qed
qed

end
