(* ===== verification/Heap_Init.thy ===== *)
theory Heap_Init
  imports Heap_Run Multiboot
begin

text \<open>
  The start of the heap: \<open>initialize_free_segments\<close> looks up the memory-map entry that starts
  at the kernel image and turns everything behind the image into one free segment.
\<close>

definition initialize_free_segments :: "u32 \<Rightarrow> heap \<Rightarrow> u32 \<Rightarrow> kerror + heap" where
  "initialize_free_segments kernel_end h mbd =
     (if mbd = 0 then Inl (Panic ''mbd is NULL'')
      else if freeSegment h \<noteq> 0 then Inl (Panic ''freeSegment is already initialized'')
      else case find_big_block (bytes h) mbd 0 of
        Inl e \<Rightarrow> Inl e
      | Inr None \<Rightarrow> Inl (Panic ''Could not find a big block of memory!'')
      | Inr (Some entry) \<Rightarrow>
          let reserved_mem_length = kernel_end - KERNEL_START;
              big_block_size = ucast (me_len entry - ucast reserved_mem_length - 8 :: u64) :: u32;
              m = set_size (bytes h) kernel_end big_block_size;
              m = set_next m kernel_end 0
          in Inr (h\<lparr>bytes := m, freeSegment := kernel_end\<rparr>))"

lemma big_block_size:
  assumes "KERNEL_START \<le> kernel_end" and "unat kernel_end + 8 \<le> unat KERNEL_START + unat len"
    and "unat KERNEL_START + unat (len :: u64) < 2 ^ 32"
  shows "unat (ucast (len - ucast (kernel_end - KERNEL_START) - 8 :: u64) :: u32)
    = unat KERNEL_START + unat len - unat kernel_end - 8"
proof -
  have r: "unat (kernel_end - KERNEL_START) = unat kernel_end - unat KERNEL_START"
    using assms(1) by (simp add: unat_sub_le word_le_nat_alt)
  have "unat (ucast (kernel_end - KERNEL_START) :: u64) = unat kernel_end - unat KERNEL_START"
    using r assms(2,3) by (simp add: unsigned_ucast_eq take_bit_nat_eq_self)
  then have "unat (len - ucast (kernel_end - KERNEL_START) - 8 :: u64)
      = unat len - (unat kernel_end - unat KERNEL_START) - 8"
    using assms by (simp add: unat_sub_if' word_le_nat_alt) arith
  moreover have "unat len - (unat kernel_end - unat KERNEL_START) - 8
      = unat KERNEL_START + unat len - unat kernel_end - 8"
    using assms(1) by (simp add: word_le_nat_alt)
  ultimately show ?thesis
    using assms(2,3) by (simp add: unsigned_ucast_eq take_bit_nat_eq_self)
qed

lemma initialize_establishes:
  assumes "mbd \<noteq> 0" and "freeSegment h = 0" and "find_big_block (bytes h) mbd 0 = Inr (Some entry)"
    and "KERNEL_START \<le> kernel_end"
    and "unat kernel_end + 8 \<le> unat KERNEL_START + unat (me_len entry)"
    and "unat KERNEL_START + unat (me_len entry) < 2 ^ 32"
  shows "\<exists>h'. initialize_free_segments kernel_end h mbd = Inr h' \<and> freeSegment h' = kernel_end
    \<and> heap_rel (unat KERNEL_START + unat (me_len entry))
        [Free (unat KERNEL_START + unat (me_len entry) - unat kernel_end - 8)] h'
    \<and> (\<forall>x. unat x < unat kernel_end \<or> unat kernel_end + 8 \<le> unat x \<longrightarrow> bytes h' x = bytes h x)"
proof -
  let ?n = "unat KERNEL_START + unat (me_len entry) - unat kernel_end - 8"
  let ?s = "ucast (me_len entry - ucast (kernel_end - KERNEL_START) - 8 :: u64) :: u32"
  define h' where "h' = h\<lparr>bytes := set_next (set_size (bytes h) kernel_end ?s) kernel_end 0,
    freeSegment := kernel_end\<rparr>"
  have i: "initialize_free_segments kernel_end h mbd = Inr h'"
    by (simp add: initialize_free_segments_def assms(1-3) Let_def h'_def)
  have "unat ?s = ?n" using assms(4-6) by (rule big_block_size)
  then have s: "?s = of_nat ?n" by (metis of_nat_unat ucast_id)
  have b: "unat kernel_end + 8 \<le> 2 ^ 32" using assms(5,6) by simp
  have "0 < unat kernel_end" using assms(4) by (simp add: KERNEL_START_def word_le_nat_alt)
  moreover have "seg_size (bytes h') kernel_end = of_nat ?n" "seg_next (bytes h') kernel_end = 0"
    unfolding h'_def s by (simp_all add: hdr_self [OF b] hdr_same)
  ultimately have "heap_rel (unat KERNEL_START + unat (me_len entry)) [Free ?n] h'"
    using assms(5,6) by (simp add: heap_rel_def h'_def coalesced_Cons_iff)
  moreover have "\<forall>x. unat x < unat kernel_end \<or> unat kernel_end + 8 \<le> unat x \<longrightarrow> bytes h' x = bytes h x"
    by (auto simp: h'_def hdr_bytes [OF b])
  ultimately show ?thesis using i by (auto simp: h'_def)
qed

text \<open>
  C20. On a memory map with an entry for the kernel image that reaches past its end and stays
  below 4 GiB, \<open>initialize_free_segments\<close> succeeds and establishes the invariant: one free
  segment fills the region from \<open>KERNEL_END\<close> to the end of that entry, and nothing is live.
\<close>

theorem initialize_free_segments_correct:
  assumes "mbd \<noteq> 0" and "freeSegment h = 0" and "find_big_block (bytes h) mbd 0 = Inr (Some entry)"
    and "KERNEL_START \<le> kernel_end"
    and "unat kernel_end + 8 \<le> unat KERNEL_START + unat (me_len entry)"
    and "unat KERNEL_START + unat (me_len entry) < 2 ^ 32"
  shows "\<exists>h'. initialize_free_segments kernel_end h mbd = Inr h' \<and> freeSegment h' = kernel_end
    \<and> heap_inv (unat KERNEL_START + unat (me_len entry)) h'
    \<and> heap_live (unat KERNEL_START + unat (me_len entry)) h' = []
    \<and> free_segs (unat kernel_end) (heap_blocks (unat KERNEL_START + unat (me_len entry)) h')
        = [(unat kernel_end, unat KERNEL_START + unat (me_len entry) - unat kernel_end - 8)]"
  using initialize_establishes [OF assms]
  by (auto simp: heap_rel_inv heap_rel_blocks heap_live_def)

definition boot_memory :: mem where
  "boot_memory = store32 (store32 (store32 (store32 (store32 (store32 (store32 (\<lambda>_. 0)
     0x52C 24) 0x530 0x600) 0x600 20) 0x604 0x100000) 0x608 0) 0x60C 0x7EE0000) 0x614 1"

lemma boot_memory_entry:
  "find_big_block boot_memory 0x500 0 = Inr (Some \<lparr>me_size = 20, me_addr = 0x100000,
     me_len = 0x7EE0000, me_type = 1\<rparr>)"
  by (subst find_big_block.simps)
    (simp add: boot_memory_def mbd_mmap_length_def mbd_mmap_addr_def read_mmap_entry_def
      load64_def load32_def store32_def KERNEL_START_def Let_def)

theorem initialize_free_segments_correct_witness:
  "\<exists>h'. initialize_free_segments 0x1070A8 \<lparr>bytes = boot_memory, freeSegment = 0\<rparr> 0x500 = Inr h'
    \<and> heap_inv 0x7FE0000 h' \<and> free_segs 0x1070A8 (heap_blocks 0x7FE0000 h') = [(0x1070A8, 0x7ED8F50)]"
  using initialize_free_segments_correct [of "0x500" "\<lparr>bytes = boot_memory, freeSegment = 0\<rparr>" _ "0x1070A8",
      OF _ _ _ ] boot_memory_entry
  by (auto simp: KERNEL_START_def)

end
