(* ===== verification/Boot.thy ===== *)
theory Boot
  imports Gdt_Load Rtc_Date Pci Heap_Init
begin

text \<open>
  \<open>kernel_main\<close> (kernel/kernel/kernel.c) of the build without DEBUG and TEST, with \<open>init_serial\<close>
  (io/uart.c): the order in which the components of the kernel are brought up. It is modelled up
  to its last loop, which does nothing for ever. The memory at the base address of the network
  card is the kernel's memory; strings of the boot loader are read from memory up to their
  terminator.
\<close>

unbundle bit_operations_syntax

subsection \<open>The serial port\<close>

definition init_serial :: "env \<Rightarrow> kernel \<Rightarrow> (int \<times> kernel) effect" where
  "init_serial E k =
     (let k = k_outb INTERRUPT_ENABLE_REG 0x02 k;
          k = k_outb LINE_CTRL_REG 0x80 k;
          k = k_outb DATA_REG 0x03 k;
          k = k_outb INTERRUPT_ENABLE_REG 0x00 k;
          k = k_outb LINE_CTRL_REG 0x03 k;
          k = k_outb FIFO_CTRL_REG 0xC7 k;
          k = k_outb MODEM_CTRL_REG 0x0B k;
          k = k_outb MODEM_CTRL_REG 0x1E k;
          k = k_outb DATA_REG 0xAE k;
          (v, k) = k_inb E DATA_REG k in
      if v \<noteq> 0xAE then Some (Inr (1, k))
      else
        let k = k_outb MODEM_CTRL_REG 0x0F k in
        bindE (guarded (register_interrupt E (PIC_1_OFFSET + 4) Uart_irq) k) (\<lambda>k. Some (Inr (0, k))))"

subsection \<open>kernel_main\<close>

function string_at :: "mem \<Rightarrow> u32 \<Rightarrow> nat \<Rightarrow> u8 list option" where
  "string_at m a n = (if n = 0 then None else if m a = 0 then Some []
     else map_option ((#) (m a)) (string_at m (a + 1) (n - 1)))"
  by pat_completeness auto
termination
  by (relation "measure (\<lambda>(m, a, n). n)") auto

declare string_at.simps [simp del]

definition mbd_boot_loader_name :: "mem \<Rightarrow> u32 \<Rightarrow> u32" where
  "mbd_boot_loader_name m mbd = load32 m (mbd + 64)"

definition log_bootloader :: "env \<Rightarrow> u32 \<Rightarrow> kernel \<Rightarrow> kernel effect" where
  "log_bootloader E mbd k =
     (let m = bytes (k_heap k) in
      case string_at m (mbd_boot_loader_name m mbd) (2 ^ 32) of
        None \<Rightarrow> Some (Inl (Undefined ''string without terminator''))
      | Some name \<Rightarrow> k_LOG E ''kernel/kernel.c'' 45 ''Hello, kernel World, bootloader: %s'' [VStr (name @ [0])] k)"

definition k_terminal_initialize :: "kernel \<Rightarrow> kernel" where
  "k_terminal_initialize k = k\<lparr>k_log := (k_log k)\<lparr>con := (con (k_log k))
     \<lparr>screen := terminal_initialize (screen (con (k_log k)))\<rparr>\<rparr>\<rparr>"

definition k_initialize_free_segments :: "u32 \<Rightarrow> u32 \<Rightarrow> kernel \<Rightarrow> kernel effect" where
  "k_initialize_free_segments kernel_end mbd k =
     bindE (liftE (initialize_free_segments kernel_end (k_heap k) mbd)) (\<lambda>h. Some (Inr (k\<lparr>k_heap := h\<rparr>)))"

definition k_get_date_time :: "env \<Rightarrow> DateTime \<Rightarrow> kernel \<Rightarrow> (DateTime \<times> kernel) effect" where
  "k_get_date_time E junk k = (case get_date_time (devs E) junk (k_trace k) of None \<Rightarrow> None
     | Some (d, tr) \<Rightarrow> Some (Inr (d, upd_trace (\<lambda>_. tr) k)))"

text \<open>The screen and the tables of the processor.\<close>

definition boot_tables :: "env \<Rightarrow> AccessByte \<Rightarrow> AccessByte \<Rightarrow> kernel \<Rightarrow> kernel effect" where
  "boot_tables E j1 j2 k =
     bindE (init_gdt E j1 j2 (k_terminal_initialize k)) (\<lambda>k.
     bindE (read_gdt E k) (\<lambda>k.
       init_idt E k))"

text \<open>The serial port, the heap, the clock and the futures.\<close>

definition boot_services :: "env \<Rightarrow> u32 \<Rightarrow> DateTime \<Rightarrow> u32 \<Rightarrow> kernel \<Rightarrow> kernel effect" where
  "boot_services E kernel_end junk mbd k =
     bindE (init_serial E k) (\<lambda>(r, k).
     bindE (k_assert E (r = 0) ''Could not initialize serial port'' k) (\<lambda>k.
     bindE (log_bootloader E mbd k) (\<lambda>k.
     bindE (k_initialize_free_segments kernel_end mbd k) (\<lambda>k.
     bindE (configure_rtc E k) (\<lambda>k.
     bindE (k_get_date_time E junk k) (\<lambda>(date_time, k).
     bindE (print_date_time E date_time k) (\<lambda>k.
       Some (Inr (init_futures k)))))))))"

text \<open>The network card.\<close>

definition probe_network_card :: "env \<Rightarrow> kernel \<Rightarrow> kernel effect" where
  "probe_network_card E k =
     bindE (find_pci_address E 0x10EC 0x8139 k) (\<lambda>(pci, k).
     bindE (k_LOG E ''kernel/kernel.c'' 97 ''Found device at bus: %d, slot: %d''
       [VWord (word_of_int (bus (address pci))), VWord (word_of_int (slot (address pci)))] k) (\<lambda>k.
     bindE (find_io_base E pci k) (\<lambda>(base_addr, k).
     bindE (k_LOG E ''kernel/kernel.c'' 99 ''Found base address: %x'' [VWord base_addr] k) (\<lambda>k.
     let (v, k) = k_inl E (ucast base_addr) k in
     bindE (k_LOG E ''kernel/kernel.c'' 100 ''Mac: %x'' [VWord v] k) (\<lambda>k.
     let (v, k) = k_inl E (ucast (base_addr + 4)) k in
     bindE (k_LOG E ''kernel/kernel.c'' 101 ''Mac 2: %x'' [VWord v] k) (\<lambda>k.
     bindE (find_mmap_base E pci k) (\<lambda>(memory_addr, k).
     bindE (k_LOG E ''kernel/kernel.c'' 104 ''Found memory address: %x'' [VWord memory_addr] k) (\<lambda>k.
     let mac = map (\<lambda>i. VWord (ucast (bytes (k_heap k) (memory_addr + of_nat i)))) [0..<6] in
     bindE (k_LOG E ''kernel/kernel.c'' 109 ''MAC from MMIO: %x:%x:%x:%x:%x:%x'' mac k) (\<lambda>k.
       on_log (dump_buffer (devs E) (stack E)) k)))))))))"

definition kernel_main :: "env \<Rightarrow> u32 \<Rightarrow> AccessByte \<Rightarrow> AccessByte \<Rightarrow> DateTime \<Rightarrow> u32 \<Rightarrow> kernel \<Rightarrow> kernel effect" where
  "kernel_main E kernel_end j1 j2 junk mbd k =
     bindE (boot_tables E j1 j2 k) (\<lambda>k.
     bindE (boot_services E kernel_end junk mbd k) (\<lambda>k.
       probe_network_card E k))"

end
