(* ===== verification/Report.thy ===== *)
theory Report
  imports Kernel_State
begin

text \<open>
  An account of the log: what the serial port has sent, followed by the lines still pending. A
  logging call appends its line to the account, whether it dumps the buffer or not, and dumping the
  buffer makes the account what has been sent. Also the macro LOG_GREEN on the kernel state.
\<close>

unbundle bit_operations_syntax

definition k_LOG_GREEN :: "env \<Rightarrow> string \<Rightarrow> u32 \<Rightarrow> string \<Rightarrow> vslot list \<Rightarrow> kernel \<Rightarrow> kernel effect" where
  "k_LOG_GREEN E file line fmt args = on_log (LOG_GREEN (devs E) (stack E) file line fmt args)"

definition reported :: "kernel \<Rightarrow> u8 list \<Rightarrow> bool" where
  "reported k T \<longleftrightarrow> (\<exists>ls. log_rel ls (k_log k) \<and> T = written_to DATA_REG (k_trace k) @ flushed ls)"

definition info_line :: "string \<Rightarrow> u32 \<Rightarrow> u8 list \<Rightarrow> u8 list" where
  "info_line file line msg = prefix_text (lit ''INFO'') (lit file) line @ take 99 msg @ [10]"

definition green_line :: "string \<Rightarrow> u32 \<Rightarrow> u8 list \<Rightarrow> u8 list" where
  "green_line file line msg = colored_prefix_text GREEN (lit ''INFO'') (lit file) line @ msg @ RESET @ [10]"

lemma reported_log_ok: "reported k T \<Longrightarrow> log_ok k"
  by (auto simp: reported_def log_ok_def)

lemma reported_upd_trace:
  assumes "reported k T" "written_to DATA_REG (f (k_trace k)) = written_to DATA_REG (k_trace k)"
  shows "reported (upd_trace f k) T"
proof -
  have "k_log (upd_trace f k) = (k_log k)\<lparr>con := (con (k_log k))\<lparr>trace := f (k_trace k)\<rparr>\<rparr>"
    by (simp add: upd_trace_def)
  moreover have "log_rel ls ((k_log k)\<lparr>con := c\<rparr>) = log_rel ls (k_log k)" for ls c by (simp add: log_rel_def)
  ultimately show ?thesis using assms unfolding reported_def by simp
qed

lemma reported_log:
  assumes "T = written_to DATA_REG (k_trace k) @ flushed ls" "log_rel (after_write ls l) m"
    and "prints D (printed_by_write ls) (con (k_log k)) (con m)"
  shows "reported (k\<lparr>k_log := m\<rparr>) (T @ l @ [10])"
proof -
  have "written_to DATA_REG (trace (con m)) = written_to DATA_REG (k_trace k) @ printed_by_write ls"
    using assms(3) by (simp add: prints_def k_trace_def)
  then have "T @ l @ [10] = written_to DATA_REG (trace (con m)) @ flushed (after_write ls l)"
    using assms(1) after_write_flushed [of ls l] by (simp add: flushed_def)
  then show ?thesis using assms(2) by (auto simp: reported_def k_trace_def)
qed

lemma k_LOG_reports:
  assumes "env_ok E" "reported k T" "short_log file line fmt args" "render (lit fmt) args = Some msg"
  shows "\<exists>l. k_LOG E file line fmt args k = Some (Inr (k\<lparr>k_log := l\<rparr>))
    \<and> reported (k\<lparr>k_log := l\<rparr>) (T @ info_line file line msg)"
proof -
  have env: "length (stack E) = 1024" "transmitter_empties (devs E)" using assms(1) by (auto simp: env_ok_def)
  obtain ls where ls: "log_rel ls (k_log k)" "T = written_to DATA_REG (k_trace k) @ flushed ls"
    using assms(2) by (auto simp: reported_def)
  have s: "0 \<notin> set (lit fmt)" "0 \<notin> set msg" "length msg \<le> 100" "line \<noteq> 0x80000000"
      "length (prefix_text (lit ''INFO'') (lit file) line) < 100"
    using assms(3,4) by (simp_all add: short_log_def)
  obtain m where m: "write_to_buffer (devs E) (stack E) (lit fmt) (lit ''INFO'') (lit file) line args (k_log k) = Some (Inr (0, m))"
      "log_rel (after_write ls (prefix_text (lit ''INFO'') (lit file) line @ take 99 msg)) m"
      "prints (devs E) (printed_by_write ls) (con (k_log k)) (con m)"
    using write_to_buffer_cut [OF env ls(1) s(1) assms(4) s(2-5)] by blast
  from reported_log [OF ls(2) m(2,3)] m(1) show ?thesis
    by (intro exI [of _ m]) (simp add: k_LOG_def on_log_def LOG_def info_line_def)
qed

lemma k_LOG_GREEN_reports:
  assumes "env_ok E" "reported k T" "0 \<notin> set (lit fmt)" "render (lit fmt) args = Some msg" "0 \<notin> set msg"
    and "length msg < 100" "line \<noteq> 0x80000000" "length (colored_prefix_text GREEN (lit ''INFO'') (lit file) line) < 100"
  shows "\<exists>l. k_LOG_GREEN E file line fmt args k = Some (Inr (k\<lparr>k_log := l\<rparr>))
    \<and> reported (k\<lparr>k_log := l\<rparr>) (T @ green_line file line msg)"
proof -
  have env: "length (stack E) = 1024" "transmitter_empties (devs E)" using assms(1) by (auto simp: env_ok_def)
  obtain ls where ls: "log_rel ls (k_log k)" "T = written_to DATA_REG (k_trace k) @ flushed ls"
    using assms(2) by (auto simp: reported_def)
  obtain m where m: "write_to_buffer_colored (devs E) (stack E) (lit fmt) GREEN (lit ''INFO'') (lit file) line args (k_log k) = Some (Inr (0, m))"
      "log_rel (after_write ls (colored_prefix_text GREEN (lit ''INFO'') (lit file) line @ msg @ RESET)) m"
      "prints (devs E) (printed_by_write ls) (con (k_log k)) (con m)"
    using write_to_buffer_colored_spec [OF env ls(1) assms(3-8)] by blast
  from reported_log [OF ls(2) m(2,3)] m(1) show ?thesis
    by (intro exI [of _ m]) (simp add: k_LOG_GREEN_def on_log_def LOG_GREEN_def green_line_def)
qed

lemma dump_reports:
  assumes "env_ok E" "reported k T"
  shows "\<exists>l. on_log (dump_buffer (devs E) (stack E)) k = Some (Inr (k\<lparr>k_log := l\<rparr>))
    \<and> log_rel [] l \<and> written_to DATA_REG (trace (con l)) = T"
proof -
  have env: "length (stack E) = 1024" "transmitter_empties (devs E)" using assms(1) by (auto simp: env_ok_def)
  obtain ls where ls: "log_rel ls (k_log k)" "T = written_to DATA_REG (k_trace k) @ flushed ls"
    using assms(2) by (auto simp: reported_def)
  from dump_buffer_spec [OF env ls(1)] show ?thesis
    using ls(2) by (auto simp: on_log_def prints_def k_trace_def)
qed

text \<open>States that differ in the log only, with the account of the log.\<close>

definition accounts :: "kernel \<Rightarrow> kernel \<Rightarrow> u8 list \<Rightarrow> bool" where
  "accounts k0 k T \<longleftrightarrow> k = k0\<lparr>k_log := k_log k\<rparr> \<and> reported k T"

lemma accounts_refl: "reported k T \<Longrightarrow> accounts k k T"
  by (simp add: accounts_def)

lemma accounts_log:
  assumes "accounts k0 k T" "reported (k\<lparr>k_log := l\<rparr>) T'"
  shows "accounts k0 (k\<lparr>k_log := l\<rparr>) T'"
proof -
  have "k = k0\<lparr>k_log := k_log k\<rparr>" using assms(1) by (simp add: accounts_def)
  then have "k\<lparr>k_log := l\<rparr> = k0\<lparr>k_log := l\<rparr>" by (metis kernel.update_convs(1) kernel.surjective)
  then show ?thesis using assms(2) by (simp add: accounts_def)
qed

lemma accounts_heap: "accounts k0 k T \<Longrightarrow> k_heap k = k_heap k0"
  unfolding accounts_def by (metis kernel.ext_inject kernel.surjective kernel.update_convs(1))

lemma accounts_upd_trace:
  assumes "accounts k0 k T" "written_to DATA_REG (f (k_trace k)) = written_to DATA_REG (k_trace k)"
  shows "accounts k0 (upd_trace f k) T"
proof -
  have "reported (upd_trace f k) T" using assms by (simp add: accounts_def reported_upd_trace)
  then show ?thesis unfolding upd_trace_def by (rule accounts_log [OF assms(1)])
qed

lemma k_LOG_accounts:
  assumes "env_ok E" "accounts k0 k T" "short_log file line fmt args" "render (lit fmt) args = Some msg"
  shows "\<exists>k'. k_LOG E file line fmt args k = Some (Inr k') \<and> accounts k0 k' (T @ info_line file line msg)"
proof -
  have "reported k T" using assms(2) by (simp add: accounts_def)
  from k_LOG_reports [OF assms(1) this assms(3,4)] show ?thesis using accounts_log [OF assms(2)] by blast
qed

lemma k_LOG_GREEN_accounts:
  assumes "env_ok E" "accounts k0 k T" "0 \<notin> set (lit fmt)" "render (lit fmt) args = Some msg" "0 \<notin> set msg"
    and "length msg < 100" "line \<noteq> 0x80000000" "length (colored_prefix_text GREEN (lit ''INFO'') (lit file) line) < 100"
  shows "\<exists>k'. k_LOG_GREEN E file line fmt args k = Some (Inr k') \<and> accounts k0 k' (T @ green_line file line msg)"
proof -
  have "reported k T" using assms(2) by (simp add: accounts_def)
  from k_LOG_GREEN_reports [OF assms(1) this assms(3-8)] show ?thesis using accounts_log [OF assms(2)] by blast
qed

lemma dump_accounts:
  assumes "env_ok E" "accounts k0 k T"
  shows "\<exists>k'. on_log (dump_buffer (devs E) (stack E)) k = Some (Inr k') \<and> accounts k0 k' T
    \<and> log_rel [] (k_log k') \<and> written_to DATA_REG (k_trace k') = T"
proof -
  have r: "reported k T" using assms(2) by (simp add: accounts_def)
  obtain l where l: "on_log (dump_buffer (devs E) (stack E)) k = Some (Inr (k\<lparr>k_log := l\<rparr>))" "log_rel [] l"
      "written_to DATA_REG (trace (con l)) = T"
    using dump_reports [OF assms(1) r] by blast
  have "reported (k\<lparr>k_log := l\<rparr>) T"
    unfolding reported_def using l by (intro exI [of _ "[]"]) (simp add: k_trace_def)
  from accounts_log [OF assms(2) this] l show ?thesis
    by (intro exI [of _ "k\<lparr>k_log := l\<rparr>"]) (simp add: k_trace_def)
qed

end
