(* ===== verification/Boot_Run.thy ===== *)
theory Boot_Run
  imports Boot Report
begin

text \<open>
  What \<open>kernel_main\<close> does: the outcome of \<open>init_serial\<close> for a port that echoes and for one that does
  not, the undefined behaviour among the tables, and the state that the services are brought up
  to.
\<close>

unbundle bit_operations_syntax

subsection \<open>The serial port\<close>

text \<open>In loopback mode the port returns the byte that was sent.\<close>

definition serial_echoes :: "devices \<Rightarrow> bool" where
  "serial_echoes D \<longleftrightarrow> (\<forall>tr. dev8 D (Out8 DATA_REG 0xAE # Out8 MODEM_CTRL_REG 0x1E # tr) DATA_REG = 0xAE)"

definition serial_mute :: "devices \<Rightarrow> bool" where
  "serial_mute D \<longleftrightarrow> (\<forall>tr. dev8 D (Out8 DATA_REG 0xAE # Out8 MODEM_CTRL_REG 0x1E # tr) DATA_REG \<noteq> 0xAE)"

lemma cmos_file_uart: "uart_only tr tr' \<Longrightarrow> cmos_file init tr' = cmos_file init tr"
proof (induction rule: uart_only_induct)
  case (step e t)
  then show ?case
    by (cases e) (auto simp: DATA_REG_def COM1_def CMOS_DATA_REG_def)
qed simp

lemma init_serial_ok:
  assumes "serial_echoes (devs E)"
  shows "\<exists>f. init_serial E k = Some (Inr (0, upd_trace f (k\<lparr>interruptList := (interruptList k)[0x24 := Some Uart_irq]\<rparr>)))
    \<and> interrupt_flag b (f (k_trace k)) \<and> cmos_file init (f (k_trace k)) = cmos_file init (k_trace k)
    \<and> written_to DATA_REG (f (k_trace k)) = written_to DATA_REG (k_trace k) @ [0x03, 0xAE]"
proof -
  define g where "g = (\<lambda>tr. Out8 DATA_REG 0xAE # Out8 MODEM_CTRL_REG 0x1E # Out8 MODEM_CTRL_REG 0x0B #
    Out8 FIFO_CTRL_REG 0xC7 # Out8 LINE_CTRL_REG 3 # Out8 INTERRUPT_ENABLE_REG 0 # Out8 DATA_REG 3 #
    Out8 LINE_CTRL_REG 0x80 # Out8 INTERRUPT_ENABLE_REG 2 # tr)"
  define f where "f = (\<lambda>tr. Sti # masked_at E PIC1_DATA (Cli # Out8 MODEM_CTRL_REG 0x0F # In8 DATA_REG 0xAE # g tr) 4)"
  have v: "dev8 (devs E) (g tr) DATA_REG = 0xAE" for tr
    using assms by (simp add: g_def serial_echoes_def)
  have p: "(0x20 :: u32) \<le> 0x24" "0x24 < (0x30 :: u32)" by simp_all
  have l: "upd_trace f k\<lparr>interruptList := x\<rparr> = upd_trace f (k\<lparr>interruptList := x\<rparr>)" for f k x
    by (simp add: upd_trace_def k_trace_def)
  have c: "upd_trace (\<lambda>_. h (k_trace k)) k = upd_trace h k" for h k by (simp add: upd_trace_def)
  have "init_serial E k = Some (Inr (0, upd_trace f (k\<lparr>interruptList := (interruptList k)[0x24 := Some Uart_irq]\<rparr>)))"
    using v [of "k_trace k"]
    by (simp add: init_serial_def k_outb_def k_inb_def inb_def outb_def guarded_def k_cli_def k_sti_def Let_def comp_def
        PIC_1_OFFSET_def register_interrupt_spec [OF p] l f_def g_def disable_interrupts_def enable_interrupts_def)
      (simp add: upd_trace_def k_trace_def)
  moreover have "cmos_file init (f tr) = cmos_file init tr" for tr
    by (simp add: f_def g_def cmos_file_masked CMOS_DATA_REG_def COM1_def DATA_REG_def MODEM_CTRL_REG_def
        FIFO_CTRL_REG_def LINE_CTRL_REG_def INTERRUPT_ENABLE_REG_def)
  moreover have "written_to DATA_REG (f tr) = written_to DATA_REG tr @ [0x03, 0xAE]" for tr
    by (simp add: f_def g_def masked_at_def Let_def PIC1_DATA_def COM1_def DATA_REG_def MODEM_CTRL_REG_def
        FIFO_CTRL_REG_def LINE_CTRL_REG_def INTERRUPT_ENABLE_REG_def)
  ultimately show ?thesis by (auto simp: f_def)
qed

lemma init_serial_fails:
  assumes "serial_mute (devs E)"
  shows "\<exists>f. init_serial E k = Some (Inr (1, upd_trace f k))"
proof -
  have v: "dev8 (devs E) (Out8 DATA_REG 0xAE # Out8 MODEM_CTRL_REG 0x1E # tr) DATA_REG \<noteq> 0xAE" for tr
    using assms by (simp add: serial_mute_def)
  show ?thesis
    using v by (simp add: init_serial_def k_outb_def k_inb_def inb_def outb_def Let_def comp_def) blast
qed

subsection \<open>The services\<close>

lemma string_at_no_nul: "string_at m a n = Some s \<Longrightarrow> 0 \<notin> set s"
proof (induction m a n arbitrary: s rule: string_at.induct)
  case (1 m a n)
  then show ?case by (subst (asm) string_at.simps) (auto split: if_splits)
qed

lemma hello_pieces:
  "pieces (lit ''Hello, kernel World, bootloader: %s'') = Some (map Plain (lit ''Hello, kernel World, bootloader: '') @ [Arg_s])"
  by code_simp

lemma hello_text:
  assumes "0 \<notin> set name" "length name \<le> 60"
  shows "short_log ''kernel/kernel.c'' 45 ''Hello, kernel World, bootloader: %s'' [VStr (name @ [0])]"
proof -
  have c: "c_content (name @ [0]) = name"
    using assms(1) by (auto simp: c_content_def takeWhile_append)
  have "render (lit ''Hello, kernel World, bootloader: %s'') [VStr (name @ [0])] =
      Some (lit ''Hello, kernel World, bootloader: '' @ name)"
    unfolding render_def hello_pieces by (simp add: print_pieces_plain c)
  moreover have "length (prefix_text (lit ''INFO'') (lit ''kernel/kernel.c'') 45) < 100" by code_simp
  ultimately show ?thesis using assms by (simp add: short_log_def) (simp add: lit_def)
qed

lemma log_bootloader_spec:
  assumes "env_ok E" "log_ok k"
    and "string_at (bytes (k_heap k)) (mbd_boot_loader_name (bytes (k_heap k)) mbd) (2 ^ 32) = Some name" "length name \<le> 60"
  shows "\<exists>k'. log_bootloader E mbd k = Some (Inr k') \<and> logged k k'"
proof -
  have "short_log ''kernel/kernel.c'' 45 ''Hello, kernel World, bootloader: %s'' [VStr (name @ [0])]"
    using string_at_no_nul [OF assms(3)] assms(4) by (rule hello_text)
  from k_LOG_spec [OF assms(1,2) this] show ?thesis using assms(3) by (simp add: log_bootloader_def)
qed

text \<open>The lines of the start-up, on an account of the log.\<close>

definition hello_line :: "u8 list \<Rightarrow> u8 list" where
  "hello_line name = info_line ''kernel/kernel.c'' 45 (lit ''Hello, kernel World, bootloader: '' @ name)"

definition date_line :: "DateTime \<Rightarrow> u8 list" where
  "date_line d = info_line ''kernel/io/rtc.c'' 98 (date_text d)"

lemma reported_upd [simp]: "reported (k\<lparr>k_heap := h\<rparr>) T = reported k T" "reported (k\<lparr>interruptList := x\<rparr>) T = reported k T"
  "reported (k\<lparr>lastIdx := n\<rparr>) T = reported k T"
  by (simp_all add: reported_def k_trace_def)

lemma log_bootloader_reports:
  assumes "env_ok E" "reported k T" "log_bootloader E mbd k = Some (Inr k')"
    and "string_at (bytes (k_heap k)) (mbd_boot_loader_name (bytes (k_heap k)) mbd) (2 ^ 32) = Some name" "length name \<le> 60"
  shows "reported k' (T @ hello_line name)"
proof -
  have n: "0 \<notin> set name" by (rule string_at_no_nul [OF assms(4)])
  then have c: "c_content (name @ [0]) = name" by (auto simp: c_content_def takeWhile_append)
  have "render (lit ''Hello, kernel World, bootloader: %s'') [VStr (name @ [0])] =
      Some (lit ''Hello, kernel World, bootloader: '' @ name)"
    unfolding render_def hello_pieces by (simp add: print_pieces_plain c)
  from k_LOG_reports [OF assms(1,2) hello_text [OF n assms(5)] this] show ?thesis
    using assms(3,4) by (auto simp: log_bootloader_def hello_line_def)
qed

lemma print_date_time_reports:
  assumes "env_ok E" "reported k T" "print_date_time E d k = Some (Inr k')"
    and "\<forall>v \<in> set [seconds d, minutes d, hours d, day_of_month d, month d, year d, century d]. v < 100"
  shows "reported k' (T @ date_line d)"
  using k_LOG_reports [OF assms(1,2) date_short_log [OF assms(4)] date_text_rendered] assms(3)
  by (auto simp: print_date_time_def date_line_def)

text \<open>The hypotheses of the boot on the machine and on what the boot loader left in memory.\<close>

definition machine_ok :: "env \<Rightarrow> (u8 \<Rightarrow> u8) \<Rightarrow> kernel \<Rightarrow> bool" where
  "machine_ok E init k \<longleftrightarrow> env_ok E \<and> log_ok k \<and> length (interruptList k) = 256 \<and> serial_echoes (devs E)
     \<and> cmos_chip (devs E) init \<and> (\<forall>r \<in> set date_regs. cmos_file init (k_trace k) r < 100)"

definition loader_ok :: "u32 \<Rightarrow> u32 \<Rightarrow> mmap_entry \<Rightarrow> heap \<Rightarrow> bool" where
  "loader_ok kernel_end mbd entry h \<longleftrightarrow> mbd \<noteq> 0 \<and> freeSegment h = 0
     \<and> find_big_block (bytes h) mbd 0 = Inr (Some entry) \<and> KERNEL_START \<le> kernel_end
     \<and> unat kernel_end + 8 \<le> unat KERNEL_START + unat (me_len entry)
     \<and> unat KERNEL_START + unat (me_len entry) < 2 ^ 32
     \<and> (\<exists>name. string_at (bytes h) (mbd_boot_loader_name (bytes h) mbd) (2 ^ 32) = Some name \<and> length name \<le> 60)"

lemma logged_fields:
  assumes "logged k k'"
  shows "k_heap k' = k_heap k" "interruptList k' = interruptList k" "tick k' = tick k" "log_ok k'"
    "cmos_file init (k_trace k') = cmos_file init (k_trace k)"
proof -
  have e: "k' = k\<lparr>k_log := k_log k'\<rparr>" using assms by (simp add: logged_def)
  show "k_heap k' = k_heap k" "interruptList k' = interruptList k" "tick k' = tick k"
    by (subst e; simp)+
  show "log_ok k'" "cmos_file init (k_trace k') = cmos_file init (k_trace k)"
    using assms by (simp_all add: logged_def cmos_file_uart)
qed

lemma boot_services_spec:
  assumes "machine_ok E init k" "loader_ok kernel_end mbd entry (k_heap k)"
  shows "\<exists>k'. boot_services E kernel_end junk mbd k = Some (Inr k')
    \<and> interruptList k' = (interruptList k)[0x24 := Some Uart_irq, 0x28 := Some Process_rtc_interrupt]
    \<and> lastIdx k' = -1 \<and> tick k' = tick k \<and> log_ok k'
    \<and> heap_inv (unat KERNEL_START + unat (me_len entry)) (k_heap k')
    \<and> heap_live (unat KERNEL_START + unat (me_len entry)) (k_heap k') = [] \<and> freeSegment (k_heap k') = kernel_end
    \<and> heap_blocks (unat KERNEL_START + unat (me_len entry)) (k_heap k') =
        [Free (unat KERNEL_START + unat (me_len entry) - unat kernel_end - 8)]
    \<and> (\<forall>x. unat x < unat kernel_end \<or> unat kernel_end + 8 \<le> unat x \<longrightarrow> bytes (k_heap k') x = bytes (k_heap k) x)
    \<and> (\<forall>ls name. log_rel ls (k_log k) \<longrightarrow>
        string_at (bytes (k_heap k)) (mbd_boot_loader_name (bytes (k_heap k)) mbd) (2 ^ 32) = Some name \<longrightarrow> length name \<le> 60 \<longrightarrow>
        reported k' (written_to DATA_REG (k_trace k) @ [0x03, 0xAE] @ flushed ls @ hello_line name
          @ date_line (date_of (cmos_file init (k_trace k)))))"
proof -
  have env: "env_ok E" and log: "log_ok k" and chip: "cmos_chip (devs E) init"
    and date: "\<And>r. r \<in> set date_regs \<Longrightarrow> cmos_file init (k_trace k) r < 100"
    using assms(1) by (simp_all add: machine_ok_def)
  let ?hi = "unat KERNEL_START + unat (me_len entry)"
  obtain f1 where 1: "init_serial E k = Some (Inr (0, upd_trace f1 (k\<lparr>interruptList := (interruptList k)[0x24 := Some Uart_irq]\<rparr>)))"
      "cmos_file init (f1 (k_trace k)) = cmos_file init (k_trace k)"
      "written_to DATA_REG (f1 (k_trace k)) = written_to DATA_REG (k_trace k) @ [0x03, 0xAE]"
    using init_serial_ok assms(1) unfolding machine_ok_def by blast
  define k1 where "k1 = upd_trace f1 (k\<lparr>interruptList := (interruptList k)[0x24 := Some Uart_irq]\<rparr>)"
  have k1: "log_ok k1" "k_heap k1 = k_heap k" "interruptList k1 = (interruptList k)[0x24 := Some Uart_irq]" "tick k1 = tick k"
      "cmos_file init (k_trace k1) = cmos_file init (k_trace k)"
    using log 1(2) by (simp_all add: k1_def)
  obtain k2 where k2: "log_bootloader E mbd k1 = Some (Inr k2)" "logged k1 k2"
    using log_bootloader_spec [OF env k1(1)] assms(2) k1(2) unfolding loader_ok_def by metis
  note f2 = logged_fields [OF k2(2)]
  obtain h where h: "initialize_free_segments kernel_end (k_heap k) mbd = Inr h" "freeSegment h = kernel_end"
      "heap_rel ?hi [Free (?hi - unat kernel_end - 8)] h"
      "\<forall>x. unat x < unat kernel_end \<or> unat kernel_end + 8 \<le> unat x \<longrightarrow> bytes h x = bytes (k_heap k) x"
    using initialize_establishes [of mbd "k_heap k" entry kernel_end] assms(2) by (auto simp: loader_ok_def)
  define k3 where "k3 = k2\<lparr>k_heap := h\<rparr>"
  have t3: "k_trace k3 = k_trace k2" by (simp add: k3_def k_trace_def)
  obtain f4 where 4: "configure_rtc E k3 = Some (Inr (upd_trace f4 (k3\<lparr>interruptList := (interruptList k3)[0x28 := Some Process_rtc_interrupt]\<rparr>)))"
      "cmos_file init (f4 (k_trace k3)) = (cmos_file init (k_trace k3))(STATUS_REG_B := 0x46, STATUS_REG_A := 1)" "quiet f4"
    using configure_rtc_spec [OF chip] by blast
  define k4 where "k4 = upd_trace f4 (k3\<lparr>interruptList := (interruptList k3)[0x28 := Some Process_rtc_interrupt]\<rparr>)"
  have c4: "cmos_file init (k_trace k4) = (cmos_file init (k_trace k))(STATUS_REG_B := 0x46, STATUS_REG_A := 1)"
    using 4(2) t3 f2(5) k1(5) by (simp add: k4_def)
  define d where "d = date_of (cmos_file init (k_trace k4))"
  obtain tr5 where 5: "get_date_time (devs E) junk (k_trace k4) = Some (d, tr5)"
    using guarded_op_still [OF chip, of "k_trace k4" "read_date (devs E)" junk d "cmos_file init (k_trace k4)"]
      c4 read_date_still [OF chip] by (auto simp: get_date_time_def d_def)
  define k5 where "k5 = upd_trace (\<lambda>_. tr5) k4"
  have d: "d = date_of (cmos_file init (k_trace k))"
    unfolding d_def c4 by (simp add: date_of_def cmos_reg_defs)
  have small: "\<forall>v \<in> set [seconds d, minutes d, hours d, day_of_month d, month d, year d, century d]. v < 100"
    using date unfolding d date_of_def date_regs_def by simp
  moreover have "log_ok k5" using f2(4) by (simp add: k5_def k4_def k3_def)
  ultimately obtain k6 where k6: "print_date_time E d k5 = Some (Inr k6)" "logged k5 k6"
    using print_date_time_spec [OF env] by blast
  note f6 = logged_fields [OF k6(2)]
  have rep: "reported k6 (written_to DATA_REG (k_trace k) @ [0x03, 0xAE] @ flushed ls @ hello_line name @ date_line d)"
    if l: "log_rel ls (k_log k)" and name: "length name \<le> 60"
      "string_at (bytes (k_heap k)) (mbd_boot_loader_name (bytes (k_heap k)) mbd) (2 ^ 32) = Some name" for ls name
  proof -
    have "log_rel ls (k_log k1)" using l by (simp add: k1_def upd_trace_def log_rel_def)
    then have "reported k1 (written_to DATA_REG (k_trace k) @ [0x03, 0xAE] @ flushed ls)"
      using 1(3) by (auto simp: reported_def k1_def)
    from log_bootloader_reports [OF env this k2(1) _ name(1)] name(2) k1(2)
    have "reported k2 ((written_to DATA_REG (k_trace k) @ [0x03, 0xAE] @ flushed ls) @ hello_line name)" by simp
    then have "reported k4 ((written_to DATA_REG (k_trace k) @ [0x03, 0xAE] @ flushed ls) @ hello_line name)"
      using 4(3) by (simp add: k4_def k3_def reported_upd_trace quiet_def)
    then have "reported k5 ((written_to DATA_REG (k_trace k) @ [0x03, 0xAE] @ flushed ls) @ hello_line name)"
      using get_date_time_quiet [OF 5] by (simp add: k5_def reported_upd_trace)
    from print_date_time_reports [OF env this k6(1) small] show ?thesis by simp
  qed
  have "boot_services E kernel_end junk mbd k = Some (Inr (init_futures k6))"
    using 1(1) k2(1) h(1) 4(1) 5 k6(1) f2(1) k1(2)
    by (simp add: boot_services_def k_assert_def k_initialize_free_segments_def liftE_def k_get_date_time_def
        flip: k1_def k3_def k4_def k5_def)
  moreover have "k_heap k6 = h" using f6(1) by (simp add: k5_def k4_def k3_def)
  moreover have "interruptList k6 = (interruptList k)[0x24 := Some Uart_irq, 0x28 := Some Process_rtc_interrupt]" "tick k6 = tick k"
    using f6(2,3) f2(2,3) k1(3,4) by (simp_all add: k5_def k4_def k3_def)
  ultimately show ?thesis
    using h(2,4) heap_rel_inv [OF h(3)] heap_rel_blocks [OF h(3)] f6(4) rep [unfolded d] by (simp add: init_futures_def heap_live_def)
qed

subsection \<open>Properties\<close>

text \<open>
  \<open>init_serial\<close> returns 0 exactly when the byte sent in loopback mode comes back; then the handler
  of vector 36 is \<open>uart_irq\<close>, interrupts are enabled and nothing else but the ports is touched.
  Otherwise it returns 1 and registers nothing.
\<close>

theorem init_serial_result:
  "(serial_echoes (devs E) \<longrightarrow> (\<exists>f. init_serial E k =
      Some (Inr (0, upd_trace f (k\<lparr>interruptList := (interruptList k)[0x24 := Some Uart_irq]\<rparr>)))
      \<and> interrupt_flag b (f (k_trace k))))
    \<and> (serial_mute (devs E) \<longrightarrow> (\<exists>f. init_serial E k = Some (Inr (1, upd_trace f k))))"
  using init_serial_ok [of E k b "\<lambda>_. 0"] init_serial_fails [of E k] by blast

definition boot_device :: devices where
  "boot_device = \<lparr>dev8 = (\<lambda>tr port. if port = CMOS_DATA_REG then cmos_file (\<lambda>_. 0) tr (selected tr)
     else if port = LINE_STATUS_REG then 0x60 else 0xAE), dev32 = (\<lambda>_ _. 0)\<rparr>"

lemma boot_device_facts:
  "serial_echoes boot_device" "cmos_chip boot_device (\<lambda>_. 0)" "transmitter_empties boot_device"
proof -
  show "serial_echoes boot_device"
    by (simp add: serial_echoes_def boot_device_def DATA_REG_def COM1_def CMOS_DATA_REG_def LINE_STATUS_REG_def)
  show "cmos_chip boot_device (\<lambda>_. 0)" by (simp add: cmos_chip_def boot_device_def)
  have "and (dev8 boot_device (polls boot_device 0 tr) LINE_STATUS_REG) 0x20 \<noteq> 0" for tr
    by (simp add: boot_device_def LINE_STATUS_REG_def COM1_def CMOS_DATA_REG_def)
  then show "transmitter_empties boot_device" unfolding transmitter_empties_def by blast
qed

definition boot_env :: env where
  "boot_env = test_env\<lparr>devs := boot_device\<rparr>"

theorem init_serial_result_witness:
  "(\<exists>f. init_serial boot_env boot_kernel =
      Some (Inr (0, upd_trace f (boot_kernel\<lparr>interruptList := (interruptList boot_kernel)[0x24 := Some Uart_irq]\<rparr>))))
    \<and> (\<exists>f. init_serial (test_env\<lparr>devs := constant_chip 0\<rparr>) boot_kernel = Some (Inr (1, upd_trace f boot_kernel)))"
proof -
  have "serial_echoes (devs boot_env)" "serial_mute (devs (test_env\<lparr>devs := constant_chip 0\<rparr>))"
    using boot_device_facts(1) by (simp_all add: boot_env_def serial_mute_def constant_chip_def)
  then show ?thesis
    using init_serial_result [of boot_env boot_kernel True]
      init_serial_result [of "test_env\<lparr>devs := constant_chip 0\<rparr>" boot_kernel True] by blast
qed

text \<open>
  \<open>kernel_main\<close> is undefined from every state with an intact log: the limit that \<open>read_gdt\<close> logs
  is passed with half the size its conversion fetches, right after the segment table is loaded.
\<close>

theorem kernel_main_undefined:
  assumes "env_ok E" "log_ok k"
  shows "\<exists>e. kernel_main E kernel_end j1 j2 junk mbd k = Some (Inl e)"
proof -
  have "log_ok (k_terminal_initialize k)" using assms(2) by (simp add: log_ok_def log_rel_def k_terminal_initialize_def)
  from init_gdt_spec [OF assms(1) this] obtain k1 where k1: "init_gdt E j1 j2 (k_terminal_initialize k) = Some (Inr k1)" "log_ok k1"
    by blast
  obtain e where "read_gdt E k1 = Some (Inl e)" using read_gdt_spec [OF assms(1) k1(2)] by blast
  then show ?thesis using k1(1) by (simp add: kernel_main_def boot_tables_def)
qed

theorem kernel_main_undefined_witness:
  "\<exists>e. kernel_main test_env 0x1070A8 zero_access zero_access new_year 0x500 boot_kernel = Some (Inl e)"
  by (rule kernel_main_undefined [OF test_env_ok boot_log_ok])

text \<open>
  The services of \<open>kernel_main\<close>, on a machine whose serial port echoes and whose clock holds a
  plausible date, with a memory map that has the kernel's region: every step returns, no assertion
  fails, the serial and the clock handlers are installed, the heap holds one free segment behind
  the kernel image and nothing live, the list of futures is empty, and from then on \<open>sleep\<close> waits
  the time it is asked for.
\<close>

theorem boot_services_bring_up:
  assumes "machine_ok E init k" "loader_ok kernel_end mbd entry (k_heap k)" "tick k = 0"
  shows "\<exists>k'. boot_services E kernel_end junk mbd k = Some (Inr k')
    \<and> interruptList k' = (interruptList k)[0x24 := Some Uart_irq, 0x28 := Some Process_rtc_interrupt]
    \<and> heap_inv (unat KERNEL_START + unat (me_len entry)) (k_heap k')
    \<and> heap_live (unat KERNEL_START + unat (me_len entry)) (k_heap k') = [] \<and> freeSegment (k_heap k') = kernel_end
    \<and> (\<forall>t. unat t * 256 < 2 ^ 32 \<longrightarrow>
        (\<exists>k2. sleep (rtc_irq E) t k' = Some (Inr k2) \<and> unat (tick k2) = unat t * 256))"
proof -
  obtain k' where k': "boot_services E kernel_end junk mbd k = Some (Inr k')"
    "interruptList k' = (interruptList k)[0x24 := Some Uart_irq, 0x28 := Some Process_rtc_interrupt]" "lastIdx k' = -1"
    "tick k' = 0" "heap_inv (unat KERNEL_START + unat (me_len entry)) (k_heap k')"
    "heap_live (unat KERNEL_START + unat (me_len entry)) (k_heap k') = []" "freeSegment (k_heap k') = kernel_end"
    using boot_services_spec [OF assms(1,2)] assms(3) by metis
  have "no_futures k'"
    using k'(2,3) assms(1) by (simp add: no_futures_def rtc_registered_def machine_ok_def)
  then have "\<exists>k2. sleep (rtc_irq E) t k' = Some (Inr k2) \<and> unat (tick k2) = unat t * 256" if "unat t * 256 < 2 ^ 32" for t
    using rtc_clock.sleep_returns [of k' t E] that k'(4) by simp
  with k' show ?thesis by blast
qed

definition loaded_kernel :: kernel where
  "loaded_kernel = boot_kernel\<lparr>k_heap := \<lparr>bytes = boot_memory, freeSegment = 0\<rparr>\<rparr>"

theorem boot_services_bring_up_witness:
  "\<exists>k'. boot_services boot_env 0x1070A8 new_year 0x500 loaded_kernel = Some (Inr k')
    \<and> heap_inv 0x7FE0000 (k_heap k') \<and> (\<exists>k2. sleep (rtc_irq boot_env) 4 k' = Some (Inr k2) \<and> unat (tick k2) = 1024)"
proof -
  have name: "string_at boot_memory (mbd_boot_loader_name boot_memory 0x500) (2 ^ 32) = Some []"
    by (subst string_at.simps) (simp add: mbd_boot_loader_name_def boot_memory_def load32_def store32_def)
  have "log_ok loaded_kernel" using boot_log_ok by (simp add: loaded_kernel_def)
  moreover have "k_trace loaded_kernel = []" "length (interruptList loaded_kernel) = 256"
    by (simp_all add: loaded_kernel_def boot_kernel_def k_trace_def initial_log_def test_console_def)
  ultimately have "machine_ok boot_env (\<lambda>_. 0) loaded_kernel"
    using boot_device_facts by (simp add: machine_ok_def boot_env_def env_ok_def test_env_def)
  moreover have "loader_ok 0x1070A8 0x500 \<lparr>me_size = 20, me_addr = 0x100000, me_len = 0x7EE0000, me_type = 1\<rparr> (k_heap loaded_kernel)"
    using boot_memory_entry name by (simp add: loader_ok_def loaded_kernel_def KERNEL_START_def)
  moreover have "tick loaded_kernel = 0" by (simp add: loaded_kernel_def boot_kernel_def)
  ultimately obtain k' where "boot_services boot_env 0x1070A8 new_year 0x500 loaded_kernel = Some (Inr k')"
    "heap_inv (unat KERNEL_START + unat (0x7EE0000 :: u64)) (k_heap k')"
    "\<And>t. unat t * 256 < 2 ^ 32 \<Longrightarrow> \<exists>k2. sleep (rtc_irq boot_env) t k' = Some (Inr k2) \<and> unat (tick k2) = unat t * 256"
    using boot_services_bring_up [of boot_env "\<lambda>_. 0" loaded_kernel "0x1070A8" "0x500" _ new_year] by (metis mmap_entry.select_convs(3))
  note r = this
  have "\<exists>k2. sleep (rtc_irq boot_env) 4 k' = Some (Inr k2) \<and> unat (tick k2) = unat (4 :: u32) * 256"
    by (rule r(3)) simp
  then show ?thesis using r(1,2) by (auto simp: KERNEL_START_def)
qed

end
