(* ===== verification/Boot_Map.thy ===== *)
theory Boot_Map
  imports Boot_Run
begin

text \<open>
  kernel/kernel/multiboot.c, which a DEBUG build calls first: the memory map of the boot loader is
  logged entry by entry. Arguments of 64 bits take two slots of the argument list.
\<close>

definition MULTIBOOT_BOOTLOADER_MAGIC :: u32 where "MULTIBOOT_BOOTLOADER_MAGIC = 0x2BADB002"

definition log_entry :: "env \<Rightarrow> mmap_entry \<Rightarrow> kernel \<Rightarrow> kernel effect" where
  "log_entry E mmmt k =
     bindE (k_LOG E ''kernel/multiboot.c'' 23 ''Size: %u : Addr: 0x%x : Len %lluK : Type %u''
       ([VWord (me_size mmmt)] @ va64 (me_addr mmmt) @ va64 (me_len mmmt div 1024) @ [VWord (me_type mmmt)]) k)
     (k_LOG E ''kernel/multiboot.c'' 25 (CHR 0x0A # ''---'' @ [CHR 0x0A]) [])"

function parse_entries :: "env \<Rightarrow> u32 \<Rightarrow> nat \<Rightarrow> u64 \<Rightarrow> kernel \<Rightarrow> (u64 \<times> kernel) effect" where
  "parse_entries E mbd i sz k =
     (let m = bytes (k_heap k) in
      if i < unat (mbd_mmap_length m mbd)
      then let mmmt = read_mmap_entry m (mbd_mmap_addr m mbd + of_nat i) in
        case log_entry E mmmt k of None \<Rightarrow> None
        | Some (Inl e) \<Rightarrow> Some (Inl e)
        | Some (Inr k) \<Rightarrow>
            if 2 ^ 31 \<le> i + sizeof_mmap_entry then Some (Inl (Undefined ''signed overflow''))
            else parse_entries E mbd (i + sizeof_mmap_entry) (sz + me_len mmmt) k
      else Some (Inr (sz, k)))"
  by pat_completeness auto
termination
  by (relation "measure (\<lambda>(E, mbd, i, sz, k). 2 ^ 31 - i)") (auto simp: sizeof_mmap_entry_def)

declare parse_entries.simps [simp del]

text \<open>\<open>size / 1024 / 1024\<close> of a \<open>long long\<close>, which truncates towards zero.\<close>

definition mega :: "u64 \<Rightarrow> u64" where
  "mega v = word_of_int (sgn (sint v) * (\<bar>sint v\<bar> div 1024 div 1024))"

definition parse_multiboot_info :: "env \<Rightarrow> u32 \<Rightarrow> u32 \<Rightarrow> u32 \<Rightarrow> kernel \<Rightarrow> kernel effect" where
  "parse_multiboot_info E kernel_end mbd magic k =
     (if magic \<noteq> MULTIBOOT_BOOTLOADER_MAGIC
      then k_LOG E ''kernel/multiboot.c'' 9 ''invalid magic number'' [] k
      else if and (drop_bit 6 (mbd_flags (bytes (k_heap k)) mbd)) 1 = 0
      then k_LOG E ''kernel/multiboot.c'' 14 ''invalid memory map given by GRUB bootloader'' [] k
      else
        bindE (parse_entries E mbd 0 0 k) (\<lambda>(sz, k).
        bindE (k_LOG E ''kernel/multiboot.c'' 30 (''Total size: %lluM!'' @ [CHR 0x0A]) (va64 (mega sz)) k) (\<lambda>k.
        bindE (k_LOG E ''kernel/multiboot.c'' 32 (''Kernel start: 0x%x'' @ [CHR 0x0A]) [VWord KERNEL_START] k)
          (k_LOG E ''kernel/multiboot.c'' 33 (''Kernel end: 0x%x'' @ [CHR 0x0A]) [VWord kernel_end]))))"

subsection \<open>The line of an entry\<close>

definition entry_text :: "mmap_entry \<Rightarrow> u8 list" where
  "entry_text e = lit ''Size: '' @ decimal (sint (me_size e)) @ lit '' : Addr: 0x'' @ hex 8 (ucast (ucast (me_addr e) :: u32))
     @ lit '' : Len '' @ decimal (sint (ucast (drop_bit 32 (me_addr e)) :: u32)) @ lit ''K : Type ''
     @ decimal (sint (ucast (drop_bit 32 (me_len e div 1024)) :: u32))"

lemma entry_pieces:
  "pieces (lit ''Size: %u : Addr: 0x%x : Len %lluK : Type %u'') =
    Some (map Plain (lit ''Size: '') @ Arg_u # map Plain (lit '' : Addr: 0x'') @ Arg_x # map Plain (lit '' : Len '') @
      Arg_llu # map Plain (lit ''K : Type '') @ Arg_u # [])"
  by code_simp

definition printable :: "mmap_entry \<Rightarrow> bool" where
  "printable e \<longleftrightarrow> me_size e \<noteq> 0x80000000 \<and> ucast (drop_bit 32 (me_addr e)) \<noteq> (0x80000000 :: u32)"

lemma entry_rendered:
  assumes "printable e"
  shows "render (lit ''Size: %u : Addr: 0x%x : Len %lluK : Type %u'')
    ([VWord (me_size e)] @ va64 (me_addr e) @ va64 (me_len e div 1024) @ [VWord (me_type e)]) = Some (entry_text e)"
proof -
  have "unat (me_len e div 1024) < 2 ^ 54"
    using unat_less64 [of "me_len e"] by (simp add: unat_div div_less_iff_less_mult)
  then have "unat (drop_bit 32 (me_len e div 1024)) < 2 ^ 22"
    by (simp only: unat_drop_bit_eq) (simp add: drop_bit_eq_div div_less_iff_less_mult)
  then have "ucast (drop_bit 32 (me_len e div 1024)) \<noteq> (0x80000000 :: u32)"
    by (simp add: word_unat_eq_iff unsigned_ucast_eq take_bit_nat_eq_self)
  then show ?thesis
    using assms unfolding render_def entry_pieces entry_text_def printable_def va64_def
    by (simp add: print_pieces_plain print_signed_def)
qed

lemma length_decimal_sint: "length (decimal (sint (w :: u32))) \<le> 11"
  using length_decimal [of "sint w"] sint_greater_eq [of w] sint_less [of w] by simp

lemma entry_short_log:
  assumes "printable e"
  shows "short_log ''kernel/multiboot.c'' 23 ''Size: %u : Addr: 0x%x : Len %lluK : Type %u''
    ([VWord (me_size e)] @ va64 (me_addr e) @ va64 (me_len e div 1024) @ [VWord (me_type e)])"
proof -
  have "length (prefix_text (lit ''INFO'') (lit ''kernel/multiboot.c'') 23) < 100" by code_simp
  moreover have "0 \<notin> set (entry_text e)"
    unfolding entry_text_def by (simp add: decimal_no_nul hex_no_nul) (simp add: lit_def)
  moreover have "length (entry_text e) \<le> 100"
    unfolding entry_text_def
    using length_decimal_sint [of "me_size e"] length_decimal_sint [of "ucast (drop_bit 32 (me_addr e))"]
      length_decimal_sint [of "ucast (drop_bit 32 (me_len e div 1024))"]
    by (simp add: lit_def)
  moreover have "0 \<notin> set (lit ''Size: %u : Addr: 0x%x : Len %lluK : Type %u'')" by code_simp
  ultimately show ?thesis by (simp add: short_log_def entry_rendered [OF assms, simplified])
qed

lemma separator_text:
  "short_log ''kernel/multiboot.c'' 25 (CHR 0x0A # ''---'' @ [CHR 0x0A]) []"
  "render (lit (CHR 0x0A # ''---'' @ [CHR 0x0A])) [] = Some (10 # lit ''---'' @ [10])"
  by code_simp+

lemma log_entry_spec:
  assumes "env_ok E" "log_ok k" "printable e"
  shows "\<exists>k'. log_entry E e k = Some (Inr k') \<and> logged k k'"
proof -
  obtain k1 where k1: "k_LOG E ''kernel/multiboot.c'' 23 ''Size: %u : Addr: 0x%x : Len %lluK : Type %u''
      ([VWord (me_size e)] @ va64 (me_addr e) @ va64 (me_len e div 1024) @ [VWord (me_type e)]) k = Some (Inr k1)" "logged k k1"
    using k_LOG_spec [OF assms(1,2) entry_short_log [OF assms(3)]] by blast
  have "log_ok k1" using k1(2) by (simp add: logged_def)
  from k_LOG_spec [OF assms(1) this separator_text(1)] obtain k2 where
    "k_LOG E ''kernel/multiboot.c'' 25 (CHR 0x0A # ''---'' @ [CHR 0x0A]) [] k1 = Some (Inr k2)" "logged k1 k2" by blast
  then show ?thesis using k1 logged_trans by (auto simp: log_entry_def)
qed

text \<open>The loop ends for a map below 2 GiB whose entries can be printed.\<close>

lemma parse_entries_returns:
  assumes "env_ok E" "log_ok k" "unat (mbd_mmap_length (bytes (k_heap k)) mbd) \<le> 2 ^ 31 - 24"
    and "\<And>i. printable (read_mmap_entry (bytes (k_heap k)) (mbd_mmap_addr (bytes (k_heap k)) mbd + of_nat i))"
  shows "\<exists>s k'. parse_entries E mbd i sz k = Some (Inr (s, k')) \<and> logged k k'"
  using assms
proof (induction E mbd i sz k rule: parse_entries.induct)
  case (1 E mbd i sz k)
  let ?m = "bytes (k_heap k)"
  let ?e = "read_mmap_entry ?m (mbd_mmap_addr ?m mbd + of_nat i)"
  show ?case
  proof (cases "i < unat (mbd_mmap_length ?m mbd)")
    case True
    obtain k1 where k1: "log_entry E ?e k = Some (Inr k1)" "logged k k1"
      using log_entry_spec [OF 1(2,3,5)] by blast
    have h: "k_heap k1 = k_heap k" "log_ok k1"
      using logged_fields [OF k1(2)] by auto
    have n: "\<not> 2 ^ 31 \<le> i + sizeof_mmap_entry" using True 1(4) by (simp add: sizeof_mmap_entry_def)
    obtain s k' where "parse_entries E mbd (i + sizeof_mmap_entry) (sz + me_len ?e) k1 = Some (Inr (s, k'))" "logged k1 k'"
      using "1.IH" [OF refl True refl k1(1) refl n 1(2) h(2)] 1(4,5) h(1) by auto
    then show ?thesis
      using True k1 n by (subst parse_entries.simps) (auto simp: Let_def intro: logged_trans)
  next
    case False
    then show ?thesis using 1(3) by (subst parse_entries.simps) (auto simp: Let_def intro: logged_refl)
  qed
qed

subsection \<open>Properties\<close>

text \<open>
  The line logged for an entry of the memory map does not show the entry: the conversion for the
  low half of the address leaves its upper half for \<open>Len\<close>, and \<open>Type\<close> shows the upper half of
  the length. For every region below 4 GiB the line ends in \<open>Len 0K : Type 0\<close>.
\<close>

theorem memory_map_line:
  assumes "env_ok E" "log_rel ls (k_log k)" "length ls < 48" "printable e"
  shows "(\<exists>l. log_entry E e k = Some (Inr (k\<lparr>k_log := l\<rparr>))
      \<and> log_rel (ls @ [prefix_text (lit ''INFO'') (lit ''kernel/multiboot.c'') 23 @ entry_text e,
          prefix_text (lit ''INFO'') (lit ''kernel/multiboot.c'') 25 @ 10 # lit ''---'' @ [10]]) l)
    \<and> (me_addr e < 2 ^ 32 \<and> me_len e < 2 ^ 32 \<longrightarrow> entry_text e = lit ''Size: '' @ decimal (sint (me_size e))
        @ lit '' : Addr: 0x'' @ hex 8 (me_addr e) @ lit '' : Len 0K : Type 0'')"
proof
  have t: "length (entry_text e) \<le> 99"
    unfolding entry_text_def
    using length_decimal_sint [of "me_size e"] length_decimal_sint [of "ucast (drop_bit 32 (me_addr e))"]
      length_decimal_sint [of "ucast (drop_bit 32 (me_len e div 1024))"]
    by (simp add: lit_def)
  obtain l1 where l1: "k_LOG E ''kernel/multiboot.c'' 23 ''Size: %u : Addr: 0x%x : Len %lluK : Type %u''
      ([VWord (me_size e)] @ va64 (me_addr e) @ va64 (me_len e div 1024) @ [VWord (me_type e)]) k = Some (Inr (k\<lparr>k_log := l1\<rparr>))"
      "log_rel (ls @ [prefix_text (lit ''INFO'') (lit ''kernel/multiboot.c'') 23 @ entry_text e]) l1"
    using k_LOG_line [OF assms(1,2) entry_short_log [OF assms(4)] entry_rendered [OF assms(4)]] assms(3) t by (auto simp: after_write_def)
  have s: "lit (CHR 0x0A # ''---'' @ [CHR 0x0A]) = 10 # lit ''---'' @ [10]" by code_simp
  from k_LOG_line [OF assms(1) _ separator_text, of _ "k\<lparr>k_log := l1\<rparr>"] l1(2) assms(3)
  obtain l2 where "k_LOG E ''kernel/multiboot.c'' 25 (CHR 0x0A # ''---'' @ [CHR 0x0A]) [] (k\<lparr>k_log := l1\<rparr>) = Some (Inr (k\<lparr>k_log := l2\<rparr>))"
      "log_rel (ls @ [prefix_text (lit ''INFO'') (lit ''kernel/multiboot.c'') 23 @ entry_text e,
          prefix_text (lit ''INFO'') (lit ''kernel/multiboot.c'') 25 @ 10 # lit ''---'' @ [10]]) l2"
    by (fastforce simp: after_write_def lit_def)
  with l1(1) show "\<exists>l. log_entry E e k = Some (Inr (k\<lparr>k_log := l\<rparr>))
      \<and> log_rel (ls @ [prefix_text (lit ''INFO'') (lit ''kernel/multiboot.c'') 23 @ entry_text e,
          prefix_text (lit ''INFO'') (lit ''kernel/multiboot.c'') 25 @ 10 # lit ''---'' @ [10]]) l"
    unfolding log_entry_def by (intro exI [of _ l2]) simp
next
  show "me_addr e < 2 ^ 32 \<and> me_len e < 2 ^ 32 \<longrightarrow> entry_text e = lit ''Size: '' @ decimal (sint (me_size e))
        @ lit '' : Addr: 0x'' @ hex 8 (me_addr e) @ lit '' : Len 0K : Type 0''"
  proof
    assume a: "me_addr e < 2 ^ 32 \<and> me_len e < 2 ^ 32"
    have low: "drop_bit 32 v = 0" "ucast (ucast v :: u32) = v" if "unat v < 2 ^ 32" for v :: u64
    proof -
      show "drop_bit 32 v = 0"
        using that by (simp only: word_unat_eq_iff unat_drop_bit_eq) (simp add: drop_bit_eq_div)
      show "ucast (ucast v :: u32) = v"
        using that by (simp add: word_unat_eq_iff unsigned_ucast_eq unsigned_take_bit_eq take_bit_nat_eq_self)
    qed
    have "unat (me_len e div 1024) \<le> unat (me_len e)" by (simp add: unat_div)
    then have "unat (me_addr e) < 2 ^ 32" "unat (me_len e div 1024) < 2 ^ 32" using a by (simp_all add: word_less_nat_alt)
    moreover have "lit '' : Len '' @ decimal 0 @ lit ''K : Type '' @ decimal 0 = lit '' : Len 0K : Type 0''" by code_simp
    ultimately show "entry_text e = lit ''Size: '' @ decimal (sint (me_size e))
        @ lit '' : Addr: 0x'' @ hex 8 (me_addr e) @ lit '' : Len 0K : Type 0''"
      unfolding entry_text_def by (simp add: low)
  qed
qed

theorem memory_map_line_witness:
  "\<exists>l. log_entry test_env \<lparr>me_size = 20, me_addr = 0x100000, me_len = 0x7EE0000, me_type = 1\<rparr> boot_kernel =
      Some (Inr (boot_kernel\<lparr>k_log := l\<rparr>))
    \<and> entry_text \<lparr>me_size = 20, me_addr = 0x100000, me_len = 0x7EE0000, me_type = 1\<rparr> =
      lit ''Size: 20 : Addr: 0x00100000 : Len 0K : Type 0''"
proof -
  have rel: "log_rel [] (k_log boot_kernel)" using initial_log_rel by (simp add: boot_kernel_def)
  have "printable \<lparr>me_size = 20, me_addr = 0x100000, me_len = 0x7EE0000, me_type = 1\<rparr>"
    by (simp add: printable_def)
  moreover have "entry_text \<lparr>me_size = 20, me_addr = 0x100000, me_len = 0x7EE0000, me_type = 1\<rparr> =
      lit ''Size: 20 : Addr: 0x00100000 : Len 0K : Type 0''" by code_simp
  ultimately show ?thesis using memory_map_line [OF test_env_ok rel] by fastforce
qed

end
