(* ===== verification/Probe.thy ===== *)
theory Probe
  imports Boot_Map Report
begin

text \<open>
  The last part of \<open>kernel_main\<close> (kernel/kernel/kernel.c): the probe of the network card. The theorem
  gives the text that is logged for a card on the bus and the bytes that leave the serial port.
\<close>

unbundle bit_operations_syntax

subsection \<open>The lines of the probe\<close>

lemma probe_pieces:
  "pieces (lit ''Found device at bus: %d, slot: %d'') =
     Some (map Plain (lit ''Found device at bus: '') @ Arg_d # map Plain (lit '', slot: '') @ [Arg_d])"
  "pieces (lit ''Found base address: %x'') = Some (map Plain (lit ''Found base address: '') @ [Arg_x])"
  "pieces (lit ''Mac: %x'') = Some (map Plain (lit ''Mac: '') @ [Arg_x])"
  "pieces (lit ''Mac 2: %x'') = Some (map Plain (lit ''Mac 2: '') @ [Arg_x])"
  "pieces (lit ''Found memory address: %x'') = Some (map Plain (lit ''Found memory address: '') @ [Arg_x])"
  "pieces (lit ''MAC from MMIO: %x:%x:%x:%x:%x:%x'') = Some (map Plain (lit ''MAC from MMIO: '') @
     [Arg_x, Plain 58, Arg_x, Plain 58, Arg_x, Plain 58, Arg_x, Plain 58, Arg_x, Plain 58, Arg_x])"
  by code_simp+

lemma probe_prefixes:
  "length (prefix_text (lit ''INFO'') (lit ''kernel/kernel.c'') 97) < 100"
  "length (prefix_text (lit ''INFO'') (lit ''kernel/kernel.c'') 99) < 100"
  "length (prefix_text (lit ''INFO'') (lit ''kernel/kernel.c'') 100) < 100"
  "length (prefix_text (lit ''INFO'') (lit ''kernel/kernel.c'') 101) < 100"
  "length (prefix_text (lit ''INFO'') (lit ''kernel/kernel.c'') 104) < 100"
  "length (prefix_text (lit ''INFO'') (lit ''kernel/kernel.c'') 109) < 100"
  by code_simp+

lemma sint_small: "0 \<le> i \<Longrightarrow> i < 2 ^ 31 \<Longrightarrow> sint (word_of_int i :: u32) = i"
  by (simp add: signed_of_int signed_take_bit_int_eq_self)

lemma decimal_short: "0 \<le> i \<Longrightarrow> i < 2 ^ 31 \<Longrightarrow> length (decimal i) \<le> 11"
  using length_decimal_sint [of "word_of_int i"] by (simp add: sint_small)

definition found_line :: "int \<Rightarrow> int \<Rightarrow> u8 list" where
  "found_line b s = info_line ''kernel/kernel.c'' 97 (lit ''Found device at bus: '' @ decimal b @ lit '', slot: '' @ decimal s)"

definition mac_text :: "(nat \<Rightarrow> u8) \<Rightarrow> u8 list" where
  "mac_text f = hex 8 (ucast (f 0)) @ concat (map (\<lambda>i. 58 # hex 8 (ucast (f i))) [1..<6])"

definition hex_line :: "u32 \<Rightarrow> string \<Rightarrow> u32 \<Rightarrow> u8 list" where
  "hex_line line label v = info_line ''kernel/kernel.c'' line (lit label @ hex 8 (ucast v))"

lemma log_found:
  assumes "env_ok E" "accounts k0 k T" "0 \<le> b" "b < 256" "0 \<le> s" "s < 32"
  shows "\<exists>k'. k_LOG E ''kernel/kernel.c'' 97 ''Found device at bus: %d, slot: %d''
      [VWord (word_of_int b), VWord (word_of_int s)] k = Some (Inr k') \<and> accounts k0 k' (T @ found_line b s)"
proof -
  have i: "sint (word_of_int b :: u32) = b" "sint (word_of_int s :: u32) = s" using assms(3-6) by (simp_all add: sint_small)
  have w: "(word_of_int b :: u32) \<noteq> 0x80000000" "(word_of_int s :: u32) \<noteq> 0x80000000"
  proof -
    have "sint (0x80000000 :: u32) < 0" by simp
    then show "(word_of_int b :: u32) \<noteq> 0x80000000" "(word_of_int s :: u32) \<noteq> 0x80000000"
      using i assms(3,5) by (metis not_less)+
  qed
  have r: "render (lit ''Found device at bus: %d, slot: %d'') [VWord (word_of_int b), VWord (word_of_int s)] =
      Some (lit ''Found device at bus: '' @ decimal b @ lit '', slot: '' @ decimal s)"
    unfolding render_def probe_pieces by (simp add: print_pieces_plain print_signed_def w i)
  have "short_log ''kernel/kernel.c'' 97 ''Found device at bus: %d, slot: %d'' [VWord (word_of_int b), VWord (word_of_int s)]"
    using probe_prefixes decimal_short [of b] decimal_short [of s] assms(3-6)
    by (simp add: short_log_def r decimal_no_nul) (simp add: lit_def)
  from k_LOG_accounts [OF assms(1,2) this r] show ?thesis by (simp add: found_line_def)
qed

lemma log_hex:
  assumes "env_ok E" "accounts k0 k T" "pieces (lit (label @ ''%x'')) = Some (map Plain (lit label) @ [Arg_x])"
    and "line \<noteq> 0x80000000" "length (prefix_text (lit ''INFO'') (lit ''kernel/kernel.c'') line) < 100"
    and "0 \<notin> set (lit label)" "length label \<le> 30"
  shows "\<exists>k'. k_LOG E ''kernel/kernel.c'' line (label @ ''%x'') [VWord v] k = Some (Inr k')
    \<and> accounts k0 k' (T @ hex_line line label v)"
proof -
  have r: "render (lit (label @ ''%x'')) [VWord v] = Some (lit label @ hex 8 (ucast v))"
    unfolding render_def assms(3) by (simp add: print_pieces_plain)
  have "short_log ''kernel/kernel.c'' line (label @ ''%x'') [VWord v]"
    using assms(4-7) by (simp add: short_log_def r hex_no_nul) (simp add: lit_def)
  from k_LOG_accounts [OF assms(1,2) this r] show ?thesis by (simp add: hex_line_def)
qed

lemma log_mac:
  assumes "env_ok E" "accounts k0 k T"
  shows "\<exists>k'. k_LOG E ''kernel/kernel.c'' 109 ''MAC from MMIO: %x:%x:%x:%x:%x:%x'' (map (\<lambda>i. VWord (ucast (f i))) [0..<6]) k
      = Some (Inr k') \<and> accounts k0 k' (T @ info_line ''kernel/kernel.c'' 109 (lit ''MAC from MMIO: '' @ mac_text f))"
proof -
  have u: "[0..<6] = [0, 1, 2, 3, 4, 5 :: nat]" "[1..<6] = [1, 2, 3, 4, 5 :: nat]" by (simp_all add: upt_rec)
  have u8: "(ucast (ucast (x :: u8) :: u32) :: u64) = ucast x" for x by (rule bit_word_eqI) (auto simp: bit_simps dest: bit_imp_le_length)
  have r: "render (lit ''MAC from MMIO: %x:%x:%x:%x:%x:%x'') (map (\<lambda>i. VWord (ucast (f i))) [0..<6]) =
      Some (lit ''MAC from MMIO: '' @ mac_text f)"
    unfolding render_def probe_pieces mac_text_def u by (simp add: print_pieces_plain u8)
  have l: "length (mac_text f) = 53" "0 \<notin> set (mac_text f)"
    unfolding mac_text_def u by (simp_all add: hex_no_nul)
  have "short_log ''kernel/kernel.c'' 109 ''MAC from MMIO: %x:%x:%x:%x:%x:%x'' (map (\<lambda>i. VWord (ucast (f i))) [0..<6])"
    using probe_prefixes l unfolding short_log_def r by simp (simp add: lit_def)
  from k_LOG_accounts [OF assms this r] show ?thesis .
qed

lemma mac_text_cong: "(\<And>i. i < 6 \<Longrightarrow> f i = g i) \<Longrightarrow> mac_text f = mac_text g"
  unfolding mac_text_def by (auto intro!: arg_cong [where f = concat])

subsection \<open>The probe\<close>

text \<open>What the configuration space holds for the card, and what its first two registers hold.\<close>

definition card_at :: "(u32 \<Rightarrow> u32) \<Rightarrow> int \<Rightarrow> int \<Rightarrow> u32 \<Rightarrow> u32 \<Rightarrow> bool" where
  "card_at cfg b s io mm \<longleftrightarrow>
     find (\<lambda>(b, s). is_device cfg 0x10EC 0x8139 b s) (pci_slots 0 256) = Some (b, s)
     \<and> header_of cfg b s = Some General
     \<and> map_option (\<lambda>j. config_word cfg b s (4 + of_nat j) AND NOT 3)
         (find (\<lambda>j. bit (config_word cfg b s (4 + of_nat j)) 0) [0..<6]) = Some io
     \<and> map_option (\<lambda>j. config_word cfg b s (4 + of_nat j) AND NOT 15)
         (find (\<lambda>j. \<not> bit (config_word cfg b s (4 + of_nat j)) 0 \<and> 0 < config_word cfg b s (4 + of_nat j)) [0..<6]) = Some mm"

definition card_registers :: "devices \<Rightarrow> u32 \<Rightarrow> u32 \<Rightarrow> u32 \<Rightarrow> bool" where
  "card_registers D io v w \<longleftrightarrow> (\<forall>tr. dev32 D tr (ucast io) = v \<and> dev32 D tr (ucast (io + 4)) = w)"

definition probe_report :: "int \<Rightarrow> int \<Rightarrow> u32 \<Rightarrow> u32 \<Rightarrow> u32 \<Rightarrow> u32 \<Rightarrow> (nat \<Rightarrow> u8) \<Rightarrow> u8 list" where
  "probe_report b s io v w mm f =
     found_line b s @ hex_line 99 ''Found base address: '' io @ hex_line 100 ''Mac: '' v @ hex_line 101 ''Mac 2: '' w
       @ hex_line 104 ''Found memory address: '' mm
       @ info_line ''kernel/kernel.c'' 109 (lit ''MAC from MMIO: '' @ mac_text f)"

lemma config_events_quiet: "list_all config_event es \<Longrightarrow> written_to p (es @ tr) = written_to p tr"
proof (induction es)
  case (Cons e es)
  then show ?case by (cases e) auto
qed simp

lemma pci_slots_range:
  assumes "find P (pci_slots 0 256) = Some (b, s)"
  shows "0 \<le> b \<and> b < 256 \<and> 0 \<le> s \<and> s < 32"
proof -
  have "(b, s) \<in> set (pci_slots 0 256)" using assms by (metis find_Some_iff nth_mem)
  then show ?thesis by (auto simp: pci_slots_def)
qed

lemma accounts_config:
  assumes "accounts k0 k T" "list_all config_event es"
  shows "accounts k0 (upd_trace ((@) es) k) T"
  using assms by (simp add: accounts_upd_trace config_events_quiet)

lemma probe_network_card_spec:
  assumes "env_ok E" "reported k T" "pci_bus cfg (devs E)" "card_at cfg b s io mm" "card_registers (devs E) io v w"
  shows "\<exists>l. probe_network_card E k = Some (Inr (k\<lparr>k_log := l\<rparr>)) \<and> log_rel [] l
    \<and> written_to DATA_REG (trace (con l)) =
        T @ probe_report b s io v w mm (\<lambda>i. bytes (k_heap k) (mm + of_nat i))"
proof -
  let ?pci = "\<lparr>address = \<lparr>bus = b, slot = s\<rparr>, header_type = General\<rparr>"
  note env = assms(1) and bus = assms(3)
  have range: "0 \<le> b" "b < 256" "0 \<le> s" "s < 32"
    using assms(4) pci_slots_range by (auto simp: card_at_def)
  have log: "log_ok k'" if "accounts k k' T'" for k' T' using that by (auto simp: accounts_def dest: reported_log_ok)
  obtain es1 where 1: "find_pci_address E 0x10EC 0x8139 k = Some (Inr (?pci, upd_trace ((@) es1) k))" "list_all config_event es1"
    using find_pci_address_spec [OF bus env reported_log_ok [OF assms(2)], of "0x10EC" "0x8139"] assms(4) by (auto simp: card_at_def)
  note a1 = accounts_config [OF accounts_refl [OF assms(2)] 1(2)]
  define T1 where "T1 = T @ found_line b s"
  obtain k2 where 2: "k_LOG E ''kernel/kernel.c'' 97 ''Found device at bus: %d, slot: %d''
      [VWord (word_of_int b), VWord (word_of_int s)] (upd_trace ((@) es1) k) = Some (Inr k2)" "accounts k k2 T1"
    using log_found [OF env a1 range] unfolding T1_def by blast
  obtain es3 where 3: "find_io_base E ?pci k2 = Some (Inr (io, upd_trace ((@) es3) k2))" "list_all config_event es3"
    using base_addresses_spec [OF bus env log [OF 2(2)], of ?pci] assms(4) by (auto simp: card_at_def)
  define T2 where "T2 = T1 @ hex_line 99 ''Found base address: '' io"
  obtain k4 where 4: "k_LOG E ''kernel/kernel.c'' 99 ''Found base address: %x'' [VWord io] (upd_trace ((@) es3) k2) = Some (Inr k4)"
      "accounts k k4 T2"
    using log_hex [OF env accounts_config [OF 2(2) 3(2)], of "''Found base address: ''" 99 io] probe_pieces probe_prefixes
    unfolding T2_def by (auto simp: lit_def)
  have inl: "k_inl E (ucast io) k = (v, upd_trace ((#) (In32 (ucast io) v)) k)"
    "k_inl E (ucast (io + 4)) k = (w, upd_trace ((#) (In32 (ucast (io + 4)) w)) k)" for k
    using assms(5) by (simp_all add: card_registers_def k_inl_def inl_def upd_trace_def)
  have a4: "accounts k (upd_trace ((#) (In32 p x)) k') T'" if "accounts k k' T'" for k' T' p x
    using that by (rule accounts_upd_trace) simp
  define T3 where "T3 = T2 @ hex_line 100 ''Mac: '' v"
  obtain k5 where 5: "k_LOG E ''kernel/kernel.c'' 100 ''Mac: %x'' [VWord v] (upd_trace ((#) (In32 (ucast io) v)) k4) = Some (Inr k5)"
      "accounts k k5 T3"
    using log_hex [OF env a4 [OF 4(2)], of "''Mac: ''" 100 v] probe_pieces probe_prefixes unfolding T3_def by (auto simp: lit_def)
  define T4 where "T4 = T3 @ hex_line 101 ''Mac 2: '' w"
  obtain k6 where 6: "k_LOG E ''kernel/kernel.c'' 101 ''Mac 2: %x'' [VWord w] (upd_trace ((#) (In32 (ucast (io + 4)) w)) k5) = Some (Inr k6)"
      "accounts k k6 T4"
    using log_hex [OF env a4 [OF 5(2)], of "''Mac 2: ''" 101 w] probe_pieces probe_prefixes unfolding T4_def by (auto simp: lit_def)
  obtain es7 where 7: "find_mmap_base E ?pci k6 = Some (Inr (mm, upd_trace ((@) es7) k6))" "list_all config_event es7"
    using base_addresses_spec [OF bus env log [OF 6(2)], of ?pci] assms(4) by (auto simp: card_at_def)
  define T5 where "T5 = T4 @ hex_line 104 ''Found memory address: '' mm"
  obtain k8 where 8: "k_LOG E ''kernel/kernel.c'' 104 ''Found memory address: %x'' [VWord mm] (upd_trace ((@) es7) k6) = Some (Inr k8)"
      "accounts k k8 T5"
    using log_hex [OF env accounts_config [OF 6(2) 7(2)], of "''Found memory address: ''" 104 mm] probe_pieces probe_prefixes
    unfolding T5_def by (auto simp: lit_def)
  obtain k9 where 9: "k_LOG E ''kernel/kernel.c'' 109 ''MAC from MMIO: %x:%x:%x:%x:%x:%x''
        (map (\<lambda>i. VWord (ucast (bytes (k_heap k8) (mm + of_nat i)))) [0..<6]) k8 = Some (Inr k9)"
      "accounts k k9 (T5 @ info_line ''kernel/kernel.c'' 109
        (lit ''MAC from MMIO: '' @ mac_text (\<lambda>i. bytes (k_heap k8) (mm + of_nat i))))"
    using log_mac [OF env 8(2), of "\<lambda>i. bytes (k_heap k8) (mm + of_nat i)"] by blast
  from dump_accounts [OF env 9(2)] obtain k10 where 10: "on_log (dump_buffer (devs E) (stack E)) k9 = Some (Inr k10)"
      "k10 = k\<lparr>k_log := k_log k10\<rparr>" "log_rel [] (k_log k10)" "written_to DATA_REG (k_trace k10) = T5 @ info_line ''kernel/kernel.c'' 109
        (lit ''MAC from MMIO: '' @ mac_text (\<lambda>i. bytes (k_heap k8) (mm + of_nat i)))"
    unfolding accounts_def by blast
  have "probe_network_card E k = Some (Inr k10)"
    using 1(1) 2(1) 3(1) 4(1) 5(1) 6(1) 7(1) 8(1) 9(1) 10(1) by (simp add: probe_network_card_def inl Let_def)
  then show ?thesis
    using 10(2-4) accounts_heap [OF 8(2)] unfolding T5_def T4_def T3_def T2_def T1_def
    by (intro exI [of _ "k_log k10"]) (simp add: probe_report_def k_trace_def)
qed

subsection \<open>Properties\<close>

text \<open>
  C24. The probe of the network card, for a card that the bus has in a slot, with a port base and a
  memory base: it returns, changes nothing but the log, and by its end the serial port has sent what
  was pending and, in order, the place of the card, the port base, the two registers there, the memory
  base and the six bytes there. Nothing is left pending.
\<close>

theorem probe_network_card_reports:
  assumes "env_ok E" "reported k T" "pci_bus cfg (devs E)" "card_at cfg b s io mm" "card_registers (devs E) io v w"
  shows "\<exists>l. probe_network_card E k = Some (Inr (k\<lparr>k_log := l\<rparr>)) \<and> log_rel [] l
    \<and> written_to DATA_REG (trace (con l)) =
        T @ probe_report b s io v w mm (\<lambda>i. bytes (k_heap k) (mm + of_nat i))"
  using assms by (rule probe_network_card_spec)

definition card_env :: env where
  "card_env = test_env\<lparr>devs := \<lparr>dev8 = dev8 (uart_device 0),
     dev32 = (\<lambda>tr p. if p = 0xC000 then 0x12005452 else if p = 0xC004 then 0x5634
       else case tr of Out32 p a # _ \<Rightarrow> one_device a | _ \<Rightarrow> 0)\<rparr>\<rparr>"

lemma card_env_facts:
  "env_ok card_env" "pci_bus one_device (devs card_env)" "card_at one_device 0 3 0xC000 0xFEBC0000"
  "card_registers (devs card_env) 0xC000 0x12005452 0x5634"
proof -
  show "pci_bus one_device (devs card_env)" by (simp add: pci_bus_def card_env_def)
  have "polls \<lparr>dev8 = dev8 (uart_device 0), dev32 = d\<rparr> n tr = polls (uart_device 0) n tr" for d n tr
    by (induction n arbitrary: tr) (simp_all add: inb_def)
  then show "env_ok card_env"
    using uart_device_empties [of 0] by (simp add: env_ok_def card_env_def test_env_def transmitter_empties_def)
  show "card_at one_device 0 3 0xC000 0xFEBC0000"
    unfolding card_at_def
  proof (intro conjI)
    note bars = config_word_def config_address_def one_device_def bit_0
    show "header_of one_device 0 3 = Some General" by (simp add: header_of_def bars)
    show "map_option (\<lambda>j. config_word one_device 0 3 (4 + of_nat j) AND NOT 3)
        (find (\<lambda>j. bit (config_word one_device 0 3 (4 + of_nat j)) 0) [0..<6]) = Some 0xC000"
      by (simp add: upt_rec bars)
    show "map_option (\<lambda>j. config_word one_device 0 3 (4 + of_nat j) AND NOT 15)
        (find (\<lambda>j. \<not> bit (config_word one_device 0 3 (4 + of_nat j)) 0 \<and> 0 < config_word one_device 0 3 (4 + of_nat j)) [0..<6])
        = Some 0xFEBC0000"
      by (simp add: upt_rec bars)
  qed (rule one_device_found)
  show "card_registers (devs card_env) 0xC000 0x12005452 0x5634"
    by (simp add: card_registers_def card_env_def)
qed

lemma boot_reported: "reported boot_kernel []"
  using initial_log_rel unfolding reported_def
  by (intro exI [of _ "[]"]) (simp add: boot_kernel_def k_trace_def initial_log_def test_console_def)

theorem probe_network_card_reports_witness:
  "\<exists>l. probe_network_card card_env boot_kernel = Some (Inr (boot_kernel\<lparr>k_log := l\<rparr>))
    \<and> written_to DATA_REG (trace (con l)) = probe_report 0 3 0xC000 0x12005452 0x5634 0xFEBC0000 (\<lambda>_. 0)"
proof -
  have "\<exists>l. probe_network_card card_env boot_kernel = Some (Inr (boot_kernel\<lparr>k_log := l\<rparr>)) \<and> log_rel [] l
      \<and> written_to DATA_REG (trace (con l)) =
        [] @ probe_report 0 3 0xC000 0x12005452 0x5634 0xFEBC0000 (\<lambda>i. bytes (k_heap boot_kernel) (0xFEBC0000 + of_nat i))"
    by (rule probe_network_card_reports [OF card_env_facts(1) boot_reported card_env_facts(2-4)])
  moreover have "bytes (k_heap boot_kernel) = (\<lambda>_. 0)" by (simp add: boot_kernel_def)
  ultimately show ?thesis by (simp only: append_Nil) blast
qed

end
