(* ===== verification/Heap_Client.thy ===== *)
theory Heap_Client
  imports Heap_Run
begin

text \<open>
  Steps of a client of the heap in a form that composes: a block cut from the first free segment,
  bytes written into a block, and a block given back, each with the block list it leads to and with
  the bytes it keeps. The self test of the allocator is a composition of these.
\<close>

text \<open>Bytes outside of the heap, and bytes of blocks that stay.\<close>

definition outside :: "nat \<Rightarrow> heap \<Rightarrow> u32 \<Rightarrow> bool" where
  "outside hi h x \<longleftrightarrow> unat x < unat (freeSegment h) \<or> hi \<le> unat x"

definition same_outside :: "nat \<Rightarrow> heap \<Rightarrow> heap \<Rightarrow> bool" where
  "same_outside hi h h' \<longleftrightarrow> freeSegment h' = freeSegment h \<and> (\<forall>x. outside hi h x \<longrightarrow> bytes h' x = bytes h x)"

lemma same_outside_refl: "same_outside hi h h"
  by (simp add: same_outside_def)

lemma same_outside_trans: "same_outside hi a b \<Longrightarrow> same_outside hi b c \<Longrightarrow> same_outside hi a c"
  by (simp add: same_outside_def outside_def)

definition block_kept :: "nat \<Rightarrow> nat \<Rightarrow> heap \<Rightarrow> heap \<Rightarrow> bool" where
  "block_kept p n h h' \<longleftrightarrow> (\<forall>x. in_payload p n x \<longrightarrow> bytes h' x = bytes h x)"

lemma block_kept_trans: "block_kept p n a b \<Longrightarrow> block_kept p n b c \<Longrightarrow> block_kept p n a c"
  by (simp add: block_kept_def)

lemma live_member:
  "heap_blocks hi h = xs @ Used k # us \<Longrightarrow> freeSegment h = f \<Longrightarrow> (unat f + extent xs + 8, k) \<in> set (heap_live hi h)"
  by (simp add: heap_live_def live_append)

lemma heap_inv_extent: "heap_inv hi h \<Longrightarrow> unat (freeSegment h) + extent (heap_blocks hi h) = hi \<and> hi < 2 ^ 32"
  by (auto simp: heap_inv_def heap_rel_def)

lemma untouched_outside:
  assumes "heap_inv hi h" "untouched (bytes h) (bytes h') (unat (freeSegment h)) bs"
    and "extent bs = extent (heap_blocks hi h)" "freeSegment h' = freeSegment h"
  shows "same_outside hi h h'"
  using assms heap_inv_extent [OF assms(1)]
  by (auto simp: same_outside_def outside_def intro!: untouchedD)

lemma untouched_block:
  assumes "untouched (bytes h) (bytes h') a bs" "(p, n) \<in> set (live a bs)"
  shows "block_kept p n h h'"
  using assms by (auto simp: block_kept_def intro!: untouchedD in_live_payload)

subsection \<open>malloc from the first segment\<close>

lemma client_malloc:
  assumes inv: "heap_inv hi h" and blocks: "heap_blocks hi h = Free n # bs"
    and sz: "unat sz + 15 \<le> n" "unat sz \<le> unat (freeSegment h)"
  shows "\<exists>p h' n' k. malloc h sz = Some (Inr (p, h')) \<and> heap_inv hi h' \<and> heap_blocks hi h' = Free n' # Used k # bs
    \<and> n' + 8 + k = n \<and> unat sz \<le> k \<and> k < unat sz + 8 \<and> unat p = unat (freeSegment h) + 8 + n' + 8
    \<and> same_outside hi h h' \<and> (\<forall>(q, l) \<in> set (heap_live hi h). block_kept q l h h')"
proof -
  let ?a = "unat (freeSegment h)"
  define c where "c = carve (?a + 8 + n) (unat sz)"
  have c: "c + 8 + unat sz \<le> ?a + 8 + n" "?a + 8 + n < c + 16 + unat sz"
    using carve_bounds [of "unat sz" "?a + 8 + n"] sz(2) by (simp_all add: c_def)
  let ?bs = "Free (c - (?a + 8)) # Used (?a + 8 + n - (c + 8)) # bs"
  have fit: "?a + 8 \<le> c" using c(2) sz(1) by linarith
  have s: "alloc_spec (unat sz) ?a (heap_blocks hi h) = Some (c + 8, ?bs)"
    using fit by (simp add: blocks alloc_spec.simps flip: c_def)
  obtain h' where h': "malloc h sz = Some (Inr (of_nat (c + 8), h'))" "heap_inv hi h'" "heap_blocks hi h' = ?bs"
      "freeSegment h' = freeSegment h" "untouched (bytes h) (bytes h') ?a (heap_blocks hi h)"
    using malloc_refines [OF inv sz(2)] s by auto
  have "c + 8 < 2 ^ 32" using heap_inv_extent [OF inv] c(1) blocks by simp
  then have "unat (of_nat (c + 8) :: u32) = c + 8" by (rule unat_of_nat32)
  moreover have "same_outside hi h h'" by (rule untouched_outside [OF inv h'(5) refl h'(4)])
  moreover have "\<forall>(q, l) \<in> set (heap_live hi h). block_kept q l h h'"
    using untouched_block [OF h'(5)] by (auto simp: heap_live_def)
  ultimately show ?thesis
    using h' c fit by (intro exI [of _ "of_nat (c + 8)"] exI [of _ h'] exI [of _ "c - (?a + 8)"] exI [of _ "?a + 8 + n - (c + 8)"])
      (auto simp del: of_nat_add)
qed

subsection \<open>Writing into a block\<close>

lemma write_block:
  assumes "heap_inv hi h" "(p, n) \<in> set (heap_live hi h)" "\<And>x. \<not> in_payload p n x \<Longrightarrow> m x = bytes h x"
  shows "heap_inv hi (h\<lparr>bytes := m\<rparr>)" "heap_blocks hi (h\<lparr>bytes := m\<rparr>) = heap_blocks hi h"
    "same_outside hi h (h\<lparr>bytes := m\<rparr>)"
proof -
  have p: "unat (freeSegment h) \<le> p" "p + n \<le> hi"
    using assms(2) heap_inv_extent [OF assms(1)] live_bounds [of p n "unat (freeSegment h)" "heap_blocks hi h"]
    by (auto simp: heap_live_def)
  define g where "g i = (\<lambda>x. if unat x < p + i then m x else bytes h x)" for i
  have step: "g (Suc i) = (g i)(of_nat (p + i) := m (of_nat (p + i)))" if "i < n" for i
  proof
    fix x :: u32
    have u: "unat (of_nat (p + i) :: u32) = p + i"
      using that p heap_inv_extent [OF assms(1)] by (intro unat_of_nat32) simp
    show "g (Suc i) x = ((g i)(of_nat (p + i) := m (of_nat (p + i)))) x"
    proof (cases "unat x = p + i")
      case True
      then have "x = of_nat (p + i)" using u by (simp add: word_unat_eq_iff del: of_nat_add)
      then show ?thesis using u by (simp add: g_def del: of_nat_add)
    next
      case False
      then have "x \<noteq> of_nat (p + i)" using u by auto
      then show ?thesis using False by (auto simp: g_def)
    qed
  qed
  have "heap_inv hi (h\<lparr>bytes := g i\<rparr>) \<and> heap_blocks hi (h\<lparr>bytes := g i\<rparr>) = heap_blocks hi h" if "i \<le> n" for i
    using that
  proof (induction i)
    case 0
    have "g 0 = bytes h" using assms(3) by (fastforce simp: g_def)
    then show ?case using assms(1) by simp
  next
    case (Suc i)
    let ?h = "h\<lparr>bytes := g i\<rparr>"
    have "in_payload p n (of_nat (p + i))"
      using Suc.prems p heap_inv_extent [OF assms(1)] by (subst unat_of_nat32, simp)+ simp
    moreover have "(p, n) \<in> set (heap_live hi ?h)" using Suc assms(2) by (simp add: heap_live_def)
    ultimately have "heap_rel hi (heap_blocks hi ?h) (?h\<lparr>bytes := (bytes ?h)(of_nat (p + i) := m (of_nat (p + i)))\<rparr>)"
      using Suc by (intro write_payload_rel) auto
    then have "heap_rel hi (heap_blocks hi h) (h\<lparr>bytes := g (Suc i)\<rparr>)"
      unfolding step [OF Suc_le_lessD [OF Suc.prems]] using Suc by (simp del: of_nat_add)
    then show ?case using heap_rel_inv heap_rel_blocks by blast
  qed
  from this [of n] have n: "heap_inv hi (h\<lparr>bytes := g n\<rparr>)" "heap_blocks hi (h\<lparr>bytes := g n\<rparr>) = heap_blocks hi h"
    by simp_all
  have "g n = m" using assms(3) by (auto simp: g_def fun_eq_iff)
  then show "heap_inv hi (h\<lparr>bytes := m\<rparr>)" "heap_blocks hi (h\<lparr>bytes := m\<rparr>) = heap_blocks hi h"
    using n by simp_all
  show "same_outside hi h (h\<lparr>bytes := m\<rparr>)"
    using assms(3) p by (auto simp: same_outside_def outside_def)
qed

text \<open>A block cut from the first segment and filled at once, by writes that stay in what was asked for.\<close>

lemma client_alloc_write:
  assumes inv: "heap_inv hi h" and blocks: "heap_blocks hi h = Free n # bs"
    and sz: "unat sz + 15 \<le> n" "unat sz \<le> unat (freeSegment h)"
    and W: "\<And>m p x. unat p + unat sz \<le> 2 ^ 32 \<Longrightarrow> unat x < unat p \<or> unat p + unat sz \<le> unat x \<Longrightarrow> W m p x = m x"
  shows "\<exists>p h' n' k. malloc h sz = Some (Inr (p, h')) \<and> heap_inv hi (h'\<lparr>bytes := W (bytes h') p\<rparr>)
    \<and> heap_blocks hi (h'\<lparr>bytes := W (bytes h') p\<rparr>) = Free n' # Used k # bs
    \<and> n' + 8 + k = n \<and> k < unat sz + 8 \<and> unat p = unat (freeSegment h) + 8 + n' + 8
    \<and> same_outside hi h (h'\<lparr>bytes := W (bytes h') p\<rparr>)
    \<and> (\<forall>(q, l) \<in> set (heap_live hi h). block_kept q l h (h'\<lparr>bytes := W (bytes h') p\<rparr>))"
proof -
  obtain p h' n' k where h': "malloc h sz = Some (Inr (p, h'))" "heap_inv hi h'" "heap_blocks hi h' = Free n' # Used k # bs"
      "n' + 8 + k = n" "unat sz \<le> k" "k < unat sz + 8" "unat p = unat (freeSegment h) + 8 + n' + 8" "same_outside hi h h'"
      "\<forall>(q, l) \<in> set (heap_live hi h). block_kept q l h h'"
    using client_malloc [OF inv blocks sz] by blast
  have f: "freeSegment h' = freeSegment h" using h'(8) by (simp add: same_outside_def)
  have live: "(unat p, k) \<in> set (heap_live hi h')" by (simp add: heap_live_def h'(3,7) f)
  have b: "unat p + unat sz \<le> 2 ^ 32" using heap_inv_extent [OF h'(2)] h'(3,5,7) f by simp
  have "W (bytes h') p x = bytes h' x" if "\<not> in_payload (unat p) k x" for x
    using that h'(5) by (intro W [OF b]) auto
  note w = write_block [OF h'(2) live this]
  have "block_kept q l h (h'\<lparr>bytes := W (bytes h') p\<rparr>)" if q: "(q, l) \<in> set (heap_live hi h)" for q l
  proof -
    have "unat (freeSegment h) + 8 + n + 8 \<le> q"
      using q live_bounds [of q l "unat (freeSegment h) + 8 + n" bs] by (simp add: heap_live_def blocks)
    then have "W (bytes h') p x = bytes h' x" if "in_payload q l x" for x
      using that h'(4,5,7) by (intro W [OF b]) simp
    then show ?thesis using h'(9) q by (auto simp: block_kept_def)
  qed
  then show ?thesis
    using h'(1,3,4,6,7) w(1,2) same_outside_trans [OF h'(8) w(3)]
    by (intro exI [of _ p] exI [of _ h'] exI [of _ n'] exI [of _ k]) auto
qed

subsection \<open>Giving a block back\<close>

lemma client_free:
  assumes inv: "heap_inv hi h" and blocks: "heap_blocks hi h = xs @ Used k # ys"
    and p: "unat p = unat (freeSegment h) + extent xs + 8"
  shows "\<exists>h'. free h p = Some (Inr h') \<and> heap_inv hi h' \<and> heap_blocks hi h' = coalesce (xs @ Free k # ys)
    \<and> same_outside hi h h' \<and> (\<forall>(q, l) \<in> set (heap_live hi h). q \<noteq> unat p \<longrightarrow> block_kept q l h h')"
proof -
  let ?a = "unat (freeSegment h)"
  have live: "heap_live hi h = live ?a xs @ (unat p, k) # live (?a + extent xs + 8 + k) ys"
    by (simp add: heap_live_def blocks live_append p)
  then have "unat p \<in> fst ` set (heap_live hi h)" by simp
  from free_SomeE [OF inv this] obtain h' where h': "free h p = Some (Inr h')" "heap_inv hi h'"
      "freeSegment h' = freeSegment h" "heap_blocks hi h' = free_spec (unat p) ?a (heap_blocks hi h)"
      "untouched (bytes h) (bytes h') ?a (release (unat p) ?a (heap_blocks hi h))"
    by blast
  have "unat p \<notin> fst ` set (live ?a xs)" using p by (auto dest!: live_bounds)
  then have rel: "release (unat p) ?a (heap_blocks hi h) = xs @ Free k # ys"
    by (simp add: blocks release_append p)
  have "same_outside hi h h'"
    using h'(3) by (intro untouched_outside [OF inv h'(5)]) (simp_all add: rel blocks)
  moreover have "\<forall>(q, l) \<in> set (heap_live hi h). q \<noteq> unat p \<longrightarrow> block_kept q l h h'"
    using untouched_block [OF h'(5)] live by (auto simp: rel live_append)
  ultimately show ?thesis using h' by (auto simp: free_spec_def rel)
qed

end
