(* ===== verification/Free_List.thy ===== *)
theory Free_List
  imports Heap_Client Kernel_State
begin

text \<open>
  The functions on the free list that the self test of kernel/kernel/allocator.c uses:
  \<open>FreeSegment_equals\<close>, \<open>FreeSegment_print\<close>, \<open>deep_copy\<close>, which copies the list into blocks of
  the heap whose list it copies, and \<open>FreeSegment_delete\<close>. A list that runs in a circle makes
  them run for ever.
\<close>

partial_function (option) FreeSegment_equals :: "mem \<Rightarrow> u32 \<Rightarrow> u32 \<Rightarrow> bool option" where
  "FreeSegment_equals m a b =
     (if a = 0 \<and> b = 0 then Some True
      else if a = 0 \<or> b = 0 then Some False
      else if seg_size m a = seg_size m b then FreeSegment_equals m (seg_next m a) (seg_next m b)
      else Some False)"

definition FreeSegment_print :: "env \<Rightarrow> u32 \<Rightarrow> kernel \<Rightarrow> kernel effect" where
  "FreeSegment_print E a k =
     bindE (k_LOG E ''kernel/allocator.c'' 154 ''FreeSegment: '' [] k) (\<lambda>k.
     if a = 0 then k_LOG E ''kernel/allocator.c'' 156 ''NULL'' [] k
     else k_LOG E ''kernel/allocator.c'' 159 ''Size: %d'' [VWord (seg_size (bytes (k_heap k)) a)] k)"

definition copy_size :: "u32 \<Rightarrow> u32 \<Rightarrow> heap \<Rightarrow> heap" where
  "copy_size copy a h = h\<lparr>bytes := set_size (bytes h) copy (seg_size (bytes h) a)\<rparr>"

partial_function (option) deep_copy :: "heap \<Rightarrow> u32 \<Rightarrow> (kerror + (u32 \<times> heap)) option" where
  "deep_copy h a =
     (if a = 0 then Some (Inr (0, h))
      else case malloc h sizeof_FreeSegment of None \<Rightarrow> None
      | Some r \<Rightarrow> (case r of Inl e \<Rightarrow> Some (Inl e)
        | Inr (copy, h) \<Rightarrow>
          Option.bind (deep_copy (copy_size copy a h) (seg_next (bytes (copy_size copy a h)) a))
            (\<lambda>r. case r of Inl e \<Rightarrow> Some (Inl e)
             | Inr (rest, h) \<Rightarrow> Some (Inr (copy, h\<lparr>bytes := set_next (bytes h) copy rest\<rparr>)))))"

partial_function (option) FreeSegment_delete :: "heap \<Rightarrow> u32 \<Rightarrow> (kerror + heap) option" where
  "FreeSegment_delete h a =
     (if a = 0 then Some (Inr h)
      else Option.bind (FreeSegment_delete h (seg_next (bytes h) a))
        (\<lambda>r. case r of Inl e \<Rightarrow> Some (Inl e) | Inr h \<Rightarrow> free h a))"

subsection \<open>Equality of lists\<close>

text \<open>The list at an address, by the sizes of its segments.\<close>

fun seg_list :: "mem \<Rightarrow> u32 \<Rightarrow> u32 list \<Rightarrow> bool" where
  "seg_list m p [] = (p = 0)"
| "seg_list m p (n # ns) = (p \<noteq> 0 \<and> seg_size m p = n \<and> seg_list m (seg_next m p) ns)"

lemma FreeSegment_equals_spec:
  "seg_list m a xs \<Longrightarrow> seg_list m b ys \<Longrightarrow> FreeSegment_equals m a b = Some (xs = ys)"
proof (induction xs arbitrary: a b ys)
  case Nil
  then show ?case by (cases ys) (simp_all add: FreeSegment_equals.simps)
next
  case (Cons x xs)
  then show ?case by (cases ys) (auto simp: FreeSegment_equals.simps [of m a b] FreeSegment_equals.simps [of m a 0])
qed

subsection \<open>Copying into the heap\<close>

lemma malloc_8:
  assumes "heap_inv hi h" "8 \<le> unat (freeSegment h)"
    and "alloc_spec 8 (unat (freeSegment h)) (heap_blocks hi h) = Some (p, bs)"
  shows "\<exists>h'. malloc h 8 = Some (Inr (of_nat p, h')) \<and> heap_inv hi h' \<and> heap_blocks hi h' = bs
    \<and> freeSegment h' = freeSegment h"
  using malloc_refines [OF assms(1), of 8] assms(2,3) by auto

text \<open>A segment header written into a live block changes no block and no segment of the list.\<close>

lemma write_header:
  assumes "heap_inv hi h" "(p, n) \<in> set (heap_live hi h)" "8 \<le> n"
  shows "heap_inv hi (h\<lparr>bytes := set_size (bytes h) (of_nat p) v\<rparr>)
      \<and> heap_blocks hi (h\<lparr>bytes := set_size (bytes h) (of_nat p) v\<rparr>) = heap_blocks hi h"
    and "heap_inv hi (h\<lparr>bytes := set_next (bytes h) (of_nat p) v\<rparr>)
      \<and> heap_blocks hi (h\<lparr>bytes := set_next (bytes h) (of_nat p) v\<rparr>) = heap_blocks hi h"
    and "p + n < 2 ^ 32"
proof -
  show b: "p + n < 2 ^ 32"
    using assms(1,2) live_bounds [of p n "unat (freeSegment h)" "heap_blocks hi h"]
    by (auto simp: heap_live_def heap_inv_def heap_rel_def)
  have u: "unat (of_nat p + of_nat i :: u32) = p + i" if "i < 8" for i
    using that b assms(3) by (subst of_nat_add [symmetric], intro unat_of_nat32) simp
  have u0: "unat (of_nat p :: u32) = p" using u [of 0] by simp
  show "heap_inv hi (h\<lparr>bytes := set_size (bytes h) (of_nat p) v\<rparr>)
      \<and> heap_blocks hi (h\<lparr>bytes := set_size (bytes h) (of_nat p) v\<rparr>) = heap_blocks hi h"
    unfolding set_size_def using u [of 1] u [of 2] u [of 3] assms(3)
    by (intro store32_payload [OF assms(1,2)]) (simp_all add: u0)
  show "heap_inv hi (h\<lparr>bytes := set_next (bytes h) (of_nat p) v\<rparr>)
      \<and> heap_blocks hi (h\<lparr>bytes := set_next (bytes h) (of_nat p) v\<rparr>) = heap_blocks hi h"
    unfolding set_next_def using u [of 4] u [of 5] u [of 6] u [of 7] assms(3)
    by (intro store32_payload [OF assms(1,2)]) (simp_all add: add.assoc)
qed

text \<open>One segment copied: the block and the size it gets, with the blocks after it.\<close>

lemma copy_one:
  assumes "heap_inv hi h" "8 \<le> unat (freeSegment h)"
    and "alloc_spec 8 (unat (freeSegment h)) (heap_blocks hi h) = Some (p, bs)"
  shows "\<exists>h1. malloc h 8 = Some (Inr (of_nat p, h1)) \<and> heap_inv hi (copy_size (of_nat p) a h1)
    \<and> heap_blocks hi (copy_size (of_nat p) a h1) = bs \<and> freeSegment (copy_size (of_nat p) a h1) = freeSegment h
    \<and> seg_size (bytes (copy_size (of_nat p) a h1)) (of_nat p) = seg_size (bytes h1) a
    \<and> heap_inv hi h1 \<and> heap_blocks hi h1 = bs \<and> freeSegment h1 = freeSegment h
    \<and> (\<exists>n. (p, n) \<in> set (heap_live hi h1) \<and> 8 \<le> n)"
proof -
  obtain h1 where h1: "malloc h 8 = Some (Inr (of_nat p, h1))" "heap_inv hi h1" "heap_blocks hi h1 = bs"
    "freeSegment h1 = freeSegment h"
    using malloc_8 [OF assms] by blast
  obtain n where n: "(p, n) \<in> set (heap_live hi h1)" "8 \<le> n"
    using alloc_spec_live [OF assms(3)] assms(2) h1(3,4) by (fastforce simp: heap_live_def)
  show ?thesis
    using h1 n write_header(1) [OF h1(2) n] by (auto simp: copy_size_def hdr_same)
qed

lemma next_free_all_used: "all_used us \<Longrightarrow> next_free a us = 0"
  using next_free_used [of us a "[]"] by simp

text \<open>The headers of the first segment, read off the block list.\<close>

lemma first_header:
  assumes "heap_inv hi h" "heap_blocks hi h = Free n # bs"
  shows "seg_size (bytes h) (freeSegment h) = of_nat n"
    and "seg_next (bytes h) (freeSegment h) = next_free (unat (freeSegment h) + 8 + n) bs"
    and "freeSegment h \<noteq> 0"
  using assms by (auto simp: heap_inv_def heap_rel_def)

lemma deep_copy_state:
  assumes inv: "heap_inv hi h" and a: "8 \<le> unat (freeSegment h)"
    and blocks: "heap_blocks hi h = Free n # us" "all_used us" "23 \<le> n"
  shows "\<exists>p h' n' k. deep_copy h (freeSegment h) = Some (Inr (p, h')) \<and> heap_inv hi h'
    \<and> heap_blocks hi h' = Free n' # Used k # us \<and> n' + 8 + k = n \<and> 8 \<le> k \<and> k < 16
    \<and> unat p = unat (freeSegment h) + 8 + n' + 8 \<and> seg_list (bytes h') p [of_nat n'] \<and> same_outside hi h h'"
proof -
  let ?a = "unat (freeSegment h)"
  have sz: "unat (8 :: u32) + 15 \<le> n" "unat (8 :: u32) \<le> ?a" using a blocks(3) by simp_all
  obtain p h1 n' k where h1: "malloc h 8 = Some (Inr (p, h1))" "heap_inv hi h1" "heap_blocks hi h1 = Free n' # Used k # us"
      "n' + 8 + k = n" "8 \<le> k" "unat p = ?a + 8 + n' + 8" "same_outside hi h h1" "k < 16"
    using client_malloc [OF inv blocks(1) sz] by auto
  have f1: "freeSegment h1 = freeSegment h" using h1(7) by (simp add: same_outside_def)
  have live: "(unat p, k) \<in> set (heap_live hi h1)" by (simp add: heap_live_def h1(3,6) f1)
  have b: "unat p + 8 \<le> 2 ^ 32" using heap_inv_extent [OF h1(2)] h1(3,5,6) f1 by simp
  have hd: "seg_size (bytes h1) (freeSegment h) = of_nat n'" "seg_next (bytes h1) (freeSegment h) = 0" "freeSegment h \<noteq> 0"
    using first_header [OF h1(2,3)] blocks(2) f1 by (simp_all add: next_free_all_used)
  define m where "m = set_next (set_size (bytes h1) p (of_nat n')) p 0"
  have m: "m x = bytes h1 x" if "\<not> in_payload (unat p) k x" for x
    using that b h1(5) by (auto simp: m_def hdr_bytes)
  note w = write_block [OF h1(2) live m]
  have ap: "unat (freeSegment h) + 8 \<le> unat p" using h1(6) by simp
  then have "apart p (freeSegment h)" using b by (simp add: apart_def)
  then have z: "seg_next (bytes (copy_size p (freeSegment h) h1)) (freeSegment h) = 0"
    using hd(2) by (simp add: copy_size_def hdr_other)
  have "deep_copy h (freeSegment h) = Some (Inr (p, h1\<lparr>bytes := m\<rparr>))"
    using hd h1(1) z by (subst deep_copy.simps) (simp add: deep_copy.simps [of _ 0] m_def copy_size_def)
  moreover have "p \<noteq> 0" using h1(6) by auto
  then have "seg_list m p [of_nat n']" by (simp add: m_def hdr_same hdr_self [OF b])
  moreover have "same_outside hi h (h1\<lparr>bytes := m\<rparr>)" using h1(7) w(3) by (rule same_outside_trans)
  ultimately show ?thesis
    using w(1,2) h1(3-6,8) by (intro exI [of _ p] exI [of _ "h1\<lparr>bytes := m\<rparr>"] exI [of _ n'] exI [of _ k]) simp
qed

lemma free_list_of_first:
  assumes "heap_inv hi h" "heap_blocks hi h = Free n # us" "all_used us"
  shows "seg_list (bytes h) (freeSegment h) [of_nat n]"
  using first_header [OF assms(1,2)] assms(3) by (simp add: next_free_all_used)

lemma delete_copy:
  assumes inv: "heap_inv hi h" and blocks: "heap_blocks hi h = Free n # Used k # us" "all_used us"
    and p: "unat p = unat (freeSegment h) + 8 + n + 8" "seg_list (bytes h) p [v]"
  shows "\<exists>h'. FreeSegment_delete h p = Some (Inr h') \<and> heap_inv hi h' \<and> heap_blocks hi h' = Free (n + 8 + k) # us
    \<and> same_outside hi h h'"
proof -
  have "heap_blocks hi h = [Free n] @ Used k # us" "unat p = unat (freeSegment h) + extent [Free n] + 8"
    using blocks(1) p(1) by simp_all
  from client_free [OF inv this] obtain h' where h': "free h p = Some (Inr h')" "heap_inv hi h'"
      "heap_blocks hi h' = coalesce ([Free n] @ Free k # us)" "same_outside hi h h'" by blast
  have "coalesce us = us" using coalesce_used [OF blocks(2), of "[]"] by simp
  moreover have "join (Free k) us = Free k # us" using join_used [OF _ blocks(2), of "Free k" "[]"] by (cases us) auto
  ultimately have "coalesce ([Free n] @ Free k # us) = Free (n + 8 + k) # us" by simp
  moreover have "FreeSegment_delete h p = Some (Inr h')"
    using p(2) h'(1) by (subst FreeSegment_delete.simps) (simp add: FreeSegment_delete.simps [of _ 0])
  ultimately show ?thesis using h' by auto
qed

lemma deep_copy_one:
  assumes inv: "heap_inv hi h" and a: "8 \<le> unat (freeSegment h)"
    and blocks: "heap_blocks hi h = Free n # us" "all_used us" "23 \<le> n"
  shows "\<exists>p n' h1 h2. n' < n \<and> deep_copy h (freeSegment h) = Some (Inr (p, h1))
    \<and> seg_list (bytes h1) p [of_nat n'] \<and> seg_list (bytes h1) (freeSegment h1) [of_nat n']
    \<and> FreeSegment_delete h1 p = Some (Inr h2) \<and> heap_inv hi h2 \<and> heap_blocks hi h2 = heap_blocks hi h"
proof -
  obtain p h1 n' k where c: "deep_copy h (freeSegment h) = Some (Inr (p, h1))" "heap_inv hi h1"
      "heap_blocks hi h1 = Free n' # Used k # us" "n' + 8 + k = n"
      "unat p = unat (freeSegment h) + 8 + n' + 8" "seg_list (bytes h1) p [of_nat n']" "same_outside hi h h1"
    using deep_copy_state [OF assms] by blast
  have f: "freeSegment h1 = freeSegment h" using c(7) by (simp add: same_outside_def)
  have "seg_list (bytes h1) (freeSegment h1) [of_nat n']"
    using blocks(2) by (intro free_list_of_first [OF c(2,3)]) simp
  moreover obtain h2 where "FreeSegment_delete h1 p = Some (Inr h2)" "heap_inv hi h2" "heap_blocks hi h2 = Free (n' + 8 + k) # us"
    using delete_copy [OF c(2,3) blocks(2) _ c(6)] c(5) f by auto
  ultimately show ?thesis using c blocks(1) by (intro exI [of _ p] exI [of _ n'] exI [of _ h1] exI [of _ h2]) auto
qed

subsection \<open>Two free segments\<close>

definition split_heap :: heap where
  "split_heap = \<lparr>bytes = set_next (set_size (set_size (set_next (set_size (\<lambda>_. 0) 4096 104) 4096 4240) 4208 24) 4240 40) 4240 0,
     freeSegment = 4096\<rparr>"

lemma split_heap_rel: "heap_rel 4288 [Free 104, Used 24, Free 40] split_heap"
proof -
  have "apart 4096 4208" "apart 4096 4240" "apart 4208 4240" "apart 4208 4096" "apart 4240 4096" "apart 4240 4208"
    by (simp_all add: apart_def)
  then show ?thesis
    by (simp add: heap_rel_def split_heap_def hdr_self hdr_same hdr_other coalesced_Cons_iff)
qed

lemmas split_heap_facts = split_heap_rel [THEN heap_rel_inv] split_heap_rel [THEN heap_rel_blocks]

lemma split_heap_copy:
  "\<exists>h. deep_copy split_heap 4096 = Some (Inr (4200, h)) \<and> seg_list (bytes h) 4200 [88, 40]
    \<and> seg_list (bytes h) (freeSegment h) [72, 40]"
proof -
  let ?b1 = "[Free 88, Used 8, Used 24, Free 40]" and ?b2 = "[Free 72, Used 8, Used 8, Used 24, Free 40]"
  have base: "freeSegment split_heap = 4096" by (simp add: split_heap_def)
  have s1: "alloc_spec 8 (unat (freeSegment split_heap)) (heap_blocks 4288 split_heap) = Some (4200, ?b1)"
    unfolding base split_heap_facts(2) by (simp add: alloc_spec.simps carve_def)
  have a: "8 \<le> unat (freeSegment split_heap)" by (simp add: base)
  obtain h1 where h1: "malloc split_heap 8 = Some (Inr (4200, h1))" "heap_inv 4288 h1" "heap_blocks 4288 h1 = ?b1"
      "freeSegment h1 = 4096"
    and g1: "heap_inv 4288 (copy_size 4200 4096 h1)" "heap_blocks 4288 (copy_size 4200 4096 h1) = ?b1"
      "freeSegment (copy_size 4200 4096 h1) = 4096"
      "seg_size (bytes (copy_size 4200 4096 h1)) 4200 = seg_size (bytes h1) 4096"
    using copy_one [OF split_heap_facts(1) a s1, of 4096] by (auto simp: base)
  define k1 where "k1 = copy_size 4200 4096 h1"
  have lay1: "layout (bytes k1) 4096 ?b1"
    using g1(1-3) by (simp add: k1_def heap_inv_def heap_rel_def del: layout.simps)
  have size1: "seg_size (bytes k1) 4200 = 88"
    using first_header(1) [OF h1(2,3)] h1(4) g1(4) by (simp add: k1_def)
  have next1: "seg_next (bytes k1) 4096 = 4240" using lay1 by simp
  have s2: "alloc_spec 8 (unat (freeSegment k1)) (heap_blocks 4288 k1) = Some (4184, ?b2)"
    unfolding k1_def g1(2,3) by (simp add: alloc_spec.simps carve_def)
  have a2: "8 \<le> unat (freeSegment k1)" using g1(3) by (simp add: k1_def)
  have inv1: "heap_inv 4288 k1" using g1(1) by (simp add: k1_def)
  obtain h2 where h2: "malloc k1 8 = Some (Inr (4184, h2))" "heap_inv 4288 h2" "heap_blocks 4288 h2 = ?b2"
      "freeSegment h2 = 4096"
    and g2: "heap_inv 4288 (copy_size 4184 4240 h2)" "heap_blocks 4288 (copy_size 4184 4240 h2) = ?b2"
      "freeSegment (copy_size 4184 4240 h2) = 4096"
      "seg_size (bytes (copy_size 4184 4240 h2)) 4184 = seg_size (bytes h2) 4240"
    using copy_one [OF inv1 a2 s2, of 4240] g1(3) by (auto simp: k1_def)
  define k2 where "k2 = copy_size 4184 4240 h2"
  define k3 where "k3 = k2\<lparr>bytes := set_next (bytes k2) 4184 0\<rparr>"
  define k4 where "k4 = k3\<lparr>bytes := set_next (bytes k3) 4200 4184\<rparr>"
  have live: "(4184, 8) \<in> set (heap_live 4288 g)" "(4200, 8) \<in> set (heap_live 4288 g)"
    if "heap_blocks 4288 g = ?b2" "freeSegment g = 4096" for g
    using that by (simp_all add: heap_live_def)
  have k2: "heap_inv 4288 k2" "heap_blocks 4288 k2 = ?b2" "freeSegment k2 = 4096" using g2 by (simp_all add: k2_def)
  have k3: "heap_inv 4288 k3" "heap_blocks 4288 k3 = ?b2" "freeSegment k3 = 4096"
    using write_header(2) [OF k2(1) live(1) [OF k2(2,3)], of 0] k2(2,3) by (simp_all add: k3_def)
  have k4: "heap_inv 4288 k4" "heap_blocks 4288 k4 = ?b2" "freeSegment k4 = 4096"
    using write_header(2) [OF k3(1) live(2) [OF k3(2,3)], of 4184] k3(2,3) by (simp_all add: k4_def)
  have lay: "layout (bytes g) 4096 ?b2" if "heap_inv 4288 g" "heap_blocks 4288 g = ?b2" "freeSegment g = 4096" for g
    using that by (simp add: heap_inv_def heap_rel_def del: layout.simps)
  have "deep_copy k2 0 = Some (Inr (0, k2))" by (simp add: deep_copy.simps)
  moreover have "seg_next (bytes k2) 4240 = 0" using lay [OF k2] by simp
  ultimately have "deep_copy k1 4240 = Some (Inr (4184, k3))"
    using h2(1) by (subst deep_copy.simps) (simp add: k3_def flip: k2_def)
  then have run: "deep_copy split_heap 4096 = Some (Inr (4200, k4))"
    using h1(1) next1 by (subst deep_copy.simps) (simp add: k4_def flip: k1_def)
  have "bytes h2 x = bytes k1 x" if "in_payload 4200 8 x" for x
    using kheap.alloc_cells [OF inv1 _ h2(1), of 4200 8 x] that g1(2,3) a2
    by (simp add: heap_live_def heap_limit_def k1_def)
  then have "seg_size (bytes h2) 4200 = 88"
    using size1 hdr_cong(1) [of 4200 "bytes h2" "bytes k1"] by simp
  moreover have ap: "apart 4184 4200" "apart 4200 4184" by (simp_all add: apart_def)
  ultimately have "seg_size (bytes k4) 4200 = 88" "seg_next (bytes k4) 4200 = 4184"
    by (simp_all add: k4_def k3_def k2_def copy_size_def hdr_self hdr_same hdr_other)
  moreover have "seg_size (bytes k4) 4184 = 40" "seg_next (bytes k4) 4184 = 0"
    using g2(4) lay [OF h2(2-4)] ap by (simp_all add: k4_def k3_def hdr_self hdr_same hdr_other flip: k2_def)
  moreover have "seg_list (bytes k4) (freeSegment k4) [72, 40]" using lay [OF k4] k4(3) by simp
  ultimately show ?thesis using run by auto
qed

subsection \<open>Properties\<close>

text \<open>
  C36. \<open>FreeSegment_equals\<close> returns on lists that end, and compares the sizes of their segments. With
  it, \<open>deep_copy\<close> of a free list of one segment equals the list as it is after the copy's own
  allocation, and \<open>FreeSegment_delete\<close> of the copy restores every block. With two segments
  \<open>deep_copy\<close> is not a copy of any one state of the list: the first size was taken before the
  second allocation shrank that segment, so the copy equals the list neither before nor after.
\<close>

theorem deep_copy_snapshot:
  assumes "seg_list m a xs" "seg_list m b ys"
    and "heap_inv hi h" "8 \<le> unat (freeSegment h)" "heap_blocks hi h = Free n # us"
    and "\<forall>u \<in> set us. \<not> is_free u" "23 \<le> n"
  shows "FreeSegment_equals m a b = Some (xs = ys)
    \<and> (\<exists>p h1 h2. deep_copy h (freeSegment h) = Some (Inr (p, h1))
        \<and> FreeSegment_equals (bytes h1) p (freeSegment h1) = Some True
        \<and> FreeSegment_delete h1 p = Some (Inr h2) \<and> heap_inv hi h2 \<and> heap_blocks hi h2 = heap_blocks hi h)
    \<and> (\<exists>h1. deep_copy split_heap 4096 = Some (Inr (4200, h1)) \<and> seg_list (bytes h1) 4200 [88, 40]
        \<and> seg_list (bytes split_heap) 4096 [104, 40]
        \<and> FreeSegment_equals (bytes h1) 4200 (freeSegment h1) = Some False)"
proof (intro conjI)
  show "FreeSegment_equals m a b = Some (xs = ys)" using assms(1,2) by (rule FreeSegment_equals_spec)
  have "all_used us" using assms(6) by (simp add: list_all_iff)
  from deep_copy_one [OF assms(3,4,5) this assms(7)] obtain p n' h1 h2 where
    c: "deep_copy h (freeSegment h) = Some (Inr (p, h1))" "seg_list (bytes h1) p [of_nat n']"
      "seg_list (bytes h1) (freeSegment h1) [of_nat n']" "FreeSegment_delete h1 p = Some (Inr h2)"
      "heap_inv hi h2" "heap_blocks hi h2 = heap_blocks hi h"
    by blast
  then show "\<exists>p h1 h2. deep_copy h (freeSegment h) = Some (Inr (p, h1))
      \<and> FreeSegment_equals (bytes h1) p (freeSegment h1) = Some True
      \<and> FreeSegment_delete h1 p = Some (Inr h2) \<and> heap_inv hi h2 \<and> heap_blocks hi h2 = heap_blocks hi h"
    using FreeSegment_equals_spec [OF c(2,3)] by auto
  obtain h1 where h1: "deep_copy split_heap 4096 = Some (Inr (4200, h1))" "seg_list (bytes h1) 4200 [88, 40]"
      "seg_list (bytes h1) (freeSegment h1) [72, 40]"
    using split_heap_copy by blast
  moreover have "seg_list (bytes split_heap) 4096 [104, 40]"
    using split_heap_rel by (simp add: heap_rel_def split_heap_def)
  ultimately show "\<exists>h1. deep_copy split_heap 4096 = Some (Inr (4200, h1)) \<and> seg_list (bytes h1) 4200 [88, 40]
      \<and> seg_list (bytes split_heap) 4096 [104, 40]
      \<and> FreeSegment_equals (bytes h1) 4200 (freeSegment h1) = Some False"
    using FreeSegment_equals_spec [OF h1(2,3)] by auto
qed

theorem deep_copy_snapshot_witness:
  "\<exists>p h1 h2. deep_copy small_heap 4096 = Some (Inr (p, h1))
    \<and> FreeSegment_equals (bytes h1) p (freeSegment h1) = Some True
    \<and> FreeSegment_delete h1 p = Some (Inr h2) \<and> heap_blocks 4208 h2 = [Free 104]"
proof -
  have "seg_list (bytes small_heap) 4096 [104]"
    using small_heap_rel by (simp add: heap_rel_def small_heap_def)
  from deep_copy_snapshot [OF this this small_heap_facts(1) _ small_heap_facts(2)] show ?thesis
    by (auto simp: small_heap_facts)
qed

end
