(* ===== verification/Spinlock.thy ===== *)
theory Spinlock
  imports Memory
begin

text \<open>
  kernel/kernel/spinlock.c, twice. First the functions on the memory, for one thread: \<open>xchg\<close>
  with an \<open>int\<close> register exchanges four bytes, of which the lock is only the first. Then the
  interleavings of several threads, one step per access to the lock, as a step relation with its
  invariant; there the lock is alone in its word.
\<close>

subsection \<open>One thread\<close>

text \<open>The four bytes at \<open>p\<close> are exchanged; then the byte at \<open>p\<close> is compared with \<open>val\<close>.\<close>

definition set_val_atomic :: "mem \<Rightarrow> u32 \<Rightarrow> int \<Rightarrow> kerror + (int \<times> mem)" where
  "set_val_atomic m ptr val =
     (let result = sint (load32 m ptr); m = store32 m ptr (word_of_int val) in
      if uint (m ptr) = val then Inr (result, m) else Inl (Panic ''*ptr is not 1''))"

partial_function (option) spin_acquire :: "mem \<Rightarrow> u32 \<Rightarrow> (kerror + mem) option" where
  "spin_acquire m ptr =
     (case set_val_atomic m ptr 1 of
        Inl e \<Rightarrow> Some (Inl e)
      | Inr r \<Rightarrow> if fst r \<noteq> 0 then spin_acquire (snd r) ptr else Some (Inr (snd r)))"

declare spin_acquire.simps [code]

definition spin_lock :: "mem \<Rightarrow> u32 \<Rightarrow> (kerror + (int \<times> mem)) option" where
  "spin_lock m lock =
     (if lock = 0 then Some (Inl (Panic ''spinlock NULL!''))
      else case spin_acquire m lock of
          None \<Rightarrow> None
        | Some (Inl e) \<Rightarrow> Some (Inl e)
        | Some (Inr m) \<Rightarrow> if m lock = 1 then Some (Inr (0, m))
            else Some (Inl (Panic ''lock->locked is not 1'')))"

definition spin_unlock :: "mem \<Rightarrow> u32 \<Rightarrow> kerror + (int \<times> mem)" where
  "spin_unlock m lock =
     (if lock = 0 then Inl (Panic ''spinlock NULL!'')
      else if m lock = 0 then Inl (Panic ''lock not held, trying to unlock. Asserting'')
      else Inr (0, m(lock := 0)))"

definition BUSY :: int where "BUSY = -1"

definition spin_trylock :: "mem \<Rightarrow> u32 \<Rightarrow> kerror + (int \<times> mem)" where
  "spin_trylock m lock =
     (if lock = 0 then Inl (Panic ''spinlock NULL!'')
      else case set_val_atomic m lock 1 of
          Inl e \<Rightarrow> Inl e
        | Inr (r, m) \<Rightarrow> if r = 0 then Inr (0, m) else Inr (BUSY, m))"

lemma store32_byte0: "store32 m p 1 p = 1"
  by (simp add: store32_def)

lemma set_val_atomic_one: "set_val_atomic m p 1 = Inr (sint (load32 m p), store32 m p 1)"
  by (simp add: set_val_atomic_def Let_def store32_byte0)

lemma sint_zero_iff: "sint w = 0 \<longleftrightarrow> w = (0 :: u32)"
  by (metis signed_word_eqI sint_0)

lemma spin_acquire_free: "load32 m p = 0 \<Longrightarrow> spin_acquire m p = Some (Inr (store32 m p 1))"
  by (subst spin_acquire.simps) (simp add: set_val_atomic_one)

lemma spin_acquire_returns:
  assumes "spin_acquire m p = Some r"
  shows "load32 m p = 0"
proof (rule spin_acquire.raw_induct [where P = "\<lambda>m p r. load32 m p = 0", OF _ assms])
  fix f m p r
  assume IH: "\<And>m p r. f m p = Some r \<Longrightarrow> load32 m p = 0"
    and run: "(case set_val_atomic m p 1 of Inl e \<Rightarrow> Some (Inl e)
      | Inr r \<Rightarrow> if fst r \<noteq> 0 then f (snd r) p else Some (Inr (snd r))) = Some r"
  show "load32 m p = 0"
  proof (rule ccontr)
    assume "load32 m p \<noteq> 0"
    then have "f (store32 m p 1) p = Some r"
      using run by (simp add: set_val_atomic_one sint_zero_iff)
    from IH [OF this] show False by (simp add: load32_store32_same)
  qed
qed

lemma spin_acquire_busy: "load32 m p \<noteq> 0 \<Longrightarrow> spin_acquire m p = None"
  using spin_acquire_returns by (cases "spin_acquire m p") blast+

subsection \<open>Several threads\<close>

text \<open>
  The places of a thread: outside, about to exchange, about to compare \<open>*ptr\<close> with 1 having
  got a result, about to check \<open>lock->locked\<close>, holding the lock, and panicked.
\<close>

datatype pc = Idle | Exchange | Compare u8 | Recheck | Critical | Panicked

record lock_system =
  locked :: u8
  pcs :: "nat \<Rightarrow> pc"

definition set_pc :: "lock_system \<Rightarrow> nat \<Rightarrow> pc \<Rightarrow> lock_system" where
  "set_pc s i c = s\<lparr>pcs := (pcs s)(i := c)\<rparr>"

inductive lock_step :: "lock_system \<Rightarrow> lock_system \<Rightarrow> bool" where
  call_lock: "pcs s i = Idle \<Longrightarrow> lock_step s (set_pc s i Exchange)"
| xchg: "pcs s i = Exchange \<Longrightarrow> lock_step s (set_pc (s\<lparr>locked := 1\<rparr>) i (Compare (locked s)))"
| compare_ok: "pcs s i = Compare r \<Longrightarrow> locked s = 1 \<Longrightarrow>
    lock_step s (set_pc s i (if r = 0 then Recheck else Exchange))"
| compare_fails: "pcs s i = Compare r \<Longrightarrow> locked s \<noteq> 1 \<Longrightarrow> lock_step s (set_pc s i Panicked)"
| recheck_ok: "pcs s i = Recheck \<Longrightarrow> locked s = 1 \<Longrightarrow> lock_step s (set_pc s i Critical)"
| recheck_fails: "pcs s i = Recheck \<Longrightarrow> locked s \<noteq> 1 \<Longrightarrow> lock_step s (set_pc s i Panicked)"
| unlock_ok: "pcs s i = Critical \<Longrightarrow> locked s \<noteq> 0 \<Longrightarrow> lock_step s (set_pc (s\<lparr>locked := 0\<rparr>) i Idle)"
| unlock_fails: "pcs s i = Critical \<Longrightarrow> locked s = 0 \<Longrightarrow> lock_step s (set_pc s i Panicked)"

definition holds :: "lock_system \<Rightarrow> nat \<Rightarrow> bool" where
  "holds s i \<longleftrightarrow> pcs s i \<in> {Compare 0, Recheck, Critical}"

definition lock_inv :: "lock_system \<Rightarrow> bool" where
  "lock_inv s \<longleftrightarrow> (\<forall>i j. holds s i \<and> holds s j \<longrightarrow> i = j) \<and> (\<forall>i. holds s i \<longrightarrow> locked s = 1)
     \<and> (locked s = 0 \<or> locked s = 1)"

definition initial_lock :: lock_system where
  "initial_lock = \<lparr>locked = 0, pcs = (\<lambda>_. Idle)\<rparr>"

lemma set_pc_simps [simp]: "pcs (set_pc s i c) = (pcs s)(i := c)" "locked (set_pc s i c) = locked s"
  by (simp_all add: set_pc_def)

lemma lock_step_inv: "lock_step s t \<Longrightarrow> lock_inv s \<Longrightarrow> lock_inv t"
proof (induction rule: lock_step.induct)
  case (xchg s i)
  then show ?case by (cases "locked s = 0") (auto simp: lock_inv_def holds_def)
next
  case (unlock_ok s i)
  then have "\<not> holds s j" if "j \<noteq> i" for j using that by (auto simp: lock_inv_def holds_def)
  then show ?case by (auto simp: lock_inv_def holds_def)
qed (auto simp: lock_inv_def holds_def)

interpretation lock_runs: invariant_system lock_step lock_inv
  by unfold_locales (rule lock_step_inv)

lemma initial_lock_inv: "lock_inv initial_lock"
  by (simp add: lock_inv_def initial_lock_def holds_def)

inductive_cases lock_stepE: "lock_step s t"

lemma holder_step:
  assumes "lock_inv s" "lock_step s t" "holds s i"
  shows "pcs t i \<noteq> Panicked"
  using assms(2) assms(1,3) by (cases rule: lock_step.cases) (auto simp: lock_inv_def holds_def)

subsection \<open>Properties\<close>

text \<open>
  C13. Mutual exclusion: from the free lock with all threads outside, in every interleaving at
  most one thread is past a successful exchange and not yet out of \<open>spin_unlock\<close>; the lock is then
  1; and the next step, whoever takes it, does not make that thread panic.
\<close>

theorem spinlock_mutual_exclusion:
  assumes "lock_step\<^sup>*\<^sup>* initial_lock s" and "holds s i"
  shows "(\<forall>j. holds s j \<longrightarrow> j = i) \<and> locked s = 1 \<and> (\<forall>t. lock_step s t \<longrightarrow> pcs t i \<noteq> Panicked)"
proof -
  have "lock_inv s" by (rule lock_runs.reach_inv [OF assms(1) initial_lock_inv])
  then show ?thesis using assms(2) holder_step by (auto simp: lock_inv_def)
qed

lemma run_to_holder: "lock_step\<^sup>*\<^sup>* initial_lock (set_pc (set_pc initial_lock 0 Exchange\<lparr>locked := 1\<rparr>) 0 (Compare 0))"
proof -
  have "lock_step initial_lock (set_pc initial_lock 0 Exchange)"
    by (rule call_lock) (simp add: initial_lock_def)
  moreover have "lock_step (set_pc initial_lock 0 Exchange) (set_pc (set_pc initial_lock 0 Exchange\<lparr>locked := 1\<rparr>) 0 (Compare 0))"
    using xchg [of "set_pc initial_lock 0 Exchange" 0] by (simp add: initial_lock_def)
  ultimately show ?thesis by simp
qed

theorem spinlock_mutual_exclusion_witness:
  "locked (set_pc (set_pc initial_lock 0 Exchange\<lparr>locked := 1\<rparr>) 0 (Compare 0)) = 1"
  using spinlock_mutual_exclusion [OF run_to_holder, of 0] by (simp add: holds_def)

text \<open>
  The comparison after the exchange is a race: a thread that waits for the lock can find it
  released between its exchange and its comparison, and then panics though nothing is wrong. With
  two threads this state is reachable from the free lock.
\<close>

theorem spinlock_waiter_can_panic:
  "\<exists>s. lock_step\<^sup>*\<^sup>* initial_lock s \<and> pcs s 1 = Panicked \<and> pcs s 0 = Idle \<and> locked s = 0"
proof -
  define s1 where "s1 = set_pc (set_pc initial_lock 0 Exchange\<lparr>locked := 1\<rparr>) 0 (Compare 0)"
  define s2 where "s2 = set_pc s1 0 Recheck"
  define s3 where "s3 = set_pc s2 0 Critical"
  define s4 where "s4 = set_pc s3 1 Exchange"
  define s5 where "s5 = set_pc (s4\<lparr>locked := 1\<rparr>) 1 (Compare 1)"
  define s6 where "s6 = set_pc (s5\<lparr>locked := 0\<rparr>) 0 Idle"
  define s7 where "s7 = set_pc s6 1 Panicked"
  note defs = s1_def s2_def s3_def s4_def s5_def s6_def s7_def initial_lock_def
  have "lock_step\<^sup>*\<^sup>* initial_lock s1" unfolding s1_def by (rule run_to_holder)
  also have "lock_step s1 s2" using compare_ok [of s1 0 0] by (simp add: defs)
  also have "lock_step s2 s3" using recheck_ok [of s2 0] by (simp add: defs)
  also have "lock_step s3 s4" unfolding s4_def by (rule call_lock) (simp add: defs)
  also have "lock_step s4 s5" using xchg [of s4 1] by (simp add: defs)
  also have "lock_step s5 s6" unfolding s6_def by (rule unlock_ok) (simp_all add: defs)
  also have "lock_step s6 s7" unfolding s7_def by (rule compare_fails [of _ _ 1]) (simp_all add: defs)
  finally have "lock_step\<^sup>*\<^sup>* initial_lock s7" .
  then show ?thesis by (intro exI [of _ s7]) (simp add: defs)
qed

text \<open>
  For one thread: \<open>spin_lock\<close> takes the lock exactly when all four bytes at it are zero, and
  otherwise never returns (also when the lock is free and one of the three bytes behind it is
  not zero). Taking it sets the lock to 1 and those three bytes to zero. \<open>spin_trylock\<close> decides
  the same without waiting, and \<open>spin_unlock\<close> frees the lock.
\<close>

theorem spin_lock_exchanges_four_bytes:
  assumes "lock \<noteq> 0"
  shows "spin_lock m lock = (if load32 m lock = 0 then Some (Inr (0, store32 m lock 1)) else None)
    \<and> spin_trylock m lock = Inr (if load32 m lock = 0 then 0 else BUSY, store32 m lock 1)
    \<and> (\<forall>m'. spin_lock m lock = Some (Inr (0, m')) \<longrightarrow> spin_unlock m' lock = Inr (0, m'(lock := 0)))"
proof -
  have l: "spin_lock m lock = (if load32 m lock = 0 then Some (Inr (0, store32 m lock 1)) else None)"
    using assms by (simp add: spin_lock_def spin_acquire_free spin_acquire_busy store32_byte0)
  moreover have "spin_trylock m lock = Inr (if load32 m lock = 0 then 0 else BUSY, store32 m lock 1)"
    using assms by (simp add: spin_trylock_def set_val_atomic_one sint_zero_iff)
  moreover have "spin_unlock m' lock = Inr (0, m'(lock := 0))" if "spin_lock m lock = Some (Inr (0, m'))" for m'
    using that assms by (auto simp: l spin_unlock_def store32_byte0 split: if_splits)
  ultimately show ?thesis by blast
qed

theorem spin_lock_exchanges_four_bytes_witness:
  "spin_lock ((\<lambda>_. 0)(102 := 5)) 100 = None \<and> spin_lock (\<lambda>_. 0) 100 = Some (Inr (0, store32 (\<lambda>_. 0) 100 1))"
  using spin_lock_exchanges_four_bytes [of 100 "(\<lambda>_. 0)(102 := 5)"]
    spin_lock_exchanges_four_bytes [of 100 "\<lambda>_. 0"] by (simp add: load32_def)

end
