(* ===== verification/Self_Tests.thy ===== *)
theory Self_Tests
  imports Probe Free_List Spinlock
begin

text \<open>
  The self tests of a TEST build, in the order in which \<open>kernel_main\<close> runs them, and the tests of
  the segment table, which it has commented out. What a test reads from memory that the model keeps
  elsewhere is a parameter: the contents of \<open>test_arr\<close> and \<open>msg\<close>, the address of a string literal, and the
  address of a local variable on the stack.
\<close>

unbundle bit_operations_syntax

subsection \<open>utils.c\<close>

definition test_reverse :: "env \<Rightarrow> u8 list \<Rightarrow> kernel \<Rightarrow> (u8 list \<times> kernel) effect" where
  "test_reverse E test_arr k =
     (let copy = test_arr;
          test_arr = replicate 100 0;
          test = lit ''123'' @ [0];
          reversed = lit ''321'' @ [0];
          test_arr = test @ drop 4 test_arr in
      bindE (liftE (reverse test_arr 3)) (\<lambda>test_arr.
      bindE (k_assert E (memcmp (c_str test_arr) (c_str reversed) 4 = 0) ''test_reverse FAILED'' k) (\<lambda>k.
        Some (Inr (copy, k)))))"

definition test_to_str :: "env \<Rightarrow> u8 list \<Rightarrow> kernel \<Rightarrow> (u8 list \<times> kernel) effect" where
  "test_to_str E test_arr k =
     bindE (liftE (to_str test_arr 123)) (\<lambda>test_arr.
     bindE (k_assert E (memcmp (c_str (lit ''123'')) (c_str test_arr) 4 = 0) ''test_to_str FAILED'' k) (\<lambda>k.
     bindE (liftE (to_str test_arr 2)) (\<lambda>test_arr.
     bindE (k_assert E (memcmp (c_str (lit ''1'')) (c_str test_arr) 2 \<noteq> 0) ''test_to_str FAILED'' k) (\<lambda>k.
     bindE (liftE (to_str test_arr (-1))) (\<lambda>test_arr.
     bindE (k_assert E (memcmp (c_str (lit ''-1'')) (c_str test_arr) 3 = 0) ''test_to_str FAILED'' k) (\<lambda>k.
     bindE (liftE (to_str test_arr (-134))) (\<lambda>test_arr.
     bindE (k_assert E (memcmp (c_str (lit ''-134'')) (c_str test_arr) 5 = 0) ''test_to_str FAILED'' k) (\<lambda>k.
       Some (Inr (test_arr, k))))))))))"

definition run_utils_tests :: "env \<Rightarrow> u8 list \<Rightarrow> kernel \<Rightarrow> kernel effect" where
  "run_utils_tests E test_arr k =
     bindE (test_reverse E test_arr k) (\<lambda>(test_arr, k).
     bindE (test_to_str E test_arr k) (\<lambda>(_, k).
       k_LOG_GREEN E ''kernel/utils.c'' 125 ''Utils: [OK]'' [] k))"

subsection \<open>printf.c\<close>

definition test_printf :: "u8 list \<Rightarrow> u8 list" where
  "test_printf msg = replicate 100 0"

definition test_vsnprintf_fn :: "u8 list \<Rightarrow> u32 \<Rightarrow> u8 list \<Rightarrow> vslot list \<Rightarrow> kerror + (u8 list \<times> u32)" where
  "test_vsnprintf_fn msg bufSize fmt args = vsnprintf msg bufSize fmt args"

text \<open>One call with the two assertions on what it wrote and returned.\<close>

definition check_size :: "env \<Rightarrow> string \<Rightarrow> int \<Rightarrow> u32 \<Rightarrow> kernel \<Rightarrow> kernel effect" where
  "check_size E msg n outSize k = k_assert E (sint outSize = n) msg k"

definition check_text :: "env \<Rightarrow> string \<Rightarrow> string \<Rightarrow> u8 list \<Rightarrow> kernel \<Rightarrow> kernel effect" where
  "check_text E msg s outp k = k_assert E (memcmp (c_str outp) (c_str (lit s)) (length s + 1) = 0) msg k"

definition test_vsnprintf :: "env \<Rightarrow> kernel \<Rightarrow> kernel effect" where
  "test_vsnprintf E k =
     bindE (liftE (test_vsnprintf_fn (replicate 100 0) 100 (lit ''test'') [])) (\<lambda>(outp, outSize).
     bindE (check_size E ''test_vsnprintf_1() ret FAILED'' 4 outSize k) (\<lambda>k.
     bindE (check_text E ''test_vsnprintf_1() FAILED'' ''test'' outp k) (\<lambda>k.
     bindE (liftE (test_vsnprintf_fn (replicate 100 100) 100 (lit ''%d'') [VWord 1])) (\<lambda>(outp, outSize).
     bindE (check_size E ''test_vsnprintf_2() ret FAILED'' 1 outSize k) (\<lambda>k.
     bindE (check_text E ''test_vsnprintf_2() FAILED'' ''1'' outp k) (\<lambda>k.
     bindE (liftE (test_vsnprintf_fn (replicate 100 100) 100 (lit ''%d%d'') [VWord 1, VWord 23])) (\<lambda>(outp, outSize).
     bindE (check_size E ''test_vsnprintf_3() ret FAILED'' 3 outSize k) (\<lambda>k.
     bindE (check_text E ''test_vsnprintf_3() FAILED'' ''123'' outp k) (\<lambda>k.
     bindE (liftE (test_vsnprintf_fn (replicate 100 100) 100 (lit ''test%d%d'') [VWord 1, VWord 23])) (\<lambda>(outp, outSize).
     bindE (check_size E ''test_vsnprintf_4() ret FAILED'' 7 outSize k) (\<lambda>k.
     bindE (check_text E ''test_vsnprintf_4() FAILED'' ''test123'' outp k) (\<lambda>k.
     bindE (liftE (test_vsnprintf_fn (replicate 100 100) 100 (lit ''test%d%d%s%d'')
       [VWord 1, VWord 23, VStr (lit ''anant'' @ [0]), VWord 2000])) (\<lambda>(outp, outSize).
     bindE (check_size E ''test_vsnprintf_5() ret FAILED'' 16 outSize k) (\<lambda>k.
     bindE (check_text E ''test_vsnprintf_5() FAILED'' ''test123anant2000'' outp k) (\<lambda>k.
     bindE (liftE (test_vsnprintf_fn (replicate 100 100) 100 (lit ''anant %d <%s> %d END'')
       [VWord 1, VStr (lit ''str_here'' @ [0]), VWord (-1)])) (\<lambda>(outp, outSize).
       check_text E ''test_vsnprintf_6() FAILED'' ''anant 1 <str_here> -1 END'' outp k))))))))))))))))"

definition run_stdio_tests :: "env \<Rightarrow> u8 list \<Rightarrow> kernel \<Rightarrow> (u8 list \<times> kernel) effect" where
  "run_stdio_tests E msg k =
     (let msg = test_printf msg in
      bindE (test_vsnprintf E k) (\<lambda>k.
      bindE (k_LOG_GREEN E ''stdio/printf.c'' 219 ''Stdio: [OK]'' [] k) (\<lambda>k. Some (Inr (msg, k)))))"

subsection \<open>allocator.c\<close>

definition store_ints :: "mem \<Rightarrow> u32 \<Rightarrow> mem" where
  "store_ints m p = store32 (store32 (store32 (store32 m p 1) (p + 4) 2) (p + 8) 3) (p + 12) 4"

definition test_1 :: "env \<Rightarrow> u32 \<Rightarrow> kernel \<Rightarrow> kernel effect" where
  "test_1 E helloworld k =
     bindE (deep_copy (k_heap k) (freeSegment (k_heap k))) (\<lambda>(before, h).
     bindE (malloc h (4 * 4)) (\<lambda>(allocated_ptr, h).
     let h = h\<lparr>bytes := store_ints (bytes h) allocated_ptr\<rparr> in
     bindE (malloc h (11 * 1)) (\<lambda>(str_array, h).
     let h = h\<lparr>bytes := memset (bytes h) str_array 0 11\<rparr>;
         h = h\<lparr>bytes := memcpy (bytes h) str_array helloworld 11\<rparr> in
     bindE (free h allocated_ptr) (\<lambda>h.
     bindE (free h str_array) (\<lambda>h.
     case FreeSegment_equals (bytes h) before (freeSegment h) of None \<Rightarrow> None
     | Some eq \<Rightarrow>
       bindE (k_assert E eq ''Does not match'' (k\<lparr>k_heap := h\<rparr>)) (\<lambda>k.
       bindE (FreeSegment_delete (k_heap k) before) (\<lambda>h. Some (Inr (k\<lparr>k_heap := h\<rparr>)))))))))"

definition run_allocator_tests :: "env \<Rightarrow> u32 \<Rightarrow> kernel \<Rightarrow> kernel effect" where
  "run_allocator_tests E helloworld k =
     bindE (test_1 E helloworld k) (k_LOG_GREEN E ''kernel/allocator.c'' 204 ''Allocator: [OK]'' [])"

subsection \<open>interrupts.c and spinlock.c\<close>

definition test_basic :: "env \<Rightarrow> kernel \<Rightarrow> kernel effect" where
  "test_basic E k =
     (let args = \<lparr>ga_offset = 0, ga_p = False, ga_dpl = 0, ga_gate = 0, ga_segment_selector = 0\<rparr> in
      bindE (liftE (GateDescriptor_create args)) (\<lambda>descriptor.
        k_assert E (descriptor = 0) ''test_basic of IDT failed'' k))"

definition run_idt_tests :: "env \<Rightarrow> kernel \<Rightarrow> kernel effect" where
  "run_idt_tests E k =
     bindE (test_basic E k) (k_LOG_GREEN E ''kernel/interrupts.c'' 245 ''Interrupt Descriptor Table: [OK]'' [])"

definition test_atomic_set :: "env \<Rightarrow> u32 \<Rightarrow> kernel \<Rightarrow> kernel effect" where
  "test_atomic_set E orig k =
     (let h = k_heap k; m = (bytes h)(orig := 1) in
      bindE (liftE (set_val_atomic m orig 2)) (\<lambda>(ret, m).
        k_assert E (m orig = 2) ''test_atomic_set FAILED'' (k\<lparr>k_heap := h\<lparr>bytes := m\<rparr>\<rparr>)))"

definition run_spinlock_tests :: "env \<Rightarrow> u32 \<Rightarrow> kernel \<Rightarrow> kernel effect" where
  "run_spinlock_tests E orig k =
     bindE (test_atomic_set E orig k) (k_LOG_GREEN E ''kernel/spinlock.c'' 54 ''Spinlock Tests: [OK]'' [])"

subsection \<open>rtc.c\<close>

definition test_rtc_interrupts :: "env \<Rightarrow> (kernel \<Rightarrow> kernel effect) \<Rightarrow> kernel \<Rightarrow> kernel effect" where
  "test_rtc_interrupts E irq k =
     (let (prev_tick, k) = get_tick k in
      bindE (sleep irq 4 k) (\<lambda>k.
      let (now_tick, k) = get_tick k; delta = 0 in
      k_assert E ((now_tick - prev_tick) div 256 \<le> 4 + delta) ''sleep test failed'' k))"

definition run_rtc_tests :: "env \<Rightarrow> (kernel \<Rightarrow> kernel effect) \<Rightarrow> kernel \<Rightarrow> kernel effect" where
  "run_rtc_tests E irq k =
     bindE (test_rtc_interrupts E irq k) (k_LOG_GREEN E ''kernel/io/rtc.c'' 152 ''RTC: [OK]'' [])"

subsection \<open>pci.c\<close>

definition mac_bytes :: "u32 \<Rightarrow> u32 \<Rightarrow> u8 list" where
  "mac_bytes mac_first mac_sec =
     [ucast (mac_first AND 0xFF), ucast (drop_bit 8 mac_first AND 0xFF), ucast (drop_bit 16 mac_first AND 0xFF),
      ucast (drop_bit 24 mac_first AND 0xFF), ucast (mac_sec AND 0xFF), ucast (drop_bit 8 mac_sec AND 0xFF)]"

fun check_macs :: "env \<Rightarrow> (u8 \<times> u8) list \<Rightarrow> kernel \<Rightarrow> kernel effect" where
  "check_macs E [] k = Some (Inr k)"
| "check_macs E ((a, b) # ms) k =
     bindE (k_assert E (a = b) ''mac address mismatch between io and memory retried'' k) (check_macs E ms)"

definition test_rtl_driver :: "env \<Rightarrow> kernel \<Rightarrow> kernel effect" where
  "test_rtl_driver E k =
     bindE (find_pci_address E 0x10EC 0x8139 k) (\<lambda>(pci, k).
     bindE (find_io_base E pci k) (\<lambda>(base_addr, k).
     let (mac_first, k) = k_inl E (ucast base_addr) k;
         (mac_sec, k) = k_inl E (ucast (base_addr + 4)) k;
         mac_1 = mac_bytes mac_first mac_sec in
     bindE (find_mmap_base E pci k) (\<lambda>(memory_addr, k).
     let mac = map (\<lambda>i. bytes (k_heap k) (memory_addr + of_nat i)) [0..<6] in
     check_macs E (zip mac_1 mac) k)))"

definition run_pci_tests :: "env \<Rightarrow> kernel \<Rightarrow> kernel effect" where
  "run_pci_tests E k = bindE (test_rtl_driver E k) (k_LOG_GREEN E ''kernel/pci.c'' 112 ''PCI: [OK]'' [])"

subsection \<open>kernel.c\<close>

definition run_tests :: "env \<Rightarrow> (kernel \<Rightarrow> kernel effect) \<Rightarrow> u8 list \<Rightarrow> u8 list \<Rightarrow> u32 \<Rightarrow> u32 \<Rightarrow> kernel \<Rightarrow> kernel effect" where
  "run_tests E irq test_arr msg helloworld orig k =
     bindE (k_LOG_GREEN E ''kernel/kernel.c'' 75 ''Starting tests'' [] k) (\<lambda>k.
     bindE (run_utils_tests E test_arr k) (\<lambda>k.
     bindE (run_stdio_tests E msg k) (\<lambda>(_, k).
     bindE (run_allocator_tests E helloworld k) (\<lambda>k.
     bindE (run_idt_tests E k) (\<lambda>k.
     bindE (on_log (dump_buffer (devs E) (stack E)) k) (\<lambda>k.
     bindE (run_spinlock_tests E orig k) (\<lambda>k.
     bindE (on_log (dump_buffer (devs E) (stack E)) k) (\<lambda>k.
     bindE (run_rtc_tests E irq k) (\<lambda>k.
     bindE (run_pci_tests E k) (\<lambda>k.
     bindE (on_log (dump_buffer (devs E) (stack E)) k) (\<lambda>k.
       Some (Inr (upd_trace (exit_debug 0) k)))))))))))))"

text \<open>
  The kernel of a TEST build: the tests run between the services and the probe, and the kernel calls
  \<open>exit_\<close> after each. Whether such a call comes back is up to the machine: \<open>qemu.sh\<close> attaches a device
  at the exit port that ends the machine at the first write to it, unless it is asked for a debugger,
  and then nothing is attached and the kernel runs on. \<open>attached\<close> says which machine it is, and the
  outcome whether the machine has ended or the kernel runs on in its final loop.
\<close>

datatype build_outcome = Machine_ended kernel | Final_loop kernel

definition services_test :: "bool \<Rightarrow> env \<Rightarrow> (kernel \<Rightarrow> kernel effect) \<Rightarrow> u8 list \<Rightarrow> u8 list \<Rightarrow> u32 \<Rightarrow> u32 \<Rightarrow>
    u32 \<Rightarrow> DateTime \<Rightarrow> u32 \<Rightarrow> kernel \<Rightarrow> build_outcome effect" where
  "services_test attached E irq test_arr msg helloworld orig kernel_end junk mbd k =
     bindE (boot_services E kernel_end junk mbd k) (\<lambda>k.
     bindE (run_tests E irq test_arr msg helloworld orig k) (\<lambda>k.
     if attached then Some (Inr (Machine_ended k))
     else bindE (probe_network_card E k) (\<lambda>k.
       Some (Inr (Final_loop (upd_trace (exit_debug 0) k))))))"

definition kernel_main_test :: "bool \<Rightarrow> env \<Rightarrow> (kernel \<Rightarrow> kernel effect) \<Rightarrow> u8 list \<Rightarrow> u8 list \<Rightarrow> u32 \<Rightarrow> u32 \<Rightarrow>
    u32 \<Rightarrow> AccessByte \<Rightarrow> AccessByte \<Rightarrow> DateTime \<Rightarrow> u32 \<Rightarrow> kernel \<Rightarrow> build_outcome effect" where
  "kernel_main_test attached E irq test_arr msg helloworld orig kernel_end j1 j2 junk mbd k =
     bindE (boot_tables E j1 j2 k) (services_test attached E irq test_arr msg helloworld orig kernel_end junk mbd)"

subsection \<open>gdt.c\<close>

definition test_basic_parsing :: "env \<Rightarrow> kernel \<Rightarrow> kernel effect" where
  "test_basic_parsing E k =
     (let TEST_SEGMENT = 0x120D00345678BEEF in
      bindE (liftE (gdt_parse_limit TEST_SEGMENT)) (\<lambda>lim.
      bindE (k_assert E (lim = 0xDBEEF) ''Test failed'' k) (\<lambda>k.
        k_assert E (gdt_parse_base TEST_SEGMENT = 0x12345678) ''Test failed'' k)))"

definition test_create_descriptor :: "env \<Rightarrow> kernel \<Rightarrow> kernel effect" where
  "test_create_descriptor E k =
     (let ret = create_descriptor 0 0 0 in
      bindE (k_assert E (ret = 0) ''Failed test 1'' k) (\<lambda>k.
      let ret = create_descriptor 0 0xFFFFF GDT_CODE_PL0 in
      bindE (k_LOG E ''kernel/gdt.c'' 264 ''Expected: %x, Got: %x'' (va64 0x00CF9A000000FFFF @ va64 ret) k) (\<lambda>k.
      bindE (k_assert E (ret = 0x00CF9A000000FFFF) ''Failed test 2'' k) (\<lambda>k.
      let ret = create_descriptor 0 0xFFFFF GDT_DATA_PL0 in
      bindE (k_assert E (ret = 0x00CF92000000FFFF) ''Failed test 3'' k) (\<lambda>k.
      let ret = create_descriptor 0 0xFFFFF GDT_CODE_PL3 in
      bindE (k_assert E (ret = 0x00CFFA000000FFFF) ''Failed test 3'' k) (\<lambda>k.
      let ret = create_descriptor 0 0xFFFFF GDT_DATA_PL3 in
        k_assert E (ret = 0x00CFF2000000FFFF) ''Failed test 4'' k))))))"

definition test_insert_base :: "env \<Rightarrow> kernel \<Rightarrow> kernel effect" where
  "test_insert_base E k = k_assert E (insert_base 0 = 0) ''test_insert_base failed'' k"

definition test_insert_limit :: "env \<Rightarrow> kernel \<Rightarrow> kernel effect" where
  "test_insert_limit E k = bindE (liftE (insert_limit 0xFFFFF)) (\<lambda>ret.
     k_assert E (ret = 0x000F00000000FFFF) ''test_insert_limit FAILED'' k)"

definition test_get_binary_from_access_byte :: "env \<Rightarrow> AccessByte \<Rightarrow> kernel \<Rightarrow> kernel effect" where
  "test_get_binary_from_access_byte E junk k =
     bindE (liftE (set_access_byte 1 0 1 1 0 1 0 junk)) (\<lambda>code_access_byte.
       k_assert E (get_binary_from_access_byte code_access_byte = 0x9A) ''test_get_binary_from_access_byte FAILED'' k)"

definition run_gdt_tests :: "env \<Rightarrow> AccessByte \<Rightarrow> kernel \<Rightarrow> kernel effect" where
  "run_gdt_tests E junk k =
     bindE (test_basic_parsing E k) (\<lambda>k.
     bindE (test_create_descriptor E k) (\<lambda>k.
     bindE (test_insert_base E k) (\<lambda>k.
     bindE (test_insert_limit E k) (\<lambda>k.
     bindE (test_get_binary_from_access_byte E junk k) (\<lambda>k.
       k_LOG E ''kernel/gdt.c'' 310 ''Global Descriptor Table: [OK]'' [] k)))))"

end
