(* ===== verification/Self_Test_Steps.thy ===== *)
theory Self_Test_Steps
  imports Self_Tests
begin

text \<open>
  The self tests one by one: each passes from a state in which what it uses is in place, and changes
  no more than the heap's bytes, the clock or the log, with the line it adds to the account of the log.
\<close>

unbundle bit_operations_syntax

subsection \<open>Texts in buffers\<close>

lemma c_str_text: "i \<le> length xs \<Longrightarrow> c_str (xs @ 0 # r) i = c_str xs i"
  by (auto simp: c_str_def nth_append)

lemma length_lit [simp]: "length (lit s) = length s"
  by (simp add: lit_def)

text \<open>The line at the end of a test.\<close>

lemma ok_line:
  assumes "env_ok E" "reported k T" "render (lit fmt) [] = Some (lit fmt)" "0 \<notin> set (lit fmt)" "length fmt < 100"
    and "line \<noteq> 0x80000000" "length (colored_prefix_text GREEN (lit ''INFO'') (lit file) line) < 100"
  shows "\<exists>l. k_LOG_GREEN E file line fmt [] k = Some (Inr (k\<lparr>k_log := l\<rparr>))
    \<and> reported (k\<lparr>k_log := l\<rparr>) (T @ green_line file line (lit fmt))"
  using k_LOG_GREEN_reports [OF assms(1,2,4,3,4) _ assms(6,7)] assms(5) by simp

lemma ok_texts:
  "render (lit ''Starting tests'') [] = Some (lit ''Starting tests'')"
  "render (lit ''Utils: [OK]'') [] = Some (lit ''Utils: [OK]'')"
  "render (lit ''Stdio: [OK]'') [] = Some (lit ''Stdio: [OK]'')"
  "render (lit ''Allocator: [OK]'') [] = Some (lit ''Allocator: [OK]'')"
  "render (lit ''Interrupt Descriptor Table: [OK]'') [] = Some (lit ''Interrupt Descriptor Table: [OK]'')"
  "render (lit ''Spinlock Tests: [OK]'') [] = Some (lit ''Spinlock Tests: [OK]'')"
  "render (lit ''RTC: [OK]'') [] = Some (lit ''RTC: [OK]'')"
  "render (lit ''PCI: [OK]'') [] = Some (lit ''PCI: [OK]'')"
  by code_simp+

lemma ok_prefixes:
  "length (colored_prefix_text GREEN (lit ''INFO'') (lit ''kernel/kernel.c'') 75) < 100"
  "length (colored_prefix_text GREEN (lit ''INFO'') (lit ''kernel/utils.c'') 125) < 100"
  "length (colored_prefix_text GREEN (lit ''INFO'') (lit ''stdio/printf.c'') 219) < 100"
  "length (colored_prefix_text GREEN (lit ''INFO'') (lit ''kernel/allocator.c'') 204) < 100"
  "length (colored_prefix_text GREEN (lit ''INFO'') (lit ''kernel/interrupts.c'') 245) < 100"
  "length (colored_prefix_text GREEN (lit ''INFO'') (lit ''kernel/spinlock.c'') 54) < 100"
  "length (colored_prefix_text GREEN (lit ''INFO'') (lit ''kernel/io/rtc.c'') 152) < 100"
  "length (colored_prefix_text GREEN (lit ''INFO'') (lit ''kernel/pci.c'') 112) < 100"
  by code_simp+

subsection \<open>utils.c\<close>

lemma test_reverse_passes: "test_reverse E arr k = Some (Inr (arr, k))"
proof -
  have r: "reverse (lit ''123'' @ 0 # replicate 96 0) 3 = Inr (lit ''321'' @ 0 # replicate 96 0)"
    using reverse_spec [of 3 "lit ''123'' @ 0 # replicate 96 0"] by (simp add: lit_def)
  have m: "memcmp (c_str (lit ''321'' @ 0 # replicate 96 0)) (c_str (lit ''321'' @ [0])) 4 = 0"
    by (simp add: memcmp_zero_iff c_str_text)
  have d: "lit ''123'' @ [0] @ drop 4 (replicate 100 0) = lit ''123'' @ 0 # replicate 96 0" by simp
  show ?thesis
    by (simp add: test_reverse_def liftE_def d [simplified] r m k_assert_def)
qed

lemma to_str_call:
  assumes "length arr = 100" "0 \<in> set arr" "decimal v = lit s" "length s < 90" "- (2 ^ 31) < v"
  shows "\<exists>r. to_str arr v = Inr (lit s @ 0 # r) \<and> length (lit s @ 0 # r) = 100"
  using to_str_spec [OF assms(2,5)] assms(1,3,4) by auto

lemma test_to_str_passes:
  assumes "length arr = 100" "0 \<in> set arr"
  shows "\<exists>arr'. test_to_str E arr k = Some (Inr (arr', k))"
proof -
  have d: "decimal 123 = lit ''123''" "decimal 2 = lit ''2''" "decimal (-1) = lit ''-1''" "decimal (-134) = lit ''-134''"
    by code_simp+
  obtain r1 where 1: "to_str arr 123 = Inr (lit ''123'' @ 0 # r1)" "length (lit ''123'' @ 0 # r1) = 100"
    using to_str_call [OF assms d(1)] by auto
  obtain r2 where 2: "to_str (lit ''123'' @ 0 # r1) 2 = Inr (lit ''2'' @ 0 # r2)" "length (lit ''2'' @ 0 # r2) = 100"
    using to_str_call [OF 1(2) _ d(2)] by auto
  obtain r3 where 3: "to_str (lit ''2'' @ 0 # r2) (-1) = Inr (lit ''-1'' @ 0 # r3)" "length (lit ''-1'' @ 0 # r3) = 100"
    using to_str_call [OF 2(2) _ d(3)] by auto
  obtain r4 where 4: "to_str (lit ''-1'' @ 0 # r3) (-134) = Inr (lit ''-134'' @ 0 # r4)"
    using to_str_call [OF 3(2) _ d(4)] by auto
  have ne: "memcmp (c_str (lit ''1'')) (c_str (lit ''2'' @ 0 # r2)) 2 \<noteq> 0"
    unfolding memcmp_zero_iff by (auto simp: c_str_def lit_def intro!: exI [of _ 0])
  have eq: "memcmp (c_str (lit ''123'')) (c_str (lit ''123'' @ 0 # r1)) 4 = 0"
    "memcmp (c_str (lit ''-1'')) (c_str (lit ''-1'' @ 0 # r3)) 3 = 0"
    "memcmp (c_str (lit ''-134'')) (c_str (lit ''-134'' @ 0 # r4)) 5 = 0"
    by (simp_all add: memcmp_zero_iff c_str_text)
  show ?thesis
    unfolding test_to_str_def using 1(1) 2(1) 3(1) 4 ne eq by (simp add: liftE_def k_assert_def)
qed

lemma run_utils_tests_pass:
  assumes "env_ok E" "reported k T" "length arr = 100" "0 \<in> set arr"
  shows "\<exists>l. run_utils_tests E arr k = Some (Inr (k\<lparr>k_log := l\<rparr>))
    \<and> reported (k\<lparr>k_log := l\<rparr>) (T @ green_line ''kernel/utils.c'' 125 (lit ''Utils: [OK]''))"
proof -
  obtain arr' where "test_to_str E arr k = Some (Inr (arr', k))" using test_to_str_passes [OF assms(3,4)] by blast
  moreover note ok_line [OF assms(1,2) ok_texts(2) _ _ _ ok_prefixes(2)]
  ultimately show ?thesis by (simp add: run_utils_tests_def test_reverse_passes lit_def)
qed

subsection \<open>printf.c\<close>

lemma vsnprintf_call:
  assumes "render (lit fmt) args = Some (lit s)" "0 \<notin> set (lit fmt)" "length s < 100"
  shows "\<exists>outp. test_vsnprintf_fn (replicate 100 b) 100 (lit fmt) args = Inr (outp, of_nat (length s))
    \<and> (\<forall>m k. check_text E m s outp k = Some (Inr k))"
proof -
  have "test_vsnprintf_fn (replicate 100 b) 100 (lit fmt) args = Inr (lit s @ 0 # replicate (99 - length s) b, of_nat (length s))"
    using vsnprintf_spec(1) [OF assms(2) _ assms(1), of 100 "replicate 100 b"] assms(3)
    by (simp add: test_vsnprintf_fn_def printed_def min_def)
  moreover have "memcmp (c_str (lit s @ 0 # replicate (99 - length s) b)) (c_str (lit s)) (length s + 1) = 0"
    by (simp add: memcmp_zero_iff c_str_text)
  ultimately show ?thesis by (simp add: check_text_def k_assert_def)
qed

lemma test_renders:
  "render (lit ''test'') [] = Some (lit ''test'')"
  "render (lit ''%d'') [VWord 1] = Some (lit ''1'')"
  "render (lit ''%d%d'') [VWord 1, VWord 23] = Some (lit ''123'')"
  "render (lit ''test%d%d'') [VWord 1, VWord 23] = Some (lit ''test123'')"
  "render (lit ''test%d%d%s%d'') [VWord 1, VWord 23, VStr (lit ''anant'' @ [0]), VWord 2000] = Some (lit ''test123anant2000'')"
  "render (lit ''anant %d <%s> %d END'') [VWord 1, VStr (lit ''str_here'' @ [0]), VWord (-1)] = Some (lit ''anant 1 <str_here> -1 END'')"
  by code_simp+

lemma test_formats:
  "0 \<notin> set (lit ''test'')" "0 \<notin> set (lit ''%d'')" "0 \<notin> set (lit ''%d%d'')" "0 \<notin> set (lit ''test%d%d'')"
  "0 \<notin> set (lit ''test%d%d%s%d'')" "0 \<notin> set (lit ''anant %d <%s> %d END'')"
  by code_simp+

lemma test_vsnprintf_passes: "test_vsnprintf E k = Some (Inr k)"
  using vsnprintf_call [OF test_renders(1) test_formats(1), of 0 E] vsnprintf_call [OF test_renders(2) test_formats(2), of 100 E]
    vsnprintf_call [OF test_renders(3) test_formats(3), of 100 E] vsnprintf_call [OF test_renders(4) test_formats(4), of 100 E]
    vsnprintf_call [OF test_renders(5) test_formats(5), of 100 E] vsnprintf_call [OF test_renders(6) test_formats(6), of 100 E]
  by (auto simp: test_vsnprintf_def check_size_def k_assert_def liftE_def)

lemma run_stdio_tests_pass:
  assumes "env_ok E" "reported k T"
  shows "\<exists>l. run_stdio_tests E msg k = Some (Inr (replicate 100 0, k\<lparr>k_log := l\<rparr>))
    \<and> reported (k\<lparr>k_log := l\<rparr>) (T @ green_line ''stdio/printf.c'' 219 (lit ''Stdio: [OK]''))"
  using ok_line [OF assms ok_texts(3) _ _ _ ok_prefixes(3)]
  by (auto simp: run_stdio_tests_def test_printf_def test_vsnprintf_passes lit_def)

subsection \<open>allocator.c\<close>

lemma store_ints_outside:
  assumes "unat p + 16 \<le> 2 ^ 32" "unat x < unat p \<or> unat p + 16 \<le> unat x"
  shows "store_ints m p x = m x"
proof -
  have u: "unat (p + of_nat i) = unat p + i" if "i < 16" for i
    using that assms(1) by (simp add: unat_word_ariths unat_of_nat take_bit_eq_mod)
  show ?thesis
    unfolding store_ints_def using assms u [of 4] u [of 8] u [of 12] by (subst store32_other; auto)+
qed

text \<open>The steps of the test on the heap, between its two looks at the list.\<close>

lemma test_1_steps:
  assumes inv: "heap_inv hi h" and a: "16 \<le> unat (freeSegment h)"
    and blocks: "heap_blocks hi h = Free n # Used k # us" "all_used us" "57 \<le> n"
  shows "\<exists>p q h1 h2 h3 h4. malloc h 16 = Some (Inr (p, h1))
    \<and> malloc (h1\<lparr>bytes := store_ints (bytes h1) p\<rparr>) 11 = Some (Inr (q, h2))
    \<and> free (h2\<lparr>bytes := memcpy (memset (bytes h2) q 0 11) q s 11\<rparr>) p = Some (Inr h3)
    \<and> free h3 q = Some (Inr h4) \<and> heap_inv hi h4 \<and> heap_blocks hi h4 = heap_blocks hi h
    \<and> same_outside hi h h4 \<and> block_kept (unat (freeSegment h) + 8 + n + 8) k h h4"
proof -
  let ?a = "unat (freeSegment h)" and ?fill = "\<lambda>m q. memcpy (memset m q 0 11) q s 11"
  define b where "b = ?a + 8 + n + 8"
  have sz: "unat (16 :: u32) + 15 \<le> n" "unat (16 :: u32) \<le> ?a" using a blocks(3) by simp_all
  obtain p h1 n2 k2 where h1: "malloc h 16 = Some (Inr (p, h1))" and
    g1: "heap_inv hi (h1\<lparr>bytes := store_ints (bytes h1) p\<rparr>)"
      "heap_blocks hi (h1\<lparr>bytes := store_ints (bytes h1) p\<rparr>) = Free n2 # Used k2 # Used k # us"
      "n2 + 8 + k2 = n" "k2 < 24" "unat p = ?a + 8 + n2 + 8" "same_outside hi h (h1\<lparr>bytes := store_ints (bytes h1) p\<rparr>)"
      "\<forall>(q, l) \<in> set (heap_live hi h). block_kept q l h (h1\<lparr>bytes := store_ints (bytes h1) p\<rparr>)"
    using client_alloc_write [OF inv blocks(1) sz, of store_ints] store_ints_outside by auto
  define g1 where "g1 = h1\<lparr>bytes := store_ints (bytes h1) p\<rparr>"
  note g1 = g1 [folded g1_def]
  have f1: "freeSegment g1 = freeSegment h" using g1(6) by (simp add: same_outside_def)
  have sz2: "unat (11 :: u32) + 15 \<le> n2" "unat (11 :: u32) \<le> unat (freeSegment g1)"
    using a blocks(3) g1(3,4) by (simp_all add: f1)
  have fill: "?fill m q x = m x" if "unat q + 11 \<le> 2 ^ 32" "unat x < unat q \<or> unat q + 11 \<le> unat x" for m q x
    using that by (subst memcpy_outside memset_outside; simp)+
  obtain q h2 n3 k3 where h2: "malloc g1 11 = Some (Inr (q, h2))" and
    g2: "heap_inv hi (h2\<lparr>bytes := ?fill (bytes h2) q\<rparr>)"
      "heap_blocks hi (h2\<lparr>bytes := ?fill (bytes h2) q\<rparr>) = Free n3 # Used k3 # Used k2 # Used k # us"
      "n3 + 8 + k3 = n2" "unat q = ?a + 8 + n3 + 8" "same_outside hi g1 (h2\<lparr>bytes := ?fill (bytes h2) q\<rparr>)"
      "\<forall>(q', l) \<in> set (heap_live hi g1). block_kept q' l g1 (h2\<lparr>bytes := ?fill (bytes h2) q\<rparr>)"
    using client_alloc_write [OF g1(1,2) sz2, of ?fill] fill f1 by auto
  define g2 where "g2 = h2\<lparr>bytes := ?fill (bytes h2) q\<rparr>"
  note g2 = g2 [folded g2_def]
  have f2: "freeSegment g2 = freeSegment h" using g2(5) by (simp add: same_outside_def f1)
  have m: "join (Free m) us = Free m # us" "join (Used m) us = Used m # us" "coalesce us = us" for m
    using join_used [OF _ blocks(2), of "Free m" "[]"] join_used [OF _ blocks(2), of "Used m" "[]"]
      coalesce_used [OF blocks(2), of "[]"] by (cases us; auto)+
  have B2: "heap_blocks hi g2 = [Free n3, Used k3] @ Used k2 # Used k # us" using g2(2) by simp
  have p2: "unat p = unat (freeSegment g2) + extent [Free n3, Used k3] + 8" using g1(5) g2(3) by (simp add: f2)
  obtain h3 where h3: "free g2 p = Some (Inr h3)" "heap_inv hi h3"
      "heap_blocks hi h3 = [Free n3] @ Used k3 # Free k2 # Used k # us" "same_outside hi g2 h3"
      "\<forall>(q, l) \<in> set (heap_live hi g2). q \<noteq> unat p \<longrightarrow> block_kept q l g2 h3"
    using client_free [OF g2(1) B2 p2] by (auto simp: m)
  have f3: "freeSegment h3 = freeSegment h" using h3(4) by (simp add: same_outside_def f2)
  have p3: "unat q = unat (freeSegment h3) + extent [Free n3] + 8" using g2(4) by (simp add: f3)
  obtain h4 where h4: "free h3 q = Some (Inr h4)" "heap_inv hi h4" "heap_blocks hi h4 = Free n # Used k # us"
      "same_outside hi h3 h4" "\<forall>(q', l) \<in> set (heap_live hi h3). q' \<noteq> unat q \<longrightarrow> block_kept q' l h3 h4"
    using client_free [OF h3(2,3) p3] g1(3) g2(3) by (auto simp: m algebra_simps)
  have member: "(b, k) \<in> set (heap_live hi g)"
    if "heap_blocks hi g = xs @ Used k # us" "freeSegment g = freeSegment h" "extent xs = n + 8" for g xs
    using live_member [OF that(1,2)] that(3) by (simp add: b_def ac_simps)
  have live: "(b, k) \<in> set (heap_live hi h)" "(b, k) \<in> set (heap_live hi g1)" "(b, k) \<in> set (heap_live hi g2)"
      "(b, k) \<in> set (heap_live hi h3)"
    using member [of h "[Free n]"] member [of g1 "[Free n2, Used k2]"] member [of g2 "[Free n3, Used k3, Used k2]"]
      member [of h3 "[Free n3, Used k3, Free k2]"] blocks(1) f1 f2 f3 g1(2,3) g2(2,3) h3(3)
    by simp_all
  have "b \<noteq> unat p" "b \<noteq> unat q" using g1(3,5) g2(3,4) by (simp_all add: b_def)
  then have "block_kept b k h h4"
    using bspec [OF g1(7) live(1)] bspec [OF g2(6) live(2)] bspec [OF h3(5) live(3)] bspec [OF h4(5) live(4)]
    by (simp add: block_kept_def)
  moreover have "same_outside hi h h4" using g1(6) g2(5) h3(4) h4(4) by (blast intro: same_outside_trans)
  ultimately show ?thesis
    using h1 h2 h3(1) h4(1-3) blocks(1) unfolding g1_def g2_def b_def
    by (intro exI [of _ p] exI [of _ q] exI [of _ h1] exI [of _ h2] exI [of _ h3] exI [of _ h4]) simp
qed

lemma test_1_passes:
  assumes inv: "heap_inv hi (k_heap k)" and a: "16 \<le> unat (freeSegment (k_heap k))"
    and blocks: "heap_blocks hi (k_heap k) = Free n # us" "all_used us" "80 \<le> n"
  shows "\<exists>h. test_1 E s k = Some (Inr (k\<lparr>k_heap := h\<rparr>)) \<and> heap_inv hi h \<and> heap_blocks hi h = Free n # us
    \<and> same_outside hi (k_heap k) h"
proof -
  let ?a = "unat (freeSegment (k_heap k))"
  have a8: "8 \<le> ?a" and n: "23 \<le> n" using a blocks(3) by simp_all
  obtain p h1 n1 k1 where c: "deep_copy (k_heap k) (freeSegment (k_heap k)) = Some (Inr (p, h1))" "heap_inv hi h1"
      "heap_blocks hi h1 = Free n1 # Used k1 # us" "n1 + 8 + k1 = n" "8 \<le> k1" "k1 < 16" "unat p = ?a + 8 + n1 + 8"
      "seg_list (bytes h1) p [of_nat n1]" "same_outside hi (k_heap k) h1"
    using deep_copy_state [OF inv a8 blocks(1,2) n] by blast
  have f1: "freeSegment h1 = freeSegment (k_heap k)" using c(9) by (simp add: same_outside_def)
  have a1: "16 \<le> unat (freeSegment h1)" and n1: "57 \<le> n1" using a c(4,6) blocks(3) by (simp_all add: f1)
  obtain q r g1 g2 g3 h2 where t: "malloc h1 16 = Some (Inr (q, g1))"
      "malloc (g1\<lparr>bytes := store_ints (bytes g1) q\<rparr>) 11 = Some (Inr (r, g2))"
      "free (g2\<lparr>bytes := memcpy (memset (bytes g2) r 0 11) r s 11\<rparr>) q = Some (Inr g3)"
      "free g3 r = Some (Inr h2)" "heap_inv hi h2" "heap_blocks hi h2 = heap_blocks hi h1"
      "same_outside hi h1 h2" "block_kept (unat p) k1 h1 h2"
    using test_1_steps [OF c(2) a1 c(3) blocks(2) n1, of s] unfolding f1 c(7) [symmetric] by blast
  have f2: "freeSegment h2 = freeSegment (k_heap k)" using t(7) by (simp add: same_outside_def f1)
  have B2: "heap_blocks hi h2 = Free n1 # Used k1 # us" by (simp add: t(6) c(3))
  have "unat p + 8 \<le> 2 ^ 32" using heap_inv_extent [OF c(2)] c(3,5,7) f1 by simp
  then have "seg_size (bytes h2) p = seg_size (bytes h1) p" "seg_next (bytes h2) p = seg_next (bytes h1) p"
    using t(8) c(5) by (auto simp: block_kept_def intro!: hdr_cong)
  then have copy: "seg_list (bytes h2) p [of_nat n1]" using c(8) by simp
  have "seg_list (bytes h2) (freeSegment h2) [of_nat n1]"
    using blocks(2) by (intro free_list_of_first [OF t(5) B2]) simp
  from FreeSegment_equals_spec [OF copy this]
  have eq: "FreeSegment_equals (bytes h2) p (freeSegment h2) = Some True" by simp
  obtain h3 where h3: "FreeSegment_delete h2 p = Some (Inr h3)" "heap_inv hi h3" "heap_blocks hi h3 = Free n # us"
      "same_outside hi h2 h3"
    using delete_copy [OF t(5) B2 blocks(2) _ copy] c(4,7) f2 by auto
  have "test_1 E s k = Some (Inr (k\<lparr>k_heap := h3\<rparr>))"
    using c(1) t(1-4) eq h3(1) by (simp add: test_1_def k_assert_def)
  then show ?thesis using h3(2-4) c(9) t(7) by (blast intro: same_outside_trans)
qed

lemma run_allocator_tests_pass:
  assumes "env_ok E" "reported k T"
    and "heap_inv hi (k_heap k)" "16 \<le> unat (freeSegment (k_heap k))"
    and "heap_blocks hi (k_heap k) = Free n # us" "all_used us" "80 \<le> n"
  shows "\<exists>h l. run_allocator_tests E s k = Some (Inr (k\<lparr>k_heap := h, k_log := l\<rparr>))
    \<and> heap_inv hi h \<and> heap_blocks hi h = Free n # us \<and> same_outside hi (k_heap k) h
    \<and> reported (k\<lparr>k_heap := h, k_log := l\<rparr>) (T @ green_line ''kernel/allocator.c'' 204 (lit ''Allocator: [OK]''))"
proof -
  obtain h where h: "test_1 E s k = Some (Inr (k\<lparr>k_heap := h\<rparr>))" "heap_inv hi h" "heap_blocks hi h = Free n # us"
      "same_outside hi (k_heap k) h"
    using test_1_passes [OF assms(3-7)] by blast
  have "reported (k\<lparr>k_heap := h\<rparr>) T" using assms(2) by (simp add: reported_def k_trace_def)
  from ok_line [OF assms(1) this ok_texts(4) _ _ _ ok_prefixes(4)] obtain l where
    "k_LOG_GREEN E ''kernel/allocator.c'' 204 ''Allocator: [OK]'' [] (k\<lparr>k_heap := h\<rparr>) = Some (Inr (k\<lparr>k_heap := h, k_log := l\<rparr>))"
    "reported (k\<lparr>k_heap := h, k_log := l\<rparr>) (T @ green_line ''kernel/allocator.c'' 204 (lit ''Allocator: [OK]''))"
    by (auto simp: lit_def)
  with h show ?thesis by (auto simp: run_allocator_tests_def)
qed

subsection \<open>interrupts.c and spinlock.c\<close>

lemma test_basic_passes: "test_basic E k = Some (Inr k)"
  by (simp add: test_basic_def GateDescriptor_create_def generate_gd_entry_def liftE_def k_assert_def)

lemma run_idt_tests_pass:
  assumes "env_ok E" "reported k T"
  shows "\<exists>l. run_idt_tests E k = Some (Inr (k\<lparr>k_log := l\<rparr>))
    \<and> reported (k\<lparr>k_log := l\<rparr>) (T @ green_line ''kernel/interrupts.c'' 245 (lit ''Interrupt Descriptor Table: [OK]''))"
  using ok_line [OF assms ok_texts(5) _ _ _ ok_prefixes(5)]
  by (simp add: run_idt_tests_def test_basic_passes lit_def)

lemma same_outside_inv:
  assumes "heap_inv hi h" "\<And>x. unat (freeSegment h) \<le> unat x \<Longrightarrow> unat x < hi \<Longrightarrow> m x = bytes h x"
  shows "heap_inv hi (h\<lparr>bytes := m\<rparr>)" "heap_blocks hi (h\<lparr>bytes := m\<rparr>) = heap_blocks hi h"
proof -
  define bs where "bs = heap_blocks hi h"
  have r: "heap_rel hi bs h" using assms(1) by (simp add: heap_inv_def bs_def)
  then have l: "layout (bytes h) (unat (freeSegment h)) bs" "unat (freeSegment h) + extent bs = hi" "hi < 2 ^ 32"
    unfolding heap_rel_def by blast+
  have "layout m (unat (freeSegment h)) bs"
  proof (rule layout_frame [OF l(1)])
    show "unat (freeSegment h) + extent bs \<le> 2 ^ 32" using l(2,3) by linarith
    show "m x = bytes h x" if "unat (freeSegment h) \<le> unat x" "unat x < unat (freeSegment h) + extent bs" for x
      using assms(2) that unfolding l(2) by blast
  qed
  then have r': "heap_rel hi (heap_blocks hi h) (h\<lparr>bytes := m\<rparr>)"
    using r unfolding heap_rel_def bs_def [symmetric] by simp
  show "heap_inv hi (h\<lparr>bytes := m\<rparr>)" "heap_blocks hi (h\<lparr>bytes := m\<rparr>) = heap_blocks hi h"
    by (rule heap_rel_inv [OF r'], rule heap_rel_blocks [OF r'])
qed

lemma test_atomic_set_passes:
  "test_atomic_set E orig k = Some (Inr (k\<lparr>k_heap := (k_heap k)\<lparr>bytes := store32 (bytes (k_heap k)) orig 2\<rparr>\<rparr>))"
proof -
  have b: "store32 m orig 2 orig = 2" "store32 (m(orig := 1)) orig 2 = store32 m orig 2" for m by (simp_all add: store32_def)
  show ?thesis
    by (simp add: test_atomic_set_def set_val_atomic_def Let_def b liftE_def k_assert_def)
qed
lemma run_spinlock_tests_pass:
  assumes "env_ok E" "reported k T"
    and "heap_inv hi (k_heap k)" "unat orig + 4 \<le> 2 ^ 32" "unat orig + 4 \<le> unat (freeSegment (k_heap k)) \<or> hi \<le> unat orig"
  shows "\<exists>h l. run_spinlock_tests E orig k = Some (Inr (k\<lparr>k_heap := h, k_log := l\<rparr>))
    \<and> heap_inv hi h \<and> heap_blocks hi h = heap_blocks hi (k_heap k)
    \<and> h = (k_heap k)\<lparr>bytes := store32 (bytes (k_heap k)) orig 2\<rparr>
    \<and> reported (k\<lparr>k_heap := h, k_log := l\<rparr>) (T @ green_line ''kernel/spinlock.c'' 54 (lit ''Spinlock Tests: [OK]''))"
proof -
  define h where "h = (k_heap k)\<lparr>bytes := store32 (bytes (k_heap k)) orig 2\<rparr>"
  have "store32 (bytes (k_heap k)) orig 2 x = bytes (k_heap k) x" if "unat (freeSegment (k_heap k)) \<le> unat x" "unat x < hi" for x
    using that assms(5) by (intro store32_other [OF assms(4)]) auto
  note inv = same_outside_inv [OF assms(3) this, folded h_def]
  have "reported (k\<lparr>k_heap := h\<rparr>) T" using assms(2) by (simp add: reported_def k_trace_def)
  from ok_line [OF assms(1) this ok_texts(6) _ _ _ ok_prefixes(6)] obtain l where
    "k_LOG_GREEN E ''kernel/spinlock.c'' 54 ''Spinlock Tests: [OK]'' [] (k\<lparr>k_heap := h\<rparr>) = Some (Inr (k\<lparr>k_heap := h, k_log := l\<rparr>))"
    "reported (k\<lparr>k_heap := h, k_log := l\<rparr>) (T @ green_line ''kernel/spinlock.c'' 54 (lit ''Spinlock Tests: [OK]''))"
    by (auto simp: lit_def)
  with inv show ?thesis
    by (intro exI [of _ h] exI [of _ l]) (simp add: run_spinlock_tests_def test_atomic_set_passes h_def)
qed

subsection \<open>rtc.c\<close>

text \<open>The clock interrupt while no future waits, with what it keeps: the account of the log and the heap.\<close>

definition ticking :: "kernel \<Rightarrow> u8 list \<Rightarrow> kernel \<Rightarrow> bool" where
  "ticking k0 T k \<longleftrightarrow> no_futures k \<and> reported k T \<and> k_heap k = k_heap k0"

interpretation reporting_clock: clock "rtc_irq E" "ticking k0 T" for E k0 T
proof
  fix k assume k: "ticking k0 T k"
  then obtain f where f: "rtc_irq E k = Some (Inr (upd_trace f (k\<lparr>tick := tick k + 1, SHOULD_POLL := False\<rparr>)))" "quiet f"
    using no_futures_tick [of k E] by (auto simp: ticking_def)
  have "reported (k\<lparr>tick := tick k + 1, SHOULD_POLL := False\<rparr>) T"
    using k by (simp add: ticking_def reported_def k_trace_def)
  then have "reported (upd_trace f (k\<lparr>tick := tick k + 1, SHOULD_POLL := False\<rparr>)) T"
    by (rule reported_upd_trace) (use f(2) in \<open>simp add: quiet_def\<close>)
  then show "\<exists>k'. rtc_irq E k = Some (Inr k') \<and> ticking k0 T k' \<and> tick k' = tick k + 1"
    using f(1) k by (auto simp: ticking_def no_futures_def rtc_registered_def)
next
  show "ticking k0 T (upd_trace f k)" if "quiet f" "ticking k0 T k" for f k
    using that reported_upd_trace [of k T f] by (auto simp: ticking_def no_futures_def rtc_registered_def quiet_def)
qed (auto simp: ticking_def no_futures_def rtc_registered_def reported_def k_trace_def)

lemma test_rtc_interrupts_passes:
  assumes "reported k T" "no_futures k" "unat (tick k) + 1024 < 2 ^ 32"
  shows "\<exists>k'. test_rtc_interrupts E (rtc_irq E) k = Some (Inr k') \<and> ticking k T k' \<and> unat (tick k') = unat (tick k) + 1024"
proof -
  have "ticking k T k" using assms(1,2) by (simp add: ticking_def)
  then obtain k1 where k1: "get_tick k = (tick k, k1)" "ticking k T k1" "tick k1 = tick k"
    using reporting_clock.get_tick_good [of k T k] by (metis prod.collapse)
  obtain k2 where k2: "sleep (rtc_irq E) 4 k1 = Some (Inr k2)" "ticking k T k2" "unat (tick k2) = unat (tick k) + 1024"
    using reporting_clock.sleep_good [OF k1(2), of 4] k1(3) assms(3) by auto
  obtain k3 where k3: "get_tick k2 = (tick k2, k3)" "ticking k T k3" "tick k3 = tick k2"
    using reporting_clock.get_tick_good [OF k2(2)] by (metis prod.collapse)
  have "tick k2 = tick k + 1024" using k2(3) assms(3) by (simp add: word_unat_eq_iff unat_add_lt)
  then have "(tick k2 - tick k) div 256 \<le> 4" by simp
  then show ?thesis
    using k1 k2 k3 by (auto simp: test_rtc_interrupts_def Let_def k_assert_def)
qed

lemma run_rtc_tests_pass:
  assumes "env_ok E" "reported k T" "no_futures k" "unat (tick k) + 1024 < 2 ^ 32"
  shows "\<exists>k'. run_rtc_tests E (rtc_irq E) k = Some (Inr k') \<and> k_heap k' = k_heap k \<and> unat (tick k') = unat (tick k) + 1024
    \<and> reported k' (T @ green_line ''kernel/io/rtc.c'' 152 (lit ''RTC: [OK]''))"
proof -
  obtain k1 where k1: "test_rtc_interrupts E (rtc_irq E) k = Some (Inr k1)" "ticking k T k1" "unat (tick k1) = unat (tick k) + 1024"
    using test_rtc_interrupts_passes [OF assms(2-4)] by blast
  then have "reported k1 T" by (simp add: ticking_def)
  from ok_line [OF assms(1) this ok_texts(7) _ _ _ ok_prefixes(7)] obtain l where
    "k_LOG_GREEN E ''kernel/io/rtc.c'' 152 ''RTC: [OK]'' [] k1 = Some (Inr (k1\<lparr>k_log := l\<rparr>))"
    "reported (k1\<lparr>k_log := l\<rparr>) (T @ green_line ''kernel/io/rtc.c'' 152 (lit ''RTC: [OK]''))"
    by (auto simp: lit_def)
  with k1 show ?thesis by (auto simp: run_rtc_tests_def ticking_def)
qed

subsection \<open>pci.c\<close>

lemma check_macs_same: "list_all (\<lambda>(a, b). a = b) ms \<Longrightarrow> check_macs E ms k = Some (Inr k)"
  by (induction ms) (auto simp: k_assert_def)

lemma test_rtl_driver_passes:
  assumes "env_ok E" "reported k T" "pci_bus cfg (devs E)" "card_at cfg b s io mm" "card_registers (devs E) io v w"
    and "map (\<lambda>i. bytes (k_heap k) (mm + of_nat i)) [0..<6] = mac_bytes v w"
  shows "\<exists>f. test_rtl_driver E k = Some (Inr (upd_trace f k)) \<and> quiet f"
proof -
  let ?pci = "\<lparr>address = \<lparr>bus = b, slot = s\<rparr>, header_type = General\<rparr>"
  note bus = assms(3) and env = assms(1)
  have log: "log_ok (upd_trace f k)" if "quiet f" for f
    using reported_log_ok [OF assms(2)] by simp
  have q: "quiet ((@) es)" if "list_all config_event es" for es
    using that by (simp add: quiet_def config_events_quiet)
  have inl: "k_inl E (ucast io) k = (v, upd_trace ((#) (In32 (ucast io) v)) k)"
    "k_inl E (ucast (io + 4)) k = (w, upd_trace ((#) (In32 (ucast (io + 4)) w)) k)" for k
    using assms(5) by (simp_all add: card_registers_def k_inl_def inl_def upd_trace_def)
  obtain es1 where 1: "find_pci_address E 0x10EC 0x8139 k = Some (Inr (?pci, upd_trace ((@) es1) k))" "list_all config_event es1"
    using find_pci_address_spec [OF bus env reported_log_ok [OF assms(2)], of "0x10EC" "0x8139"] assms(4) by (auto simp: card_at_def)
  note q1 = q [OF 1(2)]
  obtain es2 where 2: "find_io_base E ?pci (upd_trace ((@) es1) k) = Some (Inr (io, upd_trace ((@) es2) (upd_trace ((@) es1) k)))"
      "list_all config_event es2"
    using base_addresses_spec [OF bus env log [OF q1], of ?pci] assms(4) by (auto simp: card_at_def)
  define f where "f = ((#) (In32 (ucast (io + 4)) w)) \<circ> ((#) (In32 (ucast io) v)) \<circ> ((@) es2) \<circ> ((@) es1)"
  have "quiet ((#) (In32 p x))" for p x by (simp add: quiet_def)
  then have qf: "quiet f" using q1 q [OF 2(2)] by (simp add: f_def quiet_comp)
  obtain es3 where 3: "find_mmap_base E ?pci (upd_trace f k) = Some (Inr (mm, upd_trace ((@) es3) (upd_trace f k)))"
      "list_all config_event es3"
    using base_addresses_spec [OF bus env log [OF qf], of ?pci] assms(4) by (auto simp: card_at_def)
  have t: "upd_trace g (upd_trace h k) = upd_trace (g \<circ> h) k" for g h by (simp add: upd_trace_def k_trace_def)
  have "test_rtl_driver E k = Some (Inr (upd_trace ((@) es3 \<circ> f) k))"
    using 1(1) 2(1) 3(1) assms(6)
    by (simp add: test_rtl_driver_def inl Let_def t f_def comp_assoc check_macs_same list_all_iff zip_same_conv_map)
  then show ?thesis using qf q [OF 3(2)] by (blast intro: quiet_comp)
qed

lemma run_pci_tests_pass:
  assumes "env_ok E" "reported k T" "pci_bus cfg (devs E)" "card_at cfg b s io mm" "card_registers (devs E) io v w"
    and "map (\<lambda>i. bytes (k_heap k) (mm + of_nat i)) [0..<6] = mac_bytes v w"
  shows "\<exists>l. run_pci_tests E k = Some (Inr (k\<lparr>k_log := l\<rparr>))
    \<and> reported (k\<lparr>k_log := l\<rparr>) (T @ green_line ''kernel/pci.c'' 112 (lit ''PCI: [OK]''))"
proof -
  obtain f where f: "test_rtl_driver E k = Some (Inr (upd_trace f k))" "quiet f"
    using test_rtl_driver_passes [OF assms] by blast
  have "reported (upd_trace f k) T" using f(2) by (intro reported_upd_trace [OF assms(2)]) (simp add: quiet_def)
  from ok_line [OF assms(1) this ok_texts(8) _ _ _ ok_prefixes(8)] obtain l where
    "k_LOG_GREEN E ''kernel/pci.c'' 112 ''PCI: [OK]'' [] (upd_trace f k) = Some (Inr (upd_trace f k\<lparr>k_log := l\<rparr>))"
    "reported (upd_trace f k\<lparr>k_log := l\<rparr>) (T @ green_line ''kernel/pci.c'' 112 (lit ''PCI: [OK]''))"
    by (auto simp: lit_def)
  moreover have "upd_trace f k\<lparr>k_log := l\<rparr> = k\<lparr>k_log := l\<rparr>" for l by (simp add: upd_trace_def)
  ultimately show ?thesis using f(1) by (auto simp: run_pci_tests_def)
qed

end
