(* ===== verification/Self_Test_Run.thy ===== *)
theory Self_Test_Run
  imports Self_Test_Steps
begin

text \<open>
  The self tests succeed: on a kernel whose services are up, with a heap of one free segment and a
  network card that shows the same address through its ports and its memory, every assertion of the
  tests holds and the kernel exits with 0. The tests of the segment table, which \<open>kernel_main\<close> does
  not run, fail at their second descriptor.
\<close>

unbundle bit_operations_syntax

subsection \<open>The whole run\<close>

lemma dump_step:
  assumes "env_ok E" "reported k T"
  shows "\<exists>l. on_log (dump_buffer (devs E) (stack E)) k = Some (Inr (k\<lparr>k_log := l\<rparr>)) \<and> reported (k\<lparr>k_log := l\<rparr>) T
    \<and> written_to DATA_REG (trace (con l)) = T"
  using dump_reports [OF assms] by (auto simp: reported_def k_trace_def flushed_def intro!: exI [of _ "[]"])

definition first_lines :: "u8 list" where
  "first_lines = green_line ''kernel/kernel.c'' 75 (lit ''Starting tests'') @ green_line ''kernel/utils.c'' 125 (lit ''Utils: [OK]'')
     @ green_line ''stdio/printf.c'' 219 (lit ''Stdio: [OK]'') @ green_line ''kernel/allocator.c'' 204 (lit ''Allocator: [OK]'')"

definition last_lines :: "u8 list" where
  "last_lines = green_line ''kernel/interrupts.c'' 245 (lit ''Interrupt Descriptor Table: [OK]'')
     @ green_line ''kernel/spinlock.c'' 54 (lit ''Spinlock Tests: [OK]'') @ green_line ''kernel/io/rtc.c'' 152 (lit ''RTC: [OK]'')
     @ green_line ''kernel/pci.c'' 112 (lit ''PCI: [OK]'')"

lemma tests_first_half:
  assumes env: "env_ok E" and T: "reported k T" and arr: "length test_arr = 100" "0 \<in> set test_arr"
    and heap: "heap_inv hi (k_heap k)" "16 \<le> unat (freeSegment (k_heap k))"
      "heap_blocks hi (k_heap k) = Free n # us" "all_used us" "80 \<le> n"
  shows "\<exists>k1 k2 k3 h l. k_LOG_GREEN E ''kernel/kernel.c'' 75 ''Starting tests'' [] k = Some (Inr k1)
    \<and> run_utils_tests E test_arr k1 = Some (Inr k2) \<and> run_stdio_tests E msg k2 = Some (Inr (replicate 100 0, k3))
    \<and> run_allocator_tests E hw k3 = Some (Inr (k\<lparr>k_heap := h, k_log := l\<rparr>))
    \<and> heap_inv hi h \<and> heap_blocks hi h = Free n # us \<and> same_outside hi (k_heap k) h
    \<and> reported (k\<lparr>k_heap := h, k_log := l\<rparr>) (T @ first_lines)"
proof -
  obtain l1 where 1: "k_LOG_GREEN E ''kernel/kernel.c'' 75 ''Starting tests'' [] k = Some (Inr (k\<lparr>k_log := l1\<rparr>))"
      "reported (k\<lparr>k_log := l1\<rparr>) (T @ green_line ''kernel/kernel.c'' 75 (lit ''Starting tests''))"
    using ok_line [OF env T ok_texts(1) _ _ _ ok_prefixes(1)] by (auto simp: lit_def)
  obtain l2 where 2: "run_utils_tests E test_arr (k\<lparr>k_log := l1\<rparr>) = Some (Inr (k\<lparr>k_log := l2\<rparr>))"
      "reported (k\<lparr>k_log := l2\<rparr>) ((T @ green_line ''kernel/kernel.c'' 75 (lit ''Starting tests''))
        @ green_line ''kernel/utils.c'' 125 (lit ''Utils: [OK]''))"
    using run_utils_tests_pass [OF env 1(2) arr] by auto
  obtain l3 where 3: "run_stdio_tests E msg (k\<lparr>k_log := l2\<rparr>) = Some (Inr (replicate 100 0, k\<lparr>k_log := l3\<rparr>))"
      "reported (k\<lparr>k_log := l3\<rparr>) (((T @ green_line ''kernel/kernel.c'' 75 (lit ''Starting tests''))
        @ green_line ''kernel/utils.c'' 125 (lit ''Utils: [OK]'')) @ green_line ''stdio/printf.c'' 219 (lit ''Stdio: [OK]''))"
    using run_stdio_tests_pass [OF env 2(2), of msg] by auto
  have "k\<lparr>k_log := l3, k_heap := h, k_log := l\<rparr> = k\<lparr>k_heap := h, k_log := l\<rparr>" for h l by simp
  then obtain h l4 where 4: "run_allocator_tests E hw (k\<lparr>k_log := l3\<rparr>) = Some (Inr (k\<lparr>k_heap := h, k_log := l4\<rparr>))"
      "heap_inv hi h" "heap_blocks hi h = Free n # us" "same_outside hi (k_heap k) h"
      "reported (k\<lparr>k_heap := h, k_log := l4\<rparr>) (T @ first_lines)"
    using run_allocator_tests_pass [OF env 3(2), of hi n us hw] heap by (auto simp: first_lines_def)
  show ?thesis using 1(1) 2(1) 3(1) 4 by blast
qed

lemma tests_second_half:
  assumes env: "env_ok E" and T: "reported k T" and clock: "no_futures k" "unat (tick k) + 1024 < 2 ^ 32"
    and heap: "heap_inv hi (k_heap k)"
    and orig: "unat orig + 4 \<le> 2 ^ 32" "unat orig + 4 \<le> unat (freeSegment (k_heap k)) \<or> hi \<le> unat orig"
    and card: "pci_bus cfg (devs E)" "card_at cfg b s io mm" "card_registers (devs E) io v w"
      "map (\<lambda>i. bytes (k_heap k) (mm + of_nat i)) [0..<6] = mac_bytes v w"
      "\<And>i. i < 6 \<Longrightarrow> unat (mm + of_nat i) < unat orig \<or> unat orig + 4 \<le> unat (mm + of_nat i)"
  shows "\<exists>k1 k2 k3 k4 k5 k6 k7. run_idt_tests E k = Some (Inr k1) \<and> on_log (dump_buffer (devs E) (stack E)) k1 = Some (Inr k2)
    \<and> run_spinlock_tests E orig k2 = Some (Inr k3) \<and> on_log (dump_buffer (devs E) (stack E)) k3 = Some (Inr k4)
    \<and> run_rtc_tests E (rtc_irq E) k4 = Some (Inr k5) \<and> run_pci_tests E k5 = Some (Inr k6)
    \<and> on_log (dump_buffer (devs E) (stack E)) k6 = Some (Inr k7)
    \<and> heap_inv hi (k_heap k7) \<and> heap_blocks hi (k_heap k7) = heap_blocks hi (k_heap k)
    \<and> unat (tick k7) = unat (tick k) + 1024 \<and> written_to DATA_REG (k_trace k7) = T @ last_lines \<and> reported k7 (T @ last_lines)
    \<and> map (\<lambda>i. bytes (k_heap k7) (mm + of_nat i)) [0..<6] = mac_bytes v w"
proof -
  define T1 where "T1 = T @ green_line ''kernel/interrupts.c'' 245 (lit ''Interrupt Descriptor Table: [OK]'')"
  define T2 where "T2 = T1 @ green_line ''kernel/spinlock.c'' 54 (lit ''Spinlock Tests: [OK]'')"
  define T3 where "T3 = T2 @ green_line ''kernel/io/rtc.c'' 152 (lit ''RTC: [OK]'')"
  define T4 where "T4 = T3 @ green_line ''kernel/pci.c'' 112 (lit ''PCI: [OK]'')"
  obtain l1 where 1: "run_idt_tests E k = Some (Inr (k\<lparr>k_log := l1\<rparr>))" "reported (k\<lparr>k_log := l1\<rparr>) T1"
    using run_idt_tests_pass [OF env T] by (auto simp: T1_def)
  obtain l2 where 2: "on_log (dump_buffer (devs E) (stack E)) (k\<lparr>k_log := l1\<rparr>) = Some (Inr (k\<lparr>k_log := l2\<rparr>))"
      "reported (k\<lparr>k_log := l2\<rparr>) T1"
    using dump_step [OF env 1(2)] by auto
  define h where "h = (k_heap k)\<lparr>bytes := store32 (bytes (k_heap k)) orig 2\<rparr>"
  have upd: "k\<lparr>k_log := l2, k_heap := h, k_log := l\<rparr> = k\<lparr>k_heap := h, k_log := l\<rparr>" for h l by simp
  obtain l3 where 3: "run_spinlock_tests E orig (k\<lparr>k_log := l2\<rparr>) = Some (Inr (k\<lparr>k_heap := h, k_log := l3\<rparr>))"
      "heap_inv hi h" "heap_blocks hi h = heap_blocks hi (k_heap k)" "reported (k\<lparr>k_heap := h, k_log := l3\<rparr>) T2"
    using run_spinlock_tests_pass [OF env 2(2), of hi orig] heap orig by (auto simp: upd T2_def h_def)
  obtain l4 where 4: "on_log (dump_buffer (devs E) (stack E)) (k\<lparr>k_heap := h, k_log := l3\<rparr>) = Some (Inr (k\<lparr>k_heap := h, k_log := l4\<rparr>))"
      "reported (k\<lparr>k_heap := h, k_log := l4\<rparr>) T2"
    using dump_step [OF env 3(4)] by auto
  have "no_futures (k\<lparr>k_heap := h, k_log := l4\<rparr>)" using clock(1) by (simp add: no_futures_def rtc_registered_def)
  then obtain k5 where 5: "run_rtc_tests E (rtc_irq E) (k\<lparr>k_heap := h, k_log := l4\<rparr>) = Some (Inr k5)" "k_heap k5 = h"
      "unat (tick k5) = unat (tick k) + 1024" "reported k5 T3"
    using run_rtc_tests_pass [OF env 4(2)] clock(2) by (auto simp: T3_def)
  have "bytes h (mm + of_nat i) = bytes (k_heap k) (mm + of_nat i)" if "i < 6" for i
    using card(5) [OF that] by (simp add: h_def store32_other [OF orig(1)])
  then have mac: "map (\<lambda>i. bytes (k_heap k5) (mm + of_nat i)) [0..<6] = mac_bytes v w"
    unfolding card(4) [symmetric] 5(2) by simp
  then obtain l6 where 6: "run_pci_tests E k5 = Some (Inr (k5\<lparr>k_log := l6\<rparr>))" "reported (k5\<lparr>k_log := l6\<rparr>) T4"
    using run_pci_tests_pass [OF env 5(4) card(1-3)] by (auto simp: T4_def)
  obtain l7 where 7: "on_log (dump_buffer (devs E) (stack E)) (k5\<lparr>k_log := l6\<rparr>) = Some (Inr (k5\<lparr>k_log := l7\<rparr>))"
      "written_to DATA_REG (trace (con l7)) = T4" "reported (k5\<lparr>k_log := l7\<rparr>) T4"
    using dump_step [OF env 6(2)] by auto
  have "heap_inv hi (k_heap (k5\<lparr>k_log := l7\<rparr>))" "heap_blocks hi (k_heap (k5\<lparr>k_log := l7\<rparr>)) = heap_blocks hi (k_heap k)"
    using 3(2,3) 5(2) by simp_all
  moreover have "unat (tick (k5\<lparr>k_log := l7\<rparr>)) = unat (tick k) + 1024" using 5(3) by simp
  moreover have "written_to DATA_REG (k_trace (k5\<lparr>k_log := l7\<rparr>)) = T @ last_lines"
    "reported (k5\<lparr>k_log := l7\<rparr>) (T @ last_lines)"
    using 7(2,3) by (simp_all add: k_trace_def T4_def T3_def T2_def T1_def last_lines_def)
  moreover have "map (\<lambda>i. bytes (k_heap (k5\<lparr>k_log := l7\<rparr>)) (mm + of_nat i)) [0..<6] = mac_bytes v w" using mac by simp
  ultimately show ?thesis using 1(1) 2(1) 3(1) 4(1) 5(1) 6(1) 7(1) by blast
qed

lemma run_tests_spec:
  assumes env: "env_ok E" and "reported k T" and clock: "no_futures k" "unat (tick k) + 1024 < 2 ^ 32"
    and arr: "length test_arr = 100" "0 \<in> set test_arr"
    and heap: "heap_inv hi (k_heap k)" "16 \<le> unat (freeSegment (k_heap k))"
      "heap_blocks hi (k_heap k) = Free n # us" "\<forall>u \<in> set us. \<not> is_free u" "80 \<le> n"
    and orig: "unat orig + 4 \<le> 2 ^ 32" "unat orig + 4 \<le> unat (freeSegment (k_heap k)) \<or> hi \<le> unat orig"
    and card: "pci_bus cfg (devs E)" "card_at cfg b s io mm" "card_registers (devs E) io v w"
      "map (\<lambda>i. bytes (k_heap k) (mm + of_nat i)) [0..<6] = mac_bytes v w"
      "\<And>i. i < 6 \<Longrightarrow> outside hi (k_heap k) (mm + of_nat i)
        \<and> (unat (mm + of_nat i) < unat orig \<or> unat orig + 4 \<le> unat (mm + of_nat i))"
  shows "\<exists>k'. run_tests E (rtc_irq E) test_arr msg helloworld orig k = Some (Inr k')
    \<and> heap_inv hi (k_heap k') \<and> heap_blocks hi (k_heap k') = heap_blocks hi (k_heap k)
    \<and> unat (tick k') = unat (tick k) + 1024
    \<and> written_to DATA_REG (k_trace k') = T @ first_lines @ last_lines \<and> hd (k_trace k') = Out8 0xF4 0
    \<and> reported k' (T @ first_lines @ last_lines) \<and> map (\<lambda>i. bytes (k_heap k') (mm + of_nat i)) [0..<6] = mac_bytes v w"
proof -
  have "all_used us" using heap(4) by (simp add: list_all_iff)
  from tests_first_half [OF env assms(2) arr heap(1-3) this heap(5)] obtain k1 k2 k3 h l where
    first: "k_LOG_GREEN E ''kernel/kernel.c'' 75 ''Starting tests'' [] k = Some (Inr k1)"
      "run_utils_tests E test_arr k1 = Some (Inr k2)" "run_stdio_tests E msg k2 = Some (Inr (replicate 100 0, k3))"
      "run_allocator_tests E helloworld k3 = Some (Inr (k\<lparr>k_heap := h, k_log := l\<rparr>))"
    and h: "heap_inv hi h" "heap_blocks hi h = heap_blocks hi (k_heap k)" "same_outside hi (k_heap k) h"
    and T: "reported (k\<lparr>k_heap := h, k_log := l\<rparr>) (T @ first_lines)"
    unfolding heap(3) by blast
  let ?k = "k\<lparr>k_heap := h, k_log := l\<rparr>"
  have f: "freeSegment h = freeSegment (k_heap k)" using h(3) by (simp add: same_outside_def)
  have "no_futures ?k" using clock(1) by (simp add: no_futures_def rtc_registered_def)
  moreover have "map (\<lambda>i. bytes h (mm + of_nat i)) [0..<6] = mac_bytes v w"
    unfolding card(4) [symmetric] using card(5) h(3) by (simp add: same_outside_def)
  ultimately obtain k5 k6 k7 k8 k9 k10 k11 where
    second: "run_idt_tests E ?k = Some (Inr k5)" "on_log (dump_buffer (devs E) (stack E)) k5 = Some (Inr k6)"
      "run_spinlock_tests E orig k6 = Some (Inr k7)" "on_log (dump_buffer (devs E) (stack E)) k7 = Some (Inr k8)"
      "run_rtc_tests E (rtc_irq E) k8 = Some (Inr k9)" "run_pci_tests E k9 = Some (Inr k10)"
      "on_log (dump_buffer (devs E) (stack E)) k10 = Some (Inr k11)"
    and fin: "heap_inv hi (k_heap k11)" "heap_blocks hi (k_heap k11) = heap_blocks hi h"
      "unat (tick k11) = unat (tick k) + 1024" "written_to DATA_REG (k_trace k11) = (T @ first_lines) @ last_lines"
      "reported k11 ((T @ first_lines) @ last_lines)" "map (\<lambda>i. bytes (k_heap k11) (mm + of_nat i)) [0..<6] = mac_bytes v w"
    using tests_second_half [OF env T _ _ _ orig(1) _ card(1-3), of hi] clock(2) h(1) orig(2) f card(5) by auto
  have "run_tests E (rtc_irq E) test_arr msg helloworld orig k = Some (Inr (upd_trace (exit_debug 0) k11))"
    unfolding run_tests_def by (simp add: first second)
  moreover have "DATA_REG \<noteq> 0xF4" by (simp add: DATA_REG_def COM1_def)
  moreover have "reported (upd_trace (exit_debug 0) k11) (T @ first_lines @ last_lines)"
    using fin(5) by (intro reported_upd_trace) (simp_all add: exit_debug_def outb_def DATA_REG_def COM1_def)
  ultimately show ?thesis
    using fin(1-4,6) h(2) by (simp add: exit_debug_def outb_def)
qed

subsection \<open>The tests of the segment table\<close>

lemma gdt_log:
  "render (lit ''Expected: %x, Got: %x'') (va64 0x00CF9A000000FFFF @ va64 d) =
    Some (lit ''Expected: 0000ffff, Got: 00cf9a00'')"
proof -
  have p: "pieces (lit ''Expected: %x, Got: %x'') = Some (map Plain (lit ''Expected: '') @ Arg_x # map Plain (lit '', Got: '') @ [Arg_x])"
    by code_simp
  have h: "hex 8 0xFFFF = lit ''0000ffff''" "hex 8 0xCF9A00 = lit ''00cf9a00''" by code_simp+
  have v: "va64 0x00CF9A000000FFFF = [VWord 0xFFFF, VWord 0xCF9A00]" by (simp add: va64_def)
  show ?thesis unfolding render_def p v by (simp add: print_pieces_plain h) (simp add: lit_def)
qed

lemma gdt_parts_pass:
  "test_basic_parsing E k = Some (Inr k)" "test_insert_base E k = Some (Inr k)" "test_insert_limit E k = Some (Inr k)"
  "test_get_binary_from_access_byte E junk k = Some (Inr k)" 
  by (simp_all add: test_basic_parsing_def test_insert_base_def test_insert_limit_def test_get_binary_from_access_byte_def
     gdt_parse_limit_def gdt_parse_base_def insert_base_def insert_limit_def
     set_access_byte_def set_p_def set_dpl_def set_s_def
        set_e_def set_dc_def set_rw_def set_a_def get_binary_from_access_byte_def liftE_def k_assert_def)

lemma run_gdt_tests_panics:
  assumes "env_ok E" "log_ok k"
  shows "run_gdt_tests E junk k = Some (Inl (Panic ''Failed test 2''))"
proof -
  have c: "create_descriptor 0 0 0 = 0" "create_descriptor 0 0xFFFFF GDT_CODE_PL0 = 0x000F9A000000FFFF"
    by (simp_all add: create_descriptor_def GDT_CODE_PL0_def segment_macro_def
        SEG_DESCTYPE_def SEG_PRES_def SEG_SAVL_def SEG_LONG_def SEG_SIZE_def SEG_GRAN_def SEG_PRIV_def)
  have "length (prefix_text (lit ''INFO'') (lit ''kernel/gdt.c'') 264) < 100" by code_simp
  then have "short_log ''kernel/gdt.c'' 264 ''Expected: %x, Got: %x'' (va64 0x00CF9A000000FFFF @ va64 0x000F9A000000FFFF)"
    unfolding short_log_def gdt_log by (simp add: lit_def)
  then obtain k' where k': "k_LOG E ''kernel/gdt.c'' 264 ''Expected: %x, Got: %x''
      (va64 0x00CF9A000000FFFF @ va64 0x000F9A000000FFFF) k = Some (Inr k')" "logged k k'"
    using k_LOG_spec [OF assms] by blast
  have "k_panics E ''Failed test 2'' k' = (Some (Inl (Panic ''Failed test 2'')) :: kernel effect)"
    using k'(2) by (intro k_panics_spec [OF assms(1)]) (simp_all add: logged_def lit_def c_content_def)
  then have "test_create_descriptor E k = Some (Inl (Panic ''Failed test 2''))"
    using k'(1) by (simp add: test_create_descriptor_def c k_assert_def Let_def)
  then show ?thesis by (simp add: run_gdt_tests_def gdt_parts_pass)
qed

subsection \<open>Properties\<close>

text \<open>
  The self tests of a TEST build pass. On a kernel with no future waiting and a heap of one
  free segment of 80 bytes or more before its used blocks, with a card whose memory shows the
  address that its ports show: every assertion holds, \<open>run_tests\<close> returns, the block list of
  the heap is what it was, the clock has advanced by four seconds, the serial port has sent what was
  pending and one line per test, and the last act is the write of 0 to the exit port.
\<close>

theorem self_tests_pass:
  assumes env: "env_ok E" and "reported k T" and clock: "no_futures k" "unat (tick k) + 1024 < 2 ^ 32"
    and arr: "length test_arr = 100" "0 \<in> set test_arr"
    and heap: "heap_inv hi (k_heap k)" "16 \<le> unat (freeSegment (k_heap k))"
      "heap_blocks hi (k_heap k) = Free n # us" "\<forall>u \<in> set us. \<not> is_free u" "80 \<le> n"
    and orig: "unat orig + 4 \<le> 2 ^ 32" "unat orig + 4 \<le> unat (freeSegment (k_heap k)) \<or> hi \<le> unat orig"
    and card: "pci_bus cfg (devs E)" "card_at cfg b s io mm" "card_registers (devs E) io v w"
      "map (\<lambda>i. bytes (k_heap k) (mm + of_nat i)) [0..<6] = mac_bytes v w"
      "\<And>i. i < 6 \<Longrightarrow> outside hi (k_heap k) (mm + of_nat i)
        \<and> (unat (mm + of_nat i) < unat orig \<or> unat orig + 4 \<le> unat (mm + of_nat i))"
  shows "\<exists>k'. run_tests E (rtc_irq E) test_arr msg helloworld orig k = Some (Inr k')
    \<and> heap_inv hi (k_heap k') \<and> heap_blocks hi (k_heap k') = heap_blocks hi (k_heap k)
    \<and> unat (tick k') = unat (tick k) + 1024
    \<and> written_to DATA_REG (k_trace k') = T @ first_lines @ last_lines \<and> hd (k_trace k') = Out8 0xF4 0"
  using run_tests_spec [OF assms] by blast

definition testing_kernel :: kernel where
  "testing_kernel = ticking_kernel\<lparr>k_heap := small_heap\<lparr>bytes := (\<lambda>x. if x < 0xFEBC0000 then bytes small_heap x
     else (mac_bytes 0x12005452 0x5634 @ replicate 10 0) ! unat (x AND 7))\<rparr>\<rparr>"

theorem self_tests_pass_witness:
  "\<exists>k'. run_tests card_env (rtc_irq card_env) (replicate 100 0) (replicate 100 0) 0x10000 0x20000 testing_kernel = Some (Inr k')
    \<and> heap_blocks 4208 (k_heap k') = [Free 104] \<and> unat (tick k') = 1024
    \<and> written_to DATA_REG (k_trace k') = first_lines @ last_lines \<and> hd (k_trace k') = Out8 0xF4 0"
proof -
  let ?m = "\<lambda>x :: u32. if x < 0xFEBC0000 then bytes small_heap x else (mac_bytes 0x12005452 0x5634 @ replicate 10 0) ! unat (x AND 7)"
  have "?m x = bytes small_heap x" if "unat x < 4208" for x
    using that by (simp add: word_less_nat_alt)
  note heap = same_outside_inv [OF small_heap_facts(1), of ?m, OF this]
  have h: "heap_inv 4208 (k_heap testing_kernel)" "heap_blocks 4208 (k_heap testing_kernel) = [Free 104]"
    using heap small_heap_facts(2) by (simp_all add: testing_kernel_def)
  have f: "freeSegment (k_heap testing_kernel) = 4096" by (simp add: testing_kernel_def small_heap_def)
  have r: "reported testing_kernel []"
    using boot_reported by (simp add: testing_kernel_def ticking_kernel_def reported_def k_trace_def)
  have c: "no_futures testing_kernel" "unat (tick testing_kernel) + 1024 < 2 ^ 32" "tick testing_kernel = 0"
    by (simp_all add: testing_kernel_def ticking_kernel_def no_futures_def rtc_registered_def boot_kernel_def)
  have m: "map (\<lambda>i. bytes (k_heap testing_kernel) (0xFEBC0000 + of_nat i)) [0..<6] = mac_bytes 0x12005452 0x5634"
    by (simp add: testing_kernel_def upt_rec mac_bytes_def)
  have a: "outside 4208 (k_heap testing_kernel) (0xFEBC0000 + of_nat i)
      \<and> (unat (0xFEBC0000 + of_nat i :: u32) < unat (0x20000 :: u32) \<or> unat (0x20000 :: u32) + 4 \<le> unat (0xFEBC0000 + of_nat i :: u32))"
    if "i < 6" for i
    using that unat_plus_small [of "0xFEBC0000" i] by (simp add: outside_def)
  have "\<exists>k'. run_tests card_env (rtc_irq card_env) (replicate 100 0) (replicate 100 0) 0x10000 0x20000 testing_kernel = Some (Inr k')
      \<and> heap_inv 4208 (k_heap k') \<and> heap_blocks 4208 (k_heap k') = heap_blocks 4208 (k_heap testing_kernel)
      \<and> unat (tick k') = unat (tick testing_kernel) + 1024
      \<and> written_to DATA_REG (k_trace k') = [] @ first_lines @ last_lines \<and> hd (k_trace k') = Out8 0xF4 0"
    by (rule self_tests_pass [OF card_env_facts(1) r c(1,2) _ _ h(1) _ h(2) _ _ _ _ card_env_facts(2-4) m a]) (simp_all add: f)
  then show ?thesis unfolding h(2) c(3) by auto
qed

text \<open>
  C40. The tests of the segment table do not pass: \<open>run_gdt_tests\<close> panics at the first descriptor
  with flags, whichever table is loaded, while the other tests of that file pass on their own. The
  line logged before the panic is meant to show the expected and the computed descriptor; for any
  descriptor it shows the two halves of the expected one.
\<close>

theorem gdt_self_test_fails:
  assumes "env_ok E" "log_ok k"
  shows "run_gdt_tests E junk k = Some (Inl (Panic ''Failed test 2''))
    \<and> test_basic_parsing E k = Some (Inr k) \<and> test_insert_base E k = Some (Inr k)
    \<and> test_insert_limit E k = Some (Inr k) \<and> test_get_binary_from_access_byte E junk k = Some (Inr k)
    \<and> render (lit ''Expected: %x, Got: %x'') (va64 0x00CF9A000000FFFF @ va64 d) =
        Some (lit ''Expected: 0000ffff, Got: 00cf9a00'')"
  using run_gdt_tests_panics [OF assms] gdt_parts_pass gdt_log by simp

theorem gdt_self_test_fails_witness:
  "\<forall>junk. run_gdt_tests test_env junk boot_kernel = Some (Inl (Panic ''Failed test 2''))"
  using gdt_self_test_fails [OF test_env_ok boot_log_ok] by blast

end
