(* ===== verification/Boot_Output.thy ===== *)
theory Boot_Output
  imports Boot_Run Probe
begin

text \<open>
  The plain build from its services to the end of \<open>kernel_main\<close>: the services and the probe of the
  network card composed, with every byte that has been written to the data port of the serial port.
\<close>

lemma services_probe_spec:
  assumes boot: "machine_ok E init k" "loader_ok kernel_end mbd entry (k_heap k)"
    and hi: "hi = unat KERNEL_START + unat (me_len entry)"
    and card: "pci_bus cfg (devs E)" "card_at cfg b s io mm" "card_registers (devs E) io v w"
    and mmio: "\<forall>i \<in> {0..<6}. unat (mm + of_nat i) < unat kernel_end \<or> unat kernel_end + 8 \<le> unat (mm + of_nat i)"
    and report: "log_rel ls (k_log k)" "length name \<le> 60"
      "string_at (bytes (k_heap k)) (mbd_boot_loader_name (bytes (k_heap k)) mbd) (2 ^ 32) = Some name"
  shows "\<exists>k1 k2. boot_services E kernel_end junk mbd k = Some (Inr k1) \<and> probe_network_card E k1 = Some (Inr k2)
    \<and> written_to DATA_REG (k_trace k2) = written_to DATA_REG (k_trace k) @ [0x03, 0xAE] @ flushed ls @ hello_line name
        @ date_line (date_of (cmos_file init (k_trace k))) @ probe_report b s io v w mm (\<lambda>i. bytes (k_heap k) (mm + of_nat i))
    \<and> log_rel [] (k_log k2) \<and> no_futures k2 \<and> tick k2 = tick k
    \<and> interruptList k2 = (interruptList k)[0x24 := Some Uart_irq, 0x28 := Some Process_rtc_interrupt]
    \<and> heap_inv hi (k_heap k2) \<and> freeSegment (k_heap k2) = kernel_end
    \<and> heap_blocks hi (k_heap k2) = [Free (hi - unat kernel_end - 8)]"
proof -
  have env: "env_ok E" using boot(1) by (simp add: machine_ok_def)
  let ?T = "written_to DATA_REG (k_trace k) @ [0x03, 0xAE] @ flushed ls @ hello_line name
      @ date_line (date_of (cmos_file init (k_trace k)))"
  obtain k1 where k1: "boot_services E kernel_end junk mbd k = Some (Inr k1)"
      "interruptList k1 = (interruptList k)[0x24 := Some Uart_irq, 0x28 := Some Process_rtc_interrupt]" "lastIdx k1 = -1"
      "tick k1 = tick k" "heap_inv hi (k_heap k1)" "freeSegment (k_heap k1) = kernel_end"
      "heap_blocks hi (k_heap k1) = [Free (hi - unat kernel_end - 8)]"
      "\<And>x. unat x < unat kernel_end \<or> unat kernel_end + 8 \<le> unat x \<Longrightarrow> bytes (k_heap k1) x = bytes (k_heap k) x"
      "reported k1 ?T"
    using boot_services_spec [OF boot, folded hi] report by metis
  obtain l where l: "probe_network_card E k1 = Some (Inr (k1\<lparr>k_log := l\<rparr>))" "log_rel [] l"
      "written_to DATA_REG (trace (con l)) = ?T @ probe_report b s io v w mm (\<lambda>i. bytes (k_heap k1) (mm + of_nat i))"
    using probe_network_card_spec [OF env k1(9) card] by blast
  have "mac_text (\<lambda>i. bytes (k_heap k1) (mm + of_nat i)) = mac_text (\<lambda>i. bytes (k_heap k) (mm + of_nat i))"
    using mmio by (intro mac_text_cong k1(8)) simp
  then have "probe_report b s io v w mm (\<lambda>i. bytes (k_heap k1) (mm + of_nat i)) =
      probe_report b s io v w mm (\<lambda>i. bytes (k_heap k) (mm + of_nat i))"
    by (simp add: probe_report_def)
  moreover have "no_futures (k1\<lparr>k_log := l\<rparr>)"
    using k1(2,3) boot(1) by (simp add: no_futures_def rtc_registered_def machine_ok_def)
  moreover have "k_trace (k1\<lparr>k_log := l\<rparr>) = trace (con l)" by (simp add: k_trace_def)
  ultimately show ?thesis
    using k1(1-7) l by (intro exI [of _ k1] exI [of _ "k1\<lparr>k_log := l\<rparr>"]) simp
qed

text \<open>
  C9. The kernel from its services to the last loop of \<open>kernel_main\<close>, on a machine whose serial port
  echoes and whose clock holds a plausible date, with a memory map that has the kernel's region and a
  card on the bus: every call returns, no assertion fails, and the bytes written to the data port
  are exactly the two of \<open>init_serial\<close>, the lines pending before, the line with the name of the boot
  loader, the date and the report on the card. Nothing is left pending, the handlers of the serial port
  and the clock are installed, the heap is one free segment behind the image, and \<open>sleep\<close> waits the
  time it is asked for.
\<close>

theorem kernel_comes_up_and_reports:
  assumes boot: "machine_ok E init k" "loader_ok kernel_end mbd entry (k_heap k)"
    and hi: "hi = unat KERNEL_START + unat (me_len entry)"
    and card: "pci_bus cfg (devs E)" "card_at cfg b s io mm" "card_registers (devs E) io v w"
    and mmio: "\<forall>i \<in> {0..<6}. unat (mm + of_nat i) < unat kernel_end \<or> unat kernel_end + 8 \<le> unat (mm + of_nat i)"
    and report: "log_rel ls (k_log k)" "length name \<le> 60"
      "string_at (bytes (k_heap k)) (mbd_boot_loader_name (bytes (k_heap k)) mbd) (2 ^ 32) = Some name"
  shows "\<exists>k1 k2. boot_services E kernel_end junk mbd k = Some (Inr k1) \<and> probe_network_card E k1 = Some (Inr k2)
    \<and> written_to DATA_REG (k_trace k2) = written_to DATA_REG (k_trace k) @ [0x03, 0xAE] @ flushed ls @ hello_line name
        @ date_line (date_of (cmos_file init (k_trace k))) @ probe_report b s io v w mm (\<lambda>i. bytes (k_heap k) (mm + of_nat i))
    \<and> log_rel [] (k_log k2) \<and> lastIdx k2 = -1
    \<and> interruptList k2 = (interruptList k)[0x24 := Some Uart_irq, 0x28 := Some Process_rtc_interrupt]
    \<and> heap_inv hi (k_heap k2) \<and> freeSegment (k_heap k2) = kernel_end
    \<and> heap_blocks hi (k_heap k2) = [Free (hi - unat kernel_end - 8)]
    \<and> (\<forall>t. unat (tick k) + unat t * 256 < 2 ^ 32 \<longrightarrow>
        (\<exists>k3. sleep (rtc_irq E) t k2 = Some (Inr k3) \<and> unat (tick k3) = unat (tick k) + unat t * 256))"
proof -
  obtain k1 k2 where r: "boot_services E kernel_end junk mbd k = Some (Inr k1)" "probe_network_card E k1 = Some (Inr k2)"
    "written_to DATA_REG (k_trace k2) = written_to DATA_REG (k_trace k) @ [0x03, 0xAE] @ flushed ls @ hello_line name
        @ date_line (date_of (cmos_file init (k_trace k))) @ probe_report b s io v w mm (\<lambda>i. bytes (k_heap k) (mm + of_nat i))"
    "log_rel [] (k_log k2)" "no_futures k2" "tick k2 = tick k"
    "interruptList k2 = (interruptList k)[0x24 := Some Uart_irq, 0x28 := Some Process_rtc_interrupt]"
    "heap_inv hi (k_heap k2)" "freeSegment (k_heap k2) = kernel_end" "heap_blocks hi (k_heap k2) = [Free (hi - unat kernel_end - 8)]"
    using services_probe_spec [OF assms] by blast
  have "\<exists>k3. sleep (rtc_irq E) t k2 = Some (Inr k3) \<and> unat (tick k3) = unat (tick k) + unat t * 256"
    if "unat (tick k) + unat t * 256 < 2 ^ 32" for t
    using rtc_clock.sleep_returns [OF r(5), of t E] that r(6) by simp
  moreover have "lastIdx k2 = -1" using r(5) by (simp add: no_futures_def)
  ultimately show ?thesis using r by blast
qed

definition boot_card_env :: env where
  "boot_card_env = test_env\<lparr>devs := \<lparr>dev8 = dev8 boot_device,
     dev32 = (\<lambda>tr p. if p = 0xC000 \<or> p = 0xC004 then 0 else case tr of Out32 p a # _ \<Rightarrow> one_device a | _ \<Rightarrow> 0)\<rparr>\<rparr>"

lemma boot_card_env_facts:
  "machine_ok boot_card_env (\<lambda>_. 0) loaded_kernel" "pci_bus one_device (devs boot_card_env)"
  "card_registers (devs boot_card_env) 0xC000 0 0"
proof -
  have p: "polls \<lparr>dev8 = dev8 boot_device, dev32 = d\<rparr> n tr = polls boot_device n tr" for d n tr
    by (induction n arbitrary: tr) (simp_all add: inb_def)
  have "serial_echoes (devs boot_card_env)" "cmos_chip (devs boot_card_env) (\<lambda>_. 0)" "transmitter_empties (devs boot_card_env)"
    using boot_device_facts by (simp_all add: boot_card_env_def serial_echoes_def cmos_chip_def transmitter_empties_def p)
  moreover have "log_ok loaded_kernel" using boot_log_ok by (simp add: loaded_kernel_def)
  moreover have "k_trace loaded_kernel = []" "length (interruptList loaded_kernel) = 256"
    by (simp_all add: loaded_kernel_def boot_kernel_def k_trace_def initial_log_def test_console_def)
  ultimately show "machine_ok boot_card_env (\<lambda>_. 0) loaded_kernel"
    by (simp add: machine_ok_def env_ok_def) (simp add: boot_card_env_def test_env_def)
qed (simp_all add: pci_bus_def card_registers_def boot_card_env_def)

lemma loaded_kernel_facts:
  "string_at (bytes (k_heap loaded_kernel)) (mbd_boot_loader_name (bytes (k_heap loaded_kernel)) 0x500) (2 ^ 32) = Some []"
  "loader_ok 0x1070A8 0x500 \<lparr>me_size = 20, me_addr = 0x100000, me_len = 0x7EE0000, me_type = 1\<rparr> (k_heap loaded_kernel)"
  "log_rel [] (k_log loaded_kernel)" "k_trace loaded_kernel = []" "tick loaded_kernel = 0"
proof -
  show n: "string_at (bytes (k_heap loaded_kernel)) (mbd_boot_loader_name (bytes (k_heap loaded_kernel)) 0x500) (2 ^ 32) = Some []"
    by (subst string_at.simps) (simp add: mbd_boot_loader_name_def boot_memory_def load32_def store32_def loaded_kernel_def)
  then show "loader_ok 0x1070A8 0x500 \<lparr>me_size = 20, me_addr = 0x100000, me_len = 0x7EE0000, me_type = 1\<rparr> (k_heap loaded_kernel)"
    using boot_memory_entry by (simp add: loader_ok_def loaded_kernel_def KERNEL_START_def)
  show "log_rel [] (k_log loaded_kernel)" using initial_log_rel by (simp add: loaded_kernel_def boot_kernel_def)
qed (simp_all add: loaded_kernel_def boot_kernel_def k_trace_def initial_log_def test_console_def)

theorem kernel_comes_up_and_reports_witness:
  "\<exists>k1 k2 k3. boot_services boot_card_env 0x1070A8 new_year 0x500 loaded_kernel = Some (Inr k1)
    \<and> probe_network_card boot_card_env k1 = Some (Inr k2)
    \<and> written_to DATA_REG (k_trace k2) = [0x03, 0xAE] @ hello_line [] @ date_line (date_of (\<lambda>_. 0))
        @ probe_report 0 3 0xC000 0 0 0xFEBC0000 (\<lambda>_. 0)
    \<and> heap_blocks 0x7FE0000 (k_heap k2) = [Free 0x7ED8F50]
    \<and> sleep (rtc_irq boot_card_env) 4 k2 = Some (Inr k3) \<and> unat (tick k3) = 1024"
proof -
  let ?entry = "\<lparr>me_size = 20, me_addr = 0x100000, me_len = 0x7EE0000, me_type = 1\<rparr>"
  have hi: "(0x7FE0000 :: nat) = unat KERNEL_START + unat (me_len ?entry)" by (simp add: KERNEL_START_def)
  have "unat (0xFEBC0000 + of_nat i :: u32) = 0xFEBC0000 + i" if "i < 6" for i
    using that unat_plus_small [of "0xFEBC0000" i] by simp
  then have mmio: "\<forall>i \<in> {0..<6}. unat (0xFEBC0000 + of_nat i :: u32) < unat (0x1070A8 :: u32) \<or>
      unat (0x1070A8 :: u32) + 8 \<le> unat (0xFEBC0000 + of_nat i :: u32)" by simp
  have "bytes (k_heap loaded_kernel) (0xFEBC0000 + of_nat i) = 0" if "i \<in> {0..<6}" for i
  proof -
    from that have "i = 0 \<or> i = 1 \<or> i = 2 \<or> i = 3 \<or> i = 4 \<or> i = 5" by auto
    then show ?thesis by (elim disjE) (simp_all add: loaded_kernel_def boot_memory_def store32_def)
  qed
  then have "mac_text (\<lambda>i. bytes (k_heap loaded_kernel) (0xFEBC0000 + of_nat i)) = mac_text (\<lambda>_. 0)"
    by (intro mac_text_cong) simp
  then have m: "probe_report 0 3 0xC000 0 0 0xFEBC0000 (\<lambda>i. bytes (k_heap loaded_kernel) (0xFEBC0000 + of_nat i)) =
      probe_report 0 3 0xC000 0 0 0xFEBC0000 (\<lambda>_. 0)" by (simp add: probe_report_def)
  obtain k1 k2 where r: "boot_services boot_card_env 0x1070A8 new_year 0x500 loaded_kernel = Some (Inr k1)"
    "probe_network_card boot_card_env k1 = Some (Inr k2)"
    "written_to DATA_REG (k_trace k2) = [0x03, 0xAE] @ hello_line [] @ date_line (date_of (\<lambda>_. 0))
        @ probe_report 0 3 0xC000 0 0 0xFEBC0000 (\<lambda>_. 0)"
    "heap_blocks 0x7FE0000 (k_heap k2) = [Free 0x7ED8F50]"
    "\<And>t. unat (t :: u32) * 256 < 2 ^ 32 \<Longrightarrow> \<exists>k3. sleep (rtc_irq boot_card_env) t k2 = Some (Inr k3) \<and> unat (tick k3) = unat t * 256"
    using kernel_comes_up_and_reports [OF boot_card_env_facts(1) loaded_kernel_facts(2) hi boot_card_env_facts(2) card_env_facts(3)
        boot_card_env_facts(3) mmio loaded_kernel_facts(3) _ loaded_kernel_facts(1), of new_year] m
    by (auto simp: loaded_kernel_facts(4,5) flushed_def)
  have "\<exists>k3. sleep (rtc_irq boot_card_env) 4 k2 = Some (Inr k3) \<and> unat (tick k3) = unat (4 :: u32) * 256"
    by (rule r(5)) simp
  then show ?thesis using r(1-4) by auto
qed

end
