(* ===== verification/Self_Test_Build.thy ===== *)
theory Self_Test_Build
  imports Self_Test_Run Boot_Output
begin

text \<open>
  The kernel of a TEST build from its services on: the boot, the self tests and the probe of the network
  card composed, up to the write to the exit port.
\<close>

subsection \<open>The kernel of a TEST build\<close>

definition test_area_free :: "u32 \<Rightarrow> u32 \<Rightarrow> u32 \<Rightarrow> nat \<Rightarrow> bool" where
  "test_area_free orig mm kernel_end hi \<longleftrightarrow>
     unat orig + 4 \<le> 2 ^ 32 \<and> (unat orig + 4 \<le> unat kernel_end \<or> hi \<le> unat orig)
     \<and> (\<forall>i \<in> {0..<6}. (unat (mm + of_nat i) < unat kernel_end \<or> hi \<le> unat (mm + of_nat i))
         \<and> (unat (mm + of_nat i) < unat orig \<or> unat orig + 4 \<le> unat (mm + of_nat i)))"

lemma services_test_spec:
  assumes boot: "machine_ok E init k" "loader_ok kernel_end mbd entry (k_heap k)" "unat (tick k) + 1024 < 2 ^ 32"
    and hi: "hi = unat KERNEL_START + unat (me_len entry)" "unat kernel_end + 88 \<le> hi"
    and arr: "length test_arr = 100" "0 \<in> set test_arr"
    and area: "test_area_free orig mm kernel_end hi"
    and card: "pci_bus cfg (devs E)" "card_at cfg b s io mm" "card_registers (devs E) io v w"
      "map (\<lambda>i. bytes (k_heap k) (mm + of_nat i)) [0..<6] = mac_bytes v w"
    and report: "log_rel ls (k_log k)" "length name \<le> 60"
      "string_at (bytes (k_heap k)) (mbd_boot_loader_name (bytes (k_heap k)) mbd) (2 ^ 32) = Some name"
    and sent: "sent = written_to DATA_REG (k_trace k) @ [0x03, 0xAE] @ flushed ls @ hello_line name
      @ date_line (date_of (cmos_file init (k_trace k))) @ first_lines @ last_lines"
  shows "\<exists>k1. services_test True E (rtc_irq E) test_arr msg helloworld orig kernel_end junk mbd k = Some (Inr (Machine_ended k1))
      \<and> written_to DATA_REG (k_trace k1) = sent \<and> hd (k_trace k1) = Out8 0xF4 0 \<and> unat (tick k1) = unat (tick k) + 1024
      \<and> heap_blocks hi (k_heap k1) = [Free (hi - unat kernel_end - 8)]"
    and "\<exists>k2. services_test False E (rtc_irq E) test_arr msg helloworld orig kernel_end junk mbd k = Some (Inr (Final_loop k2))
      \<and> written_to DATA_REG (k_trace k2) = sent @ probe_report b s io v w mm ((!) (mac_bytes v w))
      \<and> hd (k_trace k2) = Out8 0xF4 0 \<and> unat (tick k2) = unat (tick k) + 1024
      \<and> heap_blocks hi (k_heap k2) = [Free (hi - unat kernel_end - 8)]"
proof -
  have env: "env_ok E" using boot(1) by (simp add: machine_ok_def)
  obtain k1 where k1: "boot_services E kernel_end junk mbd k = Some (Inr k1)"
      "interruptList k1 = (interruptList k)[0x24 := Some Uart_irq, 0x28 := Some Process_rtc_interrupt]" "lastIdx k1 = -1"
      "tick k1 = tick k" "log_ok k1" "heap_inv hi (k_heap k1)" "freeSegment (k_heap k1) = kernel_end"
      "heap_blocks hi (k_heap k1) = [Free (hi - unat kernel_end - 8)]"
      "\<And>x. unat x < unat kernel_end \<or> unat kernel_end + 8 \<le> unat x \<Longrightarrow> bytes (k_heap k1) x = bytes (k_heap k) x"
      "reported k1 (written_to DATA_REG (k_trace k) @ [0x03, 0xAE] @ flushed ls @ hello_line name
          @ date_line (date_of (cmos_file init (k_trace k))))"
    using boot_services_spec [OF boot(1,2), folded hi(1)] report by metis
  have mm: "unat (mm + of_nat i) < unat kernel_end \<or> hi \<le> unat (mm + of_nat i)"
      "unat (mm + of_nat i) < unat orig \<or> unat orig + 4 \<le> unat (mm + of_nat i)" if "i < 6" for i
    using area that by (simp_all add: test_area_free_def)
  define T where "T = written_to DATA_REG (k_trace k) @ [0x03, 0xAE] @ flushed ls @ hello_line name
      @ date_line (date_of (cmos_file init (k_trace k)))"
  have T: "reported k1 T" using k1(10) by (simp add: T_def)
  have clock: "no_futures k1" "unat (tick k1) + 1024 < 2 ^ 32"
    using k1(2,3,4) boot(1,3) by (simp_all add: no_futures_def rtc_registered_def machine_ok_def)
  have "16 \<le> unat (freeSegment (k_heap k1))" "80 \<le> hi - unat kernel_end - 8" 
    using boot(2) hi(2) by (auto simp: k1(7) loader_ok_def KERNEL_START_def word_le_nat_alt)
  note heap = k1(6) this(1) k1(8) _ this(2)
  have orig: "unat orig + 4 \<le> 2 ^ 32" "unat orig + 4 \<le> unat (freeSegment (k_heap k1)) \<or> hi \<le> unat orig"
    using area by (auto simp: test_area_free_def k1(7))
  have "bytes (k_heap k1) (mm + of_nat i) = bytes (k_heap k) (mm + of_nat i)" if "i < 6" for i
    using mm(1) [OF that] hi(2) by (intro k1(9)) linarith
  then have mac: "map (\<lambda>i. bytes (k_heap k1) (mm + of_nat i)) [0..<6] = mac_bytes v w"
    unfolding card(4) [symmetric] by simp
  have out: "outside hi (k_heap k1) (mm + of_nat i) \<and> (unat (mm + of_nat i) < unat orig \<or> unat orig + 4 \<le> unat (mm + of_nat i))"
    if "i < 6" for i
    using mm [OF that] by (simp add: outside_def k1(7))
  have T_sent: "T @ first_lines @ last_lines = sent" by (simp add: T_def sent)
  obtain k2 where k2: "run_tests E (rtc_irq E) test_arr msg helloworld orig k1 = Some (Inr k2)"
      "heap_blocks hi (k_heap k2) = [Free (hi - unat kernel_end - 8)]" "unat (tick k2) = unat (tick k) + 1024"
      "written_to DATA_REG (k_trace k2) = sent" "hd (k_trace k2) = Out8 0xF4 0"
      "reported k2 sent" "map (\<lambda>i. bytes (k_heap k2) (mm + of_nat i)) [0..<6] = mac_bytes v w"
    using run_tests_spec [OF env T clock arr heap orig card(1-3) mac out, of msg helloworld]
    unfolding T_sent k1(4,8) by auto
  then show "\<exists>k1. services_test True E (rtc_irq E) test_arr msg helloworld orig kernel_end junk mbd k = Some (Inr (Machine_ended k1))
      \<and> written_to DATA_REG (k_trace k1) = sent \<and> hd (k_trace k1) = Out8 0xF4 0 \<and> unat (tick k1) = unat (tick k) + 1024
      \<and> heap_blocks hi (k_heap k1) = [Free (hi - unat kernel_end - 8)]"
    using k1(1) by (simp add: services_test_def)
  obtain l where l: "probe_network_card E k2 = Some (Inr (k2\<lparr>k_log := l\<rparr>))"
      "written_to DATA_REG (trace (con l)) = sent @ probe_report b s io v w mm (\<lambda>i. bytes (k_heap k2) (mm + of_nat i))"
    using probe_network_card_spec [OF env k2(6) card(1-3)] by blast
  have "mac_text (\<lambda>i. bytes (k_heap k2) (mm + of_nat i)) = mac_text ((!) (mac_bytes v w))"
    by (rule mac_text_cong) (simp flip: k2(7))
  then have "probe_report b s io v w mm (\<lambda>i. bytes (k_heap k2) (mm + of_nat i)) = probe_report b s io v w mm ((!) (mac_bytes v w))"
    by (simp add: probe_report_def)
  moreover have "k_trace (k2\<lparr>k_log := l\<rparr>) = trace (con l)" by (simp add: k_trace_def)
  ultimately show "\<exists>k2. services_test False E (rtc_irq E) test_arr msg helloworld orig kernel_end junk mbd k = Some (Inr (Final_loop k2))
      \<and> written_to DATA_REG (k_trace k2) = sent @ probe_report b s io v w mm ((!) (mac_bytes v w))
      \<and> hd (k_trace k2) = Out8 0xF4 0 \<and> unat (tick k2) = unat (tick k) + 1024
      \<and> heap_blocks hi (k_heap k2) = [Free (hi - unat kernel_end - 8)]"
    using k1(1) k2(1-3) l
    by (intro exI [of _ "upd_trace (exit_debug 0) (k2\<lparr>k_log := l\<rparr>)"])
      (simp add: services_test_def exit_debug_def outb_def DATA_REG_def COM1_def)
qed

text \<open>
  C10. A TEST build from its services on, on a machine whose serial port echoes, whose clock holds a
  plausible date and whose card shows the same address through its ports and its memory, with 88
  bytes or more behind the kernel image: the services come up, the self tests pass and 0 is written to
  the exit port. With the device of \<open>qemu.sh\<close> attached the machine ends there: the bytes sent over the
  data port are exactly those of before, the two of \<open>init_serial\<close> (a divisor and the byte of the
  loopback test), the lines pending before, the line with the name of the boot loader, the date and the
  lines of the tests, and nothing is sent of the probe. With nothing attached (the debugging
  call of \<open>qemu.sh\<close>) the kernel goes on, reports the card, writes 0 to the exit port once more and runs on
  in its final loop. In both cases 1024 ticks have passed in the four seconds of the clock's test, and
  every block the tests allocated is free again.
\<close>

theorem test_build_exits_with_zero:
  assumes boot: "machine_ok E init k" "loader_ok kernel_end mbd entry (k_heap k)" "unat (tick k) + 1024 < 2 ^ 32"
    and hi: "hi = unat KERNEL_START + unat (me_len entry)" "unat kernel_end + 88 \<le> hi"
    and arr: "length test_arr = 100" "0 \<in> set test_arr"
    and area: "test_area_free orig mm kernel_end hi"
    and card: "pci_bus cfg (devs E)" "card_at cfg b s io mm" "card_registers (devs E) io v w"
      "map (\<lambda>i. bytes (k_heap k) (mm + of_nat i)) [0..<6] = mac_bytes v w"
    and report: "log_rel ls (k_log k)" "length name \<le> 60"
      "string_at (bytes (k_heap k)) (mbd_boot_loader_name (bytes (k_heap k)) mbd) (2 ^ 32) = Some name"
    and sent: "sent = written_to DATA_REG (k_trace k) @ [0x03, 0xAE] @ flushed ls @ hello_line name
      @ date_line (date_of (cmos_file init (k_trace k))) @ first_lines @ last_lines"
  shows "(\<exists>k1. services_test True E (rtc_irq E) test_arr msg helloworld orig kernel_end junk mbd k = Some (Inr (Machine_ended k1))
        \<and> written_to DATA_REG (k_trace k1) = sent \<and> hd (k_trace k1) = Out8 0xF4 0 \<and> unat (tick k1) = unat (tick k) + 1024
        \<and> heap_blocks hi (k_heap k1) = [Free (hi - unat kernel_end - 8)])
    \<and> (\<exists>k2. services_test False E (rtc_irq E) test_arr msg helloworld orig kernel_end junk mbd k = Some (Inr (Final_loop k2))
        \<and> written_to DATA_REG (k_trace k2) = sent @ probe_report b s io v w mm ((!) (mac_bytes v w))
        \<and> hd (k_trace k2) = Out8 0xF4 0 \<and> unat (tick k2) = unat (tick k) + 1024
        \<and> heap_blocks hi (k_heap k2) = [Free (hi - unat kernel_end - 8)])"
  using services_test_spec [OF assms] by (rule conjI)

theorem test_build_exits_with_zero_witness:
  "let sent = [0x03, 0xAE] @ hello_line [] @ date_line (date_of (\<lambda>_. 0)) @ first_lines @ last_lines;
       run = (\<lambda>attached. services_test attached boot_card_env (rtc_irq boot_card_env) (replicate 100 0) (replicate 100 0) 0x10000 0x9000
         0x1070A8 new_year 0x500 loaded_kernel)
   in (\<exists>k1. run True = Some (Inr (Machine_ended k1)) \<and> written_to DATA_REG (k_trace k1) = sent \<and> hd (k_trace k1) = Out8 0xF4 0
         \<and> unat (tick k1) = 1024 \<and> heap_blocks 0x7FE0000 (k_heap k1) = [Free 0x7ED8F50])
    \<and> (\<exists>k2. run False = Some (Inr (Final_loop k2))
         \<and> written_to DATA_REG (k_trace k2) = sent @ probe_report 0 3 0xC000 0 0 0xFEBC0000 ((!) (mac_bytes 0 0))
         \<and> hd (k_trace k2) = Out8 0xF4 0 \<and> unat (tick k2) = 1024 \<and> heap_blocks 0x7FE0000 (k_heap k2) = [Free 0x7ED8F50])"
proof -
  let ?entry = "\<lparr>me_size = 20, me_addr = 0x100000, me_len = 0x7EE0000, me_type = 1\<rparr>"
  have tick: "unat (tick loaded_kernel) + 1024 < 2 ^ 32" by (simp add: loaded_kernel_facts)
  have hi: "unat (0x1070A8 :: u32) + 88 \<le> unat KERNEL_START + unat (me_len ?entry)" by (simp add: KERNEL_START_def)
  have arr: "length (replicate 100 0 :: u8 list) = 100" "0 \<in> set (replicate 100 0 :: u8 list)" by simp_all
  have "unat (0xFEBC0000 + of_nat i :: u32) = 0xFEBC0000 + i" if "i < 6" for i
    using that unat_plus_small [of "0xFEBC0000" i] by simp
  then have area: "test_area_free 0x9000 0xFEBC0000 0x1070A8 (unat KERNEL_START + unat (me_len ?entry))"
    by (simp add: test_area_free_def KERNEL_START_def)
  have mac: "map (\<lambda>i. bytes (k_heap loaded_kernel) (0xFEBC0000 + of_nat i)) [0..<6] = mac_bytes 0 0"
    by (simp add: loaded_kernel_def boot_memory_def store32_def mac_bytes_def upt_rec)
  have hi': "0x7FE0000 = unat KERNEL_START + unat (me_len ?entry)" by (simp add: KERNEL_START_def)
  have f: "unat (tick loaded_kernel) = 0" "flushed [] = []" by (simp_all add: loaded_kernel_facts flushed_def)
  have n: "0x7FE0000 - unat (0x1070A8 :: u32) - 8 = 0x7ED8F50" by simp
  note both = test_build_exits_with_zero [OF boot_card_env_facts(1) loaded_kernel_facts(2) tick hi' hi [folded hi'] arr area [folded hi']
      boot_card_env_facts(2) card_env_facts(3) boot_card_env_facts(3) mac loaded_kernel_facts(3) _ loaded_kernel_facts(1) refl]
  from both show ?thesis unfolding f n Let_def by (simp add: loaded_kernel_facts(4))
qed

end
