(* ===== verification/Boot_Debug.thy ===== *)
theory Boot_Debug
  imports Boot_Map
begin

text \<open>
  What a DEBUG build adds to \<open>initialize_free_segments\<close> (kernel/kernel/allocator.c) and to
  \<open>kernel_main\<close> (kernel/kernel/kernel.c). The lines it logs change no more than the log: the heap
  is the one of the other builds.
\<close>

definition k_initialize_free_segments_debug :: "env \<Rightarrow> u32 \<Rightarrow> u32 \<Rightarrow> kernel \<Rightarrow> kernel effect" where
  "k_initialize_free_segments_debug E kernel_end mbd k =
     bindE (k_LOG E ''kernel/allocator.c'' 20 ''initialize_free_segments START'' [] k) (\<lambda>k.
     bindE (k_assert E (mbd \<noteq> 0) ''mbd is NULL'' k) (\<lambda>k.
     bindE (k_assert E (freeSegment (k_heap k) = 0) ''freeSegment is already initialized'' k) (\<lambda>k.
     bindE (liftE (find_big_block (bytes (k_heap k)) mbd 0)) (\<lambda>found.
     bindE (case found of None \<Rightarrow> Some (Inr k) | Some mmmt \<Rightarrow>
       k_LOG E ''kernel/allocator.c'' 36 ''FOUND MATCHING: Size: %u : Addr: 0x%x : Len %lluK : Type %u''
         ([VWord (me_size mmmt)] @ va64 (me_addr mmmt) @ va64 (me_len mmmt div 1024) @ [VWord (me_type mmmt)]) k) (\<lambda>k.
     case found of None \<Rightarrow> k_panics E ''Could not find a big block of memory!'' k
     | Some entry \<Rightarrow>
       let reserved_mem_length = kernel_end - KERNEL_START;
           big_block_size = ucast (me_len entry - ucast reserved_mem_length - 8 :: u64) :: u32;
           m = set_size (bytes (k_heap k)) kernel_end big_block_size;
           m = set_next m kernel_end 0;
           h = (k_heap k)\<lparr>bytes := m, freeSegment := kernel_end\<rparr>
       in k_LOG E ''kernel/allocator.c'' 57 ''Free memory: %d''
            [VWord (seg_size (bytes h) (freeSegment h))] (k\<lparr>k_heap := h\<rparr>))))))"

definition boot_services_debug :: "env \<Rightarrow> u32 \<Rightarrow> DateTime \<Rightarrow> u32 \<Rightarrow> u32 \<Rightarrow> kernel \<Rightarrow> kernel effect" where
  "boot_services_debug E kernel_end junk mbd magic k =
     bindE (init_serial E k) (\<lambda>(r, k).
     bindE (k_assert E (r = 0) ''Could not initialize serial port'' k) (\<lambda>k.
     bindE (log_bootloader E mbd k) (\<lambda>k.
     bindE (parse_multiboot_info E kernel_end mbd magic k) (\<lambda>k.
     bindE (k_initialize_free_segments_debug E kernel_end mbd k) (\<lambda>k.
     bindE (configure_rtc E k) (\<lambda>k.
     bindE (k_LOG E ''kernel/kernel.c'' 54 ''reading before lgdt done'' [] k) (\<lambda>k.
     bindE (read_gdt E k) (\<lambda>k.
     bindE (k_get_date_time E junk k) (\<lambda>(date_time, k).
     bindE (print_date_time E date_time k) (\<lambda>k.
       Some (Inr (init_futures k))))))))))))"

definition kernel_main_debug :: "env \<Rightarrow> u32 \<Rightarrow> AccessByte \<Rightarrow> AccessByte \<Rightarrow> DateTime \<Rightarrow> u32 \<Rightarrow> u32 \<Rightarrow> kernel \<Rightarrow> kernel effect" where
  "kernel_main_debug E kernel_end j1 j2 junk mbd magic k =
     bindE (boot_tables E j1 j2 k) (\<lambda>k.
     bindE (boot_services_debug E kernel_end junk mbd magic k) (\<lambda>k.
       probe_network_card E k))"

subsection \<open>The lines\<close>

definition debug_text :: "mmap_entry \<Rightarrow> u8 list" where
  "debug_text e = lit ''FOUND MATCHING: '' @ entry_text e"

lemma debug_pieces:
  "pieces (lit ''FOUND MATCHING: Size: %u : Addr: 0x%x : Len %lluK : Type %u'') =
    map_option (\<lambda>ps. map Plain (lit ''FOUND MATCHING: '') @ ps) (pieces (lit ''Size: %u : Addr: 0x%x : Len %lluK : Type %u''))"
  by code_simp

lemma debug_short_log:
  assumes "printable e"
  shows "short_log ''kernel/allocator.c'' 36 ''FOUND MATCHING: Size: %u : Addr: 0x%x : Len %lluK : Type %u''
    ([VWord (me_size e)] @ va64 (me_addr e) @ va64 (me_len e div 1024) @ [VWord (me_type e)])"
proof -
  have r: "render (lit ''FOUND MATCHING: Size: %u : Addr: 0x%x : Len %lluK : Type %u'')
      ([VWord (me_size e)] @ va64 (me_addr e) @ va64 (me_len e div 1024) @ [VWord (me_type e)]) = Some (debug_text e)"
    using entry_rendered [OF assms] unfolding render_def debug_pieces debug_text_def entry_pieces
    by (simp add: print_pieces_plain)
  have "length (prefix_text (lit ''INFO'') (lit ''kernel/allocator.c'') 36) < 100" by code_simp
  moreover have "0 \<notin> set (debug_text e)"
    unfolding debug_text_def entry_text_def by (simp add: decimal_no_nul hex_no_nul) (simp add: lit_def)
  moreover have "length (debug_text e) \<le> 100"
    unfolding debug_text_def entry_text_def
    using length_decimal_sint [of "me_size e"] length_decimal_sint [of "ucast (drop_bit 32 (me_addr e))"]
      length_decimal_sint [of "ucast (drop_bit 32 (me_len e div 1024))"]
    by (simp add: lit_def)
  moreover have "0 \<notin> set (lit ''FOUND MATCHING: Size: %u : Addr: 0x%x : Len %lluK : Type %u'')" by code_simp
  ultimately show ?thesis by (simp add: short_log_def r [simplified])
qed

lemma start_short_log: "short_log ''kernel/allocator.c'' 20 ''initialize_free_segments START'' []"
  by code_simp

lemma free_memory_short_log:
  assumes "v \<noteq> 0x80000000"
  shows "short_log ''kernel/allocator.c'' 57 ''Free memory: %d'' [VWord v]"
proof -
  have p: "pieces (lit ''Free memory: %d'') = Some (map Plain (lit ''Free memory: '') @ [Arg_d])" by code_simp
  have r: "render (lit ''Free memory: %d'') [VWord v] = Some (lit ''Free memory: '' @ decimal (sint v))"
    unfolding render_def p using assms by (simp add: print_pieces_plain print_signed_def)
  have "length (prefix_text (lit ''INFO'') (lit ''kernel/allocator.c'') 57) < 100" by code_simp
  then show ?thesis
    using length_decimal_sint [of v] by (simp add: short_log_def r decimal_no_nul) (simp add: lit_def)
qed

lemma k_LOG_only:
  assumes "env_ok E" "log_ok k" "short_log file line fmt args"
  shows "\<exists>l. k_LOG E file line fmt args k = Some (Inr (k\<lparr>k_log := l\<rparr>)) \<and> log_ok (k\<lparr>k_log := l\<rparr>)"
proof -
  obtain k' where k': "k_LOG E file line fmt args k = Some (Inr k')" "logged k k'" using k_LOG_spec [OF assms] by blast
  then have "k' = k\<lparr>k_log := k_log k'\<rparr>" "log_ok k'" by (simp_all add: logged_def)
  then show ?thesis using k'(1) by metis
qed

subsection \<open>The heap is the same\<close>

text \<open>
  With and without DEBUG, \<open>initialize_free_segments\<close> makes the same heap or fails with the same
  assertion, for entries whose line can be printed; only the log differs.
\<close>

theorem debug_heap_the_same:
  assumes "env_ok E" "log_ok k"
    and "\<And>entry. find_big_block (bytes (k_heap k)) mbd 0 = Inr (Some entry) \<Longrightarrow> printable entry
      \<and> ucast (me_len entry - ucast (kernel_end - KERNEL_START) - 8 :: u64) \<noteq> (0x80000000 :: u32)"
    and "unat kernel_end + 8 \<le> 2 ^ 32"
  shows "case initialize_free_segments kernel_end (k_heap k) mbd of
      Inl e \<Rightarrow> k_initialize_free_segments_debug E kernel_end mbd k = Some (Inl e)
    | Inr h \<Rightarrow> \<exists>l. k_initialize_free_segments_debug E kernel_end mbd k = Some (Inr (k\<lparr>k_heap := h, k_log := l\<rparr>))"
proof -
  obtain l1 where 1: "k_LOG E ''kernel/allocator.c'' 20 ''initialize_free_segments START'' [] k = Some (Inr (k\<lparr>k_log := l1\<rparr>))"
      "log_ok (k\<lparr>k_log := l1\<rparr>)"
    using k_LOG_only [OF assms(1,2) start_short_log] by blast
  have p: "k_panics E msg (k\<lparr>k_log := l1\<rparr>) = (Some (Inl (Panic msg)) :: kernel effect)" if "length msg \<le> 900" for msg
  proof -
    have "length (c_content (lit msg)) \<le> length msg"
      unfolding c_content_def by (rule order.trans [OF length_takeWhile_le]) (simp add: lit_def)
    then have "length (c_content (lit msg)) \<le> 900" using that by linarith
    then show ?thesis by (rule k_panics_spec [OF assms(1) 1(2)])
  qed
  note defs = k_initialize_free_segments_debug_def initialize_free_segments_def k_assert_def 1(1) p
  consider "mbd = 0" | "mbd \<noteq> 0" "freeSegment (k_heap k) \<noteq> 0"
    | e where "mbd \<noteq> 0" "freeSegment (k_heap k) = 0" "find_big_block (bytes (k_heap k)) mbd 0 = Inl e"
    | "mbd \<noteq> 0" "freeSegment (k_heap k) = 0" "find_big_block (bytes (k_heap k)) mbd 0 = Inr None"
    | entry where "mbd \<noteq> 0" "freeSegment (k_heap k) = 0" "find_big_block (bytes (k_heap k)) mbd 0 = Inr (Some entry)"
    by (metis option.exhaust sum.exhaust)
  then show ?thesis
  proof cases
    case 5
    note entry = assms(3) [OF 5(3)]
    let ?s = "ucast (me_len entry - ucast (kernel_end - KERNEL_START) - 8 :: u64) :: u32"
    define h where "h = (k_heap k)\<lparr>bytes := set_next (set_size (bytes (k_heap k)) kernel_end ?s) kernel_end 0, freeSegment := kernel_end\<rparr>"
    have i: "initialize_free_segments kernel_end (k_heap k) mbd = Inr h"
      by (simp add: initialize_free_segments_def 5 Let_def h_def)
    have s: "seg_size (bytes h) kernel_end = ?s" by (simp add: h_def hdr_self [OF assms(4)] hdr_same)
    obtain l2 where 2: "k_LOG E ''kernel/allocator.c'' 36 ''FOUND MATCHING: Size: %u : Addr: 0x%x : Len %lluK : Type %u''
        ([VWord (me_size entry)] @ va64 (me_addr entry) @ va64 (me_len entry div 1024) @ [VWord (me_type entry)]) (k\<lparr>k_log := l1\<rparr>)
          = Some (Inr (k\<lparr>k_log := l2\<rparr>))" "log_ok (k\<lparr>k_log := l2\<rparr>)"
      using k_LOG_only [OF assms(1) 1(2) debug_short_log [of entry]] entry by auto
    have "log_ok (k\<lparr>k_log := l2, k_heap := h\<rparr>)" using 2(2) by (simp add: log_ok_def)
    then obtain l3 where 3: "k_LOG E ''kernel/allocator.c'' 57 ''Free memory: %d'' [VWord (seg_size (bytes h) kernel_end)]
        (k\<lparr>k_log := l2, k_heap := h\<rparr>) = Some (Inr (k\<lparr>k_log := l2, k_heap := h\<rparr>\<lparr>k_log := l3\<rparr>))"
      using k_LOG_only [OF assms(1) _ free_memory_short_log [of ?s]] entry unfolding s by blast
    have v: "seg_size (set_next (set_size (bytes (k_heap k)) kernel_end ?s) kernel_end 0) kernel_end = ?s"
      using s by (simp add: h_def)
    have "k_initialize_free_segments_debug E kernel_end mbd k = Some (Inr (k\<lparr>k_log := l2, k_heap := h\<rparr>\<lparr>k_log := l3\<rparr>))"
      using 3 [unfolded s] 2(1)
      by (simp add: k_initialize_free_segments_debug_def k_assert_def 1(1) 5 liftE_def Let_def v flip: h_def)
    then show ?thesis by (auto simp: i intro!: exI [of _ l3])
  qed (simp_all add: defs liftE_def)
qed

text \<open>The DEBUG build has the undefined call of \<open>read_gdt\<close>, too.\<close>

theorem kernel_main_debug_undefined:
  assumes "env_ok E" "log_ok k"
  shows "\<exists>e. kernel_main_debug E kernel_end j1 j2 junk mbd magic k = Some (Inl e)"
proof -
  have "log_ok (k_terminal_initialize k)" using assms(2) by (simp add: log_ok_def log_rel_def k_terminal_initialize_def)
  from init_gdt_spec [OF assms(1) this] obtain k1 where k1: "init_gdt E j1 j2 (k_terminal_initialize k) = Some (Inr k1)" "log_ok k1"
    by blast
  obtain e where "read_gdt E k1 = Some (Inl e)" using read_gdt_spec [OF assms(1) k1(2)] by blast
  then show ?thesis using k1(1) by (simp add: kernel_main_debug_def boot_tables_def)
qed

end
