(* ===== verification/Abort.thy ===== *)
theory Abort
  imports Report
begin

text \<open>
  \<open>abort\<close> (libc/stdlib/abort.c, as it is built for the kernel) and the resume function that
  kernel/kernel/kernel.c offers to futures. The kernel calls neither.
\<close>

text \<open>The empty loop.\<close>

partial_function (option) forever :: "kernel \<Rightarrow> kernel effect" where
  "forever k = forever k"

definition abort :: "env \<Rightarrow> kernel \<Rightarrow> kernel effect" where
  "abort E k = bindE (k_printf E (lit ''kernel: panic: abort()'' @ [10]) [] k) forever"

definition fut_resume_func :: "env \<Rightarrow> u32 \<Rightarrow> kernel \<Rightarrow> kernel effect" where
  "fut_resume_func E ctx k = k_printf E (lit ''resume func called'' @ [10]) [] k"

lemma forever_runs_on: "forever k = None"
proof (rule ccontr)
  assume "forever k \<noteq> None"
  then obtain r where "forever k = Some r" by blast
  then show False by (rule forever.raw_induct [rotated, where P = "\<lambda>_ _. False"])
qed

lemma k_printf_text:
  assumes "env_ok E" "0 \<notin> set fs" "render fs args = Some bs" "length bs < 1024"
  shows "\<exists>l. k_printf E fs args k = Some (Inr (k\<lparr>k_log := l\<rparr>))
    \<and> written_to DATA_REG (trace (con l)) = written_to DATA_REG (k_trace k) @ bs"
proof -
  have e: "length (stack E) = 1024" "transmitter_empties (devs E)" using assms(1) by (auto simp: env_ok_def)
  have "length bs < 2 ^ 32" using assms(4) by simp
  from printf_spec(1) [OF assms(2) e assms(3) this assms(4), of "con (k_log k)"] show ?thesis
    by (auto simp: k_printf_def on_log_def prints_def k_trace_def)
qed

text \<open>
  \<open>abort\<close> sends its line over the serial port and does not return; the resume function sends
  its line and changes nothing else.
\<close>

theorem abort_prints_and_hangs:
  assumes "env_ok E"
  shows "abort E k = None"
    and "\<exists>l. k_printf E (lit ''kernel: panic: abort()'' @ [10]) [] k = Some (Inr (k\<lparr>k_log := l\<rparr>))
      \<and> written_to DATA_REG (trace (con l)) = written_to DATA_REG (k_trace k) @ lit ''kernel: panic: abort()'' @ [10]"
    and "\<exists>l. fut_resume_func E ctx k = Some (Inr (k\<lparr>k_log := l\<rparr>))
      \<and> written_to DATA_REG (trace (con l)) = written_to DATA_REG (k_trace k) @ lit ''resume func called'' @ [10]"
proof -
  have r: "render (lit ''kernel: panic: abort()'' @ [10]) [] = Some (lit ''kernel: panic: abort()'' @ [10])"
    "render (lit ''resume func called'' @ [10]) [] = Some (lit ''resume func called'' @ [10])"
    by code_simp+
  show 1: "\<exists>l. k_printf E (lit ''kernel: panic: abort()'' @ [10]) [] k = Some (Inr (k\<lparr>k_log := l\<rparr>))
      \<and> written_to DATA_REG (trace (con l)) = written_to DATA_REG (k_trace k) @ lit ''kernel: panic: abort()'' @ [10]"
    using k_printf_text [OF assms _ r(1), of k] by (simp add: lit_def)
  show "abort E k = None" using 1 by (auto simp: abort_def forever_runs_on)
  show "\<exists>l. fut_resume_func E ctx k = Some (Inr (k\<lparr>k_log := l\<rparr>))
      \<and> written_to DATA_REG (trace (con l)) = written_to DATA_REG (k_trace k) @ lit ''resume func called'' @ [10]"
    using k_printf_text [OF assms _ r(2), of k] by (simp add: fut_resume_func_def lit_def)
qed

end
