(* ===== verification/Serial_Async.thy ===== *)
theory Serial_Async
  imports Rtc
begin

text \<open>
  \<open>serial_write\<close> (kernel/kernel/io/uart.c): every byte awaits an I/O future that asks for the
  transmitter, and the interrupt of the serial port wakes the waiting loop up. \<open>init_serial\<close> enables
  the interrupt of the port that comes when the transmitter gets empty. What the port does is stated
  from its documentation: a byte is gone in bounded time, the transmitter stays empty until the next
  byte is written, and the interrupt comes once each time the transmitter goes from busy to empty.
  Until then the processor is woken from \<open>hlt\<close> by the clock. The contract between the waiting code
  and the interrupts is the locale \<open>serial_waker\<close>; the kernel's dispatcher fulfils it with \<open>uart_irq\<close> and
  the clock driver registered.
\<close>

unbundle bit_operations_syntax

subsection \<open>The transmitter\<close>

definition transmit_ready :: "devices \<Rightarrow> trace \<Rightarrow> bool" where
  "transmit_ready D tr \<longleftrightarrow> dev8 D tr LINE_STATUS_REG AND 0x20 \<noteq> 0"

text \<open>
  Time is counted in events: \<open>idle\<close> is the number of them since the last byte was written. It takes
  a bounded number of events to send a byte, and only the write of a byte makes the transmitter busy.
\<close>

definition transmits_in_time :: "devices \<Rightarrow> bool" where
  "transmits_in_time D \<longleftrightarrow> (\<exists>n. \<forall>tr. n \<le> idle tr \<longrightarrow> transmit_ready D tr)
     \<and> (\<forall>e tr. transmit_ready D tr \<longrightarrow> \<not> sends e \<longrightarrow> transmit_ready D (e # tr))"

text \<open>The end of an interrupt of the first controller; that of the second one ends the second first.\<close>

fun ends_first :: "trace \<Rightarrow> bool" where
  "ends_first (e # Out8 q w # tr) = (e = Out8 PIC1_COMMAND 0x20 \<and> \<not> (q = PIC2_COMMAND \<and> w = 0x20))"
| "ends_first (e # tr) = (e = Out8 PIC1_COMMAND 0x20)"
| "ends_first [] = False"

text \<open>
  The interrupt of the port is still to come while the transmitter has been busy since the last one,
  and it is there when the transmitter is empty.
\<close>

fun interrupt_owed :: "devices \<Rightarrow> trace \<Rightarrow> bool" where
  "interrupt_owed D [] = (\<not> transmit_ready D [])"
| "interrupt_owed D (e # tr) = (\<not> transmit_ready D (e # tr) \<or> \<not> ends_first (e # tr) \<and> interrupt_owed D tr)"

definition port_interrupts :: "devices \<Rightarrow> trace \<Rightarrow> bool" where
  "port_interrupts D tr \<longleftrightarrow> transmit_ready D tr \<and> interrupt_owed D tr"

text \<open>Events that send no byte.\<close>

definition unsent :: "trace \<Rightarrow> trace \<Rightarrow> bool" where
  "unsent tr tr' \<longleftrightarrow> (\<exists>es. tr' = es @ tr \<and> list_all (Not \<circ> sends) es)"

lemma unsent_refl [simp]: "unsent tr tr"
  by (simp add: unsent_def)

lemma unsent_trans: "unsent a b \<Longrightarrow> unsent b c \<Longrightarrow> unsent a c"
  unfolding unsent_def by (metis append_assoc list_all_append)

lemma unsent_Cons: "\<not> sends e \<Longrightarrow> unsent tr tr' \<Longrightarrow> unsent tr (e # tr')"
  unfolding unsent_def by (metis append_Cons comp_apply list.pred_inject(2))

lemma unsent_induct [consumes 1, case_names refl step]:
  assumes "unsent tr tr'" "P tr" "\<And>e t. \<not> sends e \<Longrightarrow> P t \<Longrightarrow> P (e # t)"
  shows "P tr'"
proof -
  have "list_all (Not \<circ> sends) es \<Longrightarrow> P (es @ tr)" for es
    by (induction es) (simp_all add: assms(2,3))
  then show ?thesis using assms(1) by (auto simp: unsent_def)
qed

lemma not_sent: "\<not> sends e \<Longrightarrow> written_to DATA_REG (e # tr) = written_to DATA_REG tr"
  by (cases e) auto

lemma unsent_written: "unsent tr tr' \<Longrightarrow> written_to DATA_REG tr' = written_to DATA_REG tr"
  by (induction rule: unsent_induct) (simp_all add: not_sent)

lemma unsent_idle: "unsent tr tr' \<Longrightarrow> idle tr \<le> idle tr'"
  by (induction rule: unsent_induct) (simp_all add: idle_def)

lemma ready_kept:
  assumes "transmits_in_time D" "unsent tr tr'" "transmit_ready D tr"
  shows "transmit_ready D tr'"
  using assms(2,3) by (induction rule: unsent_induct) (use assms(1) in \<open>auto simp: transmits_in_time_def\<close>)

lemma owed_kept: "interrupt_owed D tr \<Longrightarrow> e \<noteq> Out8 PIC1_COMMAND 0x20 \<Longrightarrow> interrupt_owed D (e # tr)"
  by (cases tr; cases "hd tr") simp_all

lemma owed_busy: "\<not> transmit_ready D tr \<Longrightarrow> interrupt_owed D tr"
  by (cases tr) simp_all

lemma k_trace_flag [simp]: "k_trace (k\<lparr>SHOULD_POLL := b\<rparr>) = k_trace k" "k_trace (k\<lparr>tick := t\<rparr>) = k_trace k"
  by (simp_all add: k_trace_def)

subsection \<open>Waiting and writing\<close>

locale serial_waker =
  fixes D :: devices and irq :: "kernel \<Rightarrow> kernel effect" and good :: "kernel \<Rightarrow> bool"
  assumes in_time: "good k \<Longrightarrow> transmits_in_time D"
    and irq_runs: "good k \<Longrightarrow> interrupt_owed D (k_trace k) \<Longrightarrow> \<exists>k'. irq k = Some (Inr k') \<and> good k' \<and> unsent (k_trace k) (k_trace k')
      \<and> SHOULD_POLL k' = transmit_ready D (k_trace k) \<and> (SHOULD_POLL k' \<or> interrupt_owed D (k_trace k'))"
    and good_trace: "good k \<Longrightarrow> good (upd_trace f k)"
    and good_flag: "good k \<Longrightarrow> good (k\<lparr>SHOULD_POLL := b\<rparr>)"
begin

lemma poll_serial:
  assumes "devs E = D"
  shows "poll E create_serial_future k = Some (Inr (transmit_ready D (k_trace k),
    upd_trace ((#) (In8 LINE_STATUS_REG (dev8 D (k_trace k) LINE_STATUS_REG))) k))"
  using assms by (simp add: poll_def create_serial_future_def is_transmit_ready_def inb_def transmit_ready_def Let_def)
    (simp add: upd_trace_def)

lemma await_loop_ready:
  assumes "devs E = D" "good k" "transmit_ready D (k_trace k)"
  shows "\<exists>k'. await_loop E irq create_serial_future k = Some (Inr k') \<and> good k' \<and> transmit_ready D (k_trace k')
    \<and> unsent (k_trace k) (k_trace k')"
proof -
  let ?tr = "In8 LINE_STATUS_REG (dev8 D (k_trace k) LINE_STATUS_REG) # k_trace k"
  have u: "unsent (k_trace k) ?tr" by (simp add: unsent_Cons)
  then show ?thesis
    using assms(2,3) poll_serial [OF assms(1), of k] ready_kept [OF in_time [OF assms(2)] u]
    by (subst await_loop.simps) (simp add: good_trace)
qed

lemma wait_poll_serial:
  assumes "\<forall>tr. n \<le> idle tr \<longrightarrow> transmit_ready D tr"
  shows "good k \<Longrightarrow> interrupt_owed D (k_trace k) \<Longrightarrow> \<not> SHOULD_POLL k \<Longrightarrow>
    \<exists>k'. wait_poll irq k = Some (Inr k') \<and> good k' \<and> transmit_ready D (k_trace k') \<and> unsent (k_trace k) (k_trace k')"
proof (induction "n - idle (k_trace k)" arbitrary: k rule: less_induct)
  case less
  have halted: "k_trace (halt k) = Hlt # k_trace k" by (simp add: halt_def)
  have h: "good (halt k)" "interrupt_owed D (k_trace (halt k))" "unsent (k_trace k) (k_trace (halt k))"
    using less.prems(1,2) by (simp_all add: halt_def good_trace unsent_Cons owed_kept del: interrupt_owed.simps)
  obtain k1 where k1: "irq (halt k) = Some (Inr k1)" "good k1" "unsent (k_trace (halt k)) (k_trace k1)"
      "SHOULD_POLL k1 = transmit_ready D (k_trace (halt k))" "SHOULD_POLL k1 \<or> interrupt_owed D (k_trace k1)"
    using irq_runs [OF h(1,2)] by blast
  have u: "unsent (k_trace k) (k_trace k1)" using h(3) k1(3) by (rule unsent_trans)
  show ?case
  proof (cases "transmit_ready D (k_trace (halt k))")
    case True
    then have "wait_poll irq k1 = Some (Inr k1)" using k1(4) by (subst wait_poll.simps) simp
    moreover have "transmit_ready D (k_trace k1)" using ready_kept [OF in_time [OF h(1)] k1(3)] True by simp
    ultimately show ?thesis using less.prems(3) k1(1,2) u by (subst wait_poll.simps) simp
  next
    case False
    then have "idle (k_trace (halt k)) < n" using assms by (auto simp: not_less [symmetric])
    moreover have "idle (k_trace k) < idle (k_trace (halt k))" by (simp add: halted idle_def)
    ultimately have "n - idle (k_trace k1) < n - idle (k_trace k)" using unsent_idle [OF k1(3)] by linarith
    moreover have "interrupt_owed D (k_trace k1)" "\<not> SHOULD_POLL k1" using False k1(4,5) by simp_all
    ultimately obtain k' where "wait_poll irq k1 = Some (Inr k')" "good k'" "transmit_ready D (k_trace k')"
        "unsent (k_trace k1) (k_trace k')"
      using less.hyps k1(2) by blast
    then show ?thesis using less.prems(3) k1(1) unsent_trans [OF u] by (subst wait_poll.simps) auto
  qed
qed

lemma await_loop_serial:
  assumes "devs E = D" "good k"
  shows "\<exists>k'. await_loop E irq create_serial_future k = Some (Inr k') \<and> good k' \<and> transmit_ready D (k_trace k')
    \<and> unsent (k_trace k) (k_trace k')"
proof (cases "transmit_ready D (k_trace k)")
  case True
  then show ?thesis by (rule await_loop_ready [OF assms])
next
  case False
  define k1 where "k1 = (upd_trace ((#) (In8 LINE_STATUS_REG (dev8 D (k_trace k) LINE_STATUS_REG))) k)\<lparr>SHOULD_POLL := False\<rparr>"
  have k1: "good k1" "interrupt_owed D (k_trace k1)" "\<not> SHOULD_POLL k1" "unsent (k_trace k) (k_trace k1)"
    using good_trace [OF assms(2)] good_flag owed_busy [OF False]
    by (simp_all add: k1_def unsent_Cons owed_kept del: interrupt_owed.simps)
  obtain n where "\<forall>tr. n \<le> idle tr \<longrightarrow> transmit_ready D tr" using in_time [OF assms(2)] by (auto simp: transmits_in_time_def)
  from wait_poll_serial [OF this k1(1-3)] obtain k2 where k2: "wait_poll irq k1 = Some (Inr k2)" "good k2"
    "transmit_ready D (k_trace k2)" "unsent (k_trace k1) (k_trace k2)" by blast
  have "await_loop E irq create_serial_future k = await_loop E irq create_serial_future k2"
    using False poll_serial [OF assms(1), of k] k2(1) by (subst await_loop.simps) (simp add: k1_def)
  then show ?thesis
    using await_loop_ready [OF assms(1) k2(2,3)] unsent_trans [OF unsent_trans [OF k1(4) k2(4)]] by auto
qed

lemma serial_write_sends:
  assumes "devs E = D"
  shows "good k \<Longrightarrow> \<exists>k'. serial_write E irq msg k = Some (Inr k') \<and> good k'
    \<and> written_to DATA_REG (k_trace k') = written_to DATA_REG (k_trace k) @ msg"
proof (induction msg arbitrary: k)
  case (Cons c cs)
  obtain k1 where k1: "await_loop E irq create_serial_future k = Some (Inr k1)" "good k1" "transmit_ready D (k_trace k1)"
    "written_to DATA_REG (k_trace k1) = written_to DATA_REG (k_trace k)"
    using await_loop_serial [OF assms Cons.prems] unsent_written by metis
  then have a: "await E irq create_serial_future k = Some (Inr k1)"
    by (simp add: await_def create_serial_future_def delete_future_def)
  define tr where "tr = Out8 DATA_REG c # In8 LINE_STATUS_REG (dev8 D (k_trace k1) LINE_STATUS_REG) # k_trace k1"
  have "serial_putchar D c (k_trace k1) = Some tr"
    using k1(3) by (simp add: serial_putchar_def wait_transmit.simps is_transmit_ready_def inb_def outb_def
        transmit_ready_def tr_def Let_def)
  moreover have "good (upd_trace (\<lambda>_. tr) k1)" using k1(2) by (rule good_trace)
  from Cons.IH [OF this] obtain k2 where "serial_write E irq cs (upd_trace (\<lambda>_. tr) k1) = Some (Inr k2)" "good k2"
    "written_to DATA_REG (k_trace k2) = (written_to DATA_REG (k_trace k) @ [c]) @ cs"
    using k1(4) by (auto simp: tr_def)
  ultimately show ?case using a assms by simp
qed simp

end

subsection \<open>The interrupt of the serial port\<close>

text \<open>Vector 36, the line of the first serial port.\<close>

definition serial_irq :: "env \<Rightarrow> kernel \<Rightarrow> kernel effect" where
  "serial_irq E k = generic_interrupt_handler E (run_irq E) 0x24 k"

definition serial_registered :: "kernel \<Rightarrow> bool" where
  "serial_registered k \<longleftrightarrow> interruptList k ! 0x24 = Some Uart_irq"

lemma serial_irq_spec:
  assumes "serial_registered k"
  shows "serial_irq E k = Some (Inr (upd_trace ((#) (Out8 PIC1_COMMAND 0x20)) (k\<lparr>SHOULD_POLL := True\<rparr>)))"
proof -
  have "run_irq E Uart_irq k = Some (Inr (k\<lparr>SHOULD_POLL := True\<rparr>))"
    by (simp add: uart_irq_def wakeup_executor_def)
  moreover have "interruptList k ! nat 0x24 = Some Uart_irq" using assms by (simp add: serial_registered_def)
  moreover have "eoi 4 = (#) (Out8 PIC1_COMMAND 0x20)" by (rule ext) (simp add: eoi_def)
  ultimately show ?thesis
    using handler_dispatches [of "0x24" k Uart_irq "run_irq E" "k\<lparr>SHOULD_POLL := True\<rparr>" E]
    by (simp add: serial_irq_def)
qed

text \<open>What the interrupt of the clock does at the ports while nothing waits in the list.\<close>

definition clock_events :: "u8 \<Rightarrow> trace" where
  "clock_events v = [Out8 PIC1_COMMAND 0x20, Out8 PIC2_COMMAND 0x20, In8 CMOS_DATA_REG v, Out8 CMOS_CONTROL_REG 12, Sti, Cli]"

lemma rtc_irq_events:
  assumes "no_futures k"
  shows "\<exists>v. rtc_irq E k = Some (Inr (upd_trace ((@) (clock_events v)) (k\<lparr>tick := tick k + 1, SHOULD_POLL := False\<rparr>)))"
proof -
  have "\<exists>v. run_irq E Process_rtc_interrupt k = Some (Inr (upd_trace (\<lambda>tr. In8 CMOS_DATA_REG v # Out8 CMOS_CONTROL_REG 12 # Sti # Cli # tr)
      (k\<lparr>tick := tick k + 1, SHOULD_POLL := False\<rparr>)))"
    using assms by (simp add: process_rtc_interrupt_def process_tick_def process_time_futures_def guarded_def no_futures_def
        k_cli_def k_sti_def disable_interrupts_def enable_interrupts_def k_outb_def outb_def k_inb_upd Let_def comp_def)
      (blast)
  then obtain v where v: "run_irq E Process_rtc_interrupt k = Some (Inr (upd_trace
      (\<lambda>tr. In8 CMOS_DATA_REG v # Out8 CMOS_CONTROL_REG 12 # Sti # Cli # tr) (k\<lparr>tick := tick k + 1, SHOULD_POLL := False\<rparr>)))" ..
  have "interruptList k ! nat 0x28 = Some Process_rtc_interrupt" using assms by (simp add: no_futures_def rtc_registered_def)
  then have "rtc_irq E k = Some (Inr (upd_trace (eoi 8) (upd_trace
      (\<lambda>tr. In8 CMOS_DATA_REG v # Out8 CMOS_CONTROL_REG 12 # Sti # Cli # tr) (k\<lparr>tick := tick k + 1, SHOULD_POLL := False\<rparr>))))"
    using handler_dispatches [of "0x28" k Process_rtc_interrupt "run_irq E", OF _ _ _ v, of E] by (simp add: rtc_irq_def)
  moreover have "eoi 8 \<circ> (\<lambda>tr. In8 CMOS_DATA_REG v # Out8 CMOS_CONTROL_REG 12 # Sti # Cli # tr) = (@) (clock_events v)"
    by (simp add: fun_eq_iff eoi_def clock_events_def)
  ultimately show ?thesis by auto
qed

text \<open>
  The interrupt that takes the processor out of \<open>hlt\<close>: that of the port when its transmitter has got
  empty, and that of the clock before.
\<close>

definition next_irq :: "env \<Rightarrow> kernel \<Rightarrow> kernel effect" where
  "next_irq E k = (if port_interrupts (devs E) (k_trace k) then serial_irq E k else rtc_irq E k)"

definition serial_ok :: "env \<Rightarrow> kernel \<Rightarrow> bool" where
  "serial_ok E k \<longleftrightarrow> serial_registered k \<and> no_futures k \<and> transmits_in_time (devs E)"

lemma serial_ok_upd [simp]: "serial_ok E (upd_trace f k) = serial_ok E k" "serial_ok E (k\<lparr>SHOULD_POLL := b\<rparr>) = serial_ok E k"
  "serial_ok E (k\<lparr>tick := t\<rparr>) = serial_ok E k"
  by (simp_all add: serial_ok_def serial_registered_def no_futures_def rtc_registered_def)

lemma clock_events_quiet: "unsent tr (clock_events v @ tr)"
  by (simp add: clock_events_def unsent_Cons PIC1_COMMAND_def PIC2_COMMAND_def CMOS_CONTROL_REG_def DATA_REG_def COM1_def)

lemma clock_events_owed:
  assumes "interrupt_owed D tr"
  shows "interrupt_owed D (clock_events v @ tr)"
proof -
  have "interrupt_owed D (Cli # tr)" using assms by (rule owed_kept) simp
  then show ?thesis
    by (simp add: clock_events_def PIC1_COMMAND_def PIC2_COMMAND_def CMOS_CONTROL_REG_def)
qed

interpretation uart_waker: serial_waker "devs E" "next_irq E" "serial_ok E" for E
proof
  show "transmits_in_time (devs E)" if "serial_ok E k" for k using that by (simp add: serial_ok_def)
next
  fix k assume g: "serial_ok E k" and owed: "interrupt_owed (devs E) (k_trace k)"
  have r: "serial_registered k" "no_futures k" "transmits_in_time (devs E)" using g by (simp_all add: serial_ok_def)
  show "\<exists>k'. next_irq E k = Some (Inr k') \<and> serial_ok E k' \<and> unsent (k_trace k) (k_trace k')
      \<and> SHOULD_POLL k' = transmit_ready (devs E) (k_trace k) \<and> (SHOULD_POLL k' \<or> interrupt_owed (devs E) (k_trace k'))"
  proof (cases "transmit_ready (devs E) (k_trace k)")
    case True
    have "unsent (k_trace k) (Out8 PIC1_COMMAND 0x20 # k_trace k)"
      by (simp add: unsent_Cons PIC1_COMMAND_def DATA_REG_def COM1_def)
    then show ?thesis
      using True owed g serial_irq_spec [OF r(1), of E] by (simp add: next_irq_def port_interrupts_def)
  next
    case False
    then show ?thesis
      using owed g rtc_irq_events [OF r(2), of E] clock_events_quiet clock_events_owed
      by (auto simp: next_irq_def port_interrupts_def)
  qed
qed simp_all

text \<open>
  C14. With \<open>uart_irq\<close> and the clock driver registered and no future in the list, on a port that sends
  every byte in bounded time and interrupts once when its transmitter gets empty, the clock ticking
  meanwhile, \<open>serial_write\<close> returns for every message and has then sent exactly its bytes, in order,
  however often it had to wait and however many ticks woke it up in vain; the handlers stay
  registered. Interrupts are taken in \<open>hlt\<close> here; what a wake-up between the poll and \<open>hlt\<close> does is
  the subject of Await_Steps and Serial_Steps.
\<close>

theorem serial_write_sends_message:
  assumes "interruptList k ! 0x24 = Some Uart_irq" "no_futures k" "transmits_in_time (devs E)"
  shows "\<exists>k'. serial_write E (next_irq E) msg k = Some (Inr k')
    \<and> written_to DATA_REG (k_trace k') = written_to DATA_REG (k_trace k) @ msg
    \<and> interruptList k' ! 0x24 = Some Uart_irq \<and> no_futures k'"
  using uart_waker.serial_write_sends [OF refl, of E k msg] assms by (auto simp: serial_ok_def serial_registered_def)

text \<open>A port that is busy for a number of events after every byte.\<close>

lemma uart_device_in_time: "transmits_in_time (uart_device n)"
  by (auto simp: transmits_in_time_def transmit_ready_def uart_device_def idle_def)

definition serial_kernel :: kernel where
  "serial_kernel = boot_kernel\<lparr>interruptList := (replicate 256 None)[0x24 := Some Uart_irq, 0x28 := Some Process_rtc_interrupt],
     lastIdx := -1\<rparr>"

lemma serial_kernel_facts:
  "interruptList serial_kernel ! 0x24 = Some Uart_irq" "no_futures serial_kernel" "k_trace serial_kernel = []"
  by (simp_all add: serial_kernel_def no_futures_def rtc_registered_def boot_kernel_def k_trace_def initial_log_def
      test_console_def)

theorem serial_write_sends_message_witness:
  "\<exists>k'. serial_write (test_env\<lparr>devs := uart_device 40\<rparr>) (next_irq (test_env\<lparr>devs := uart_device 40\<rparr>)) (lit ''hi'') serial_kernel
      = Some (Inr k')
    \<and> written_to DATA_REG (k_trace k') = lit ''hi''"
  using serial_write_sends_message [OF serial_kernel_facts(1,2), of "test_env\<lparr>devs := uart_device 40\<rparr>" "lit ''hi''"]
    uart_device_in_time serial_kernel_facts(3) by auto

end
