(* ===== verification/Await_Steps.thy ===== *)
theory Await_Steps
  imports Serial_Async
begin

text \<open>
  \<open>await\<close> (kernel/kernel/future.c) with interrupts that may come between any two of its steps,
  and not only while the processor is halted as in Future_List. The poll, which reads the tick under
  INTERRUPT_GUARDED or one port, is one step; the store to \<open>SHOULD_POLL\<close>, the test of it and \<open>hlt\<close>
  are one each. An interrupt of the set \<open>ints\<close> runs its handler and leaves the waiting code where it
  is, or takes it out of \<open>hlt\<close>. The run of Future_List is one of these runs.
\<close>

datatype await_pc = At_poll | At_clear | At_test | At_halt | Halted | Returned

fun after_interrupt :: "await_pc \<Rightarrow> await_pc" where
  "after_interrupt Halted = At_test"
| "after_interrupt p = p"

inductive await_step :: "env \<Rightarrow> (kernel \<Rightarrow> kernel effect) set \<Rightarrow> Future \<Rightarrow> await_pc \<times> kernel \<Rightarrow> await_pc \<times> kernel \<Rightarrow> bool"
  for E ints fut where
  poll_ready: "poll E fut k = Some (Inr (True, k')) \<Longrightarrow> await_step E ints fut (At_poll, k) (Returned, k')"
| poll_pending: "poll E fut k = Some (Inr (False, k')) \<Longrightarrow> await_step E ints fut (At_poll, k) (At_clear, k')"
| clear_flag: "await_step E ints fut (At_clear, k) (At_test, k\<lparr>SHOULD_POLL := False\<rparr>)"
| flag_set: "SHOULD_POLL k \<Longrightarrow> await_step E ints fut (At_test, k) (At_poll, k)"
| flag_unset: "\<not> SHOULD_POLL k \<Longrightarrow> await_step E ints fut (At_test, k) (At_halt, k)"
| execute_hlt: "await_step E ints fut (At_halt, k) (Halted, halt k)"
| interrupt: "irq \<in> ints \<Longrightarrow> irq k = Some (Inr k') \<Longrightarrow> p \<noteq> Returned \<Longrightarrow>
    await_step E ints fut (p, k) (after_interrupt p, k')"

inductive_cases await_stepE: "await_step E ints fut (p, k) (p', k')"

lemmas await_steps = await_step.intros

text \<open>The run in which interrupts come in \<open>hlt\<close> only.\<close>

lemma then_run: "await_step E ints fut a b \<Longrightarrow> (await_step E ints fut)\<^sup>*\<^sup>* b c \<Longrightarrow> (await_step E ints fut)\<^sup>*\<^sup>* a c"
  by (rule converse_rtranclp_into_rtranclp)

lemma wait_poll_run:
  assumes "wait_poll irq k = Some (Inr k')"
  shows "(await_step E {irq} fut)\<^sup>*\<^sup>* (At_test, k) (At_poll, k')"
proof -
  have "r = Inr k' \<Longrightarrow> (await_step E {irq} fut)\<^sup>*\<^sup>* (At_test, k) (At_poll, k')" if "wait_poll irq k = Some r" for k r
    using that
  proof (induction arbitrary: k' rule: wait_poll.raw_induct [rotated, consumes 1])
    case (1 f irq k r k')
    show ?case
    proof (cases "SHOULD_POLL k")
      case True
      then show ?thesis using "1.prems" "1"(2) flag_set [of k E "{irq}" fut] by auto
    next
      case False
      then obtain k1 where k1: "irq (halt k) = Some (Inr k1)" "f irq k1 = Some r"
        using "1.prems" "1"(2) by (auto split: option.splits sum.splits)
      have "await_step E {irq} fut (Halted, halt k) (after_interrupt Halted, k1)"
        using k1(1) by (intro interrupt [where irq = irq]) simp_all
      then show ?thesis
        using then_run [OF flag_unset [OF False] then_run [OF execute_hlt then_run]] "1"(1) [OF k1(2) "1.prems"] by auto
    qed
  qed
  then show ?thesis using assms by blast
qed

lemma await_loop_run:
  assumes "await_loop E irq fut k = Some (Inr k')"
  shows "(await_step E {irq} fut)\<^sup>*\<^sup>* (At_poll, k) (Returned, k')"
proof -
  have "r = Inr k' \<Longrightarrow> (await_step E {irq} fut)\<^sup>*\<^sup>* (At_poll, k) (Returned, k')" if "await_loop E irq fut k = Some r" for E fut k r
    using that
  proof (induction arbitrary: k' rule: await_loop.raw_induct [rotated, consumes 1])
    case (1 f E irq fut k r k')
    obtain b k1 where k1: "poll E fut k = Some (Inr (b, k1))"
      using "1.prems" "1"(2) by (auto split: option.splits sum.splits)
    show ?case
    proof (cases b)
      case True
      then show ?thesis using "1.prems" "1"(2) k1 poll_ready [of E fut k k1 "{irq}"] by auto
    next
      case False
      then obtain k2 where k2: "wait_poll irq (k1\<lparr>SHOULD_POLL := False\<rparr>) = Some (Inr k2)" "f E irq fut k2 = Some r"
        using "1.prems" "1"(2) k1 by (auto split: option.splits sum.splits)
      have "(await_step E {irq} fut)\<^sup>*\<^sup>* (At_poll, k) (At_test, k1\<lparr>SHOULD_POLL := False\<rparr>)"
        using then_run [OF poll_pending then_run [OF clear_flag rtranclp.rtrancl_refl]] k1 False by simp
      then show ?thesis
        using wait_poll_run [OF k2(1)] "1"(1) [OF k2(2) "1.prems"] by (meson rtranclp_trans)
    qed
  qed
  then show ?thesis using assms by blast
qed

lemma interrupted_clear:
  assumes "irq \<in> ints" "irq k = Some (Inr k')"
  shows "(await_step E ints fut)\<^sup>*\<^sup>* (At_clear, k) (At_test, k'\<lparr>SHOULD_POLL := False\<rparr>)"
proof -
  have "await_step E ints fut (At_clear, k) (At_clear, k')"
    using interrupt [of irq ints k k' At_clear E fut] assms by simp
  then show ?thesis using then_run [OF _ then_run [OF clear_flag rtranclp.rtrancl_refl]] by blast
qed

subsection \<open>Sleeping\<close>

context waking_clock
begin

lemma poll_reaches:
  assumes "good k" "is_ready fut = Fut_is_ready" "fut_context fut = ctx"
  shows "\<exists>k'. (await_step E {irq} fut)\<^sup>*\<^sup>* (At_poll, k) (Returned, k') \<and> unat (tick k') = max (unat target) (unat (tick k))"
proof (cases "tick k \<le> target")
  case True
  then show ?thesis
    using await_loop_returns [OF assms(1) True assms(2,3), of E] await_loop_run [of E irq fut k]
    by (auto simp: word_le_nat_alt max_def)
next
  case False
  then have "await_step E {irq} fut (At_poll, k) (Returned, snd (get_tick k))"
    using poll_target [OF assms] by (intro poll_ready) simp
  then show ?thesis
    using get_tick_good [OF assms(1)] False by (auto simp: word_le_nat_alt max_def)
qed

lemma halted_reaches:
  assumes "good k" "is_ready fut = Fut_is_ready" "fut_context fut = ctx" "unat (tick k) + 1 < 2 ^ 32"
  shows "\<exists>k'. (await_step E {irq} fut)\<^sup>*\<^sup>* (Halted, k) (Returned, k') \<and> unat (tick k') = max (unat target) (unat (tick k) + 1)"
proof -
  obtain k1 where k1: "irq k = Some (Inr k1)" "good k1" "tick k1 = tick k + 1"
    using irq_ticks [OF assms(1)] by blast
  have t: "unat (tick k1) = unat (tick k) + 1" using assms(4) k1(3) by (simp add: unat_add_lt)
  have wake: "SHOULD_POLL k1 = (target \<le> tick k1)" by (rule wakes [OF assms(1) k1(1)])
  have s: "await_step E {irq} fut (Halted, k) (At_test, k1)"
    using interrupt [of irq "{irq}" k k1 Halted E fut] k1(1) by simp
  have "\<exists>k2. (await_step E {irq} fut)\<^sup>*\<^sup>* (At_test, k1) (At_poll, k2) \<and> good k2 \<and>
      unat (tick k2) = max (unat target) (unat (tick k1))"
  proof (cases "SHOULD_POLL k1")
    case True
    then show ?thesis using flag_set [of k1 E "{irq}" fut] k1(2) wake by (auto simp: word_le_nat_alt)
  next
    case False
    then have "unat (tick k1) < unat target" using wake by (simp add: word_le_nat_alt)
    then show ?thesis
      using wait_poll_returns [OF k1(2) False, of "unat target - unat (tick k1)"] wait_poll_run [of irq k1] by fastforce
  qed
  then obtain k2 where k2: "(await_step E {irq} fut)\<^sup>*\<^sup>* (At_test, k1) (At_poll, k2)" "good k2"
    "unat (tick k2) = max (unat target) (unat (tick k1))" by blast
  obtain k3 where "(await_step E {irq} fut)\<^sup>*\<^sup>* (At_poll, k2) (Returned, k3)" "unat (tick k3) = max (unat target) (unat (tick k2))"
    using poll_reaches [OF k2(2) assms(2,3)] by blast
  then show ?thesis using then_run [OF s rtranclp_trans [OF k2(1)]] k2(3) t by auto
qed

lemma test_reaches:
  assumes "good k" "is_ready fut = Fut_is_ready" "fut_context fut = ctx" "unat (tick k) + 1 < 2 ^ 32"
  shows "\<exists>k'. (await_step E {irq} fut)\<^sup>*\<^sup>* (At_halt, k) (Returned, k') \<and> unat (tick k') \<le> max (unat target) (unat (tick k) + 1)"
    and "\<exists>k'. (await_step E {irq} fut)\<^sup>*\<^sup>* (At_test, k) (Returned, k') \<and> unat (tick k') \<le> max (unat target) (unat (tick k) + 1)"
proof -
  have g: "good (halt k)" "unat (tick (halt k)) + 1 < 2 ^ 32" "tick (halt k) = tick k"
    using assms(1,4) by (simp_all add: halt_def good_trace quiet_flags)
  show a: "\<exists>k'. (await_step E {irq} fut)\<^sup>*\<^sup>* (At_halt, k) (Returned, k') \<and> unat (tick k') \<le> max (unat target) (unat (tick k) + 1)"
    using halted_reaches [OF g(1) assms(2,3) g(2), of E] then_run [OF execute_hlt] g(3) by force
  show "\<exists>k'. (await_step E {irq} fut)\<^sup>*\<^sup>* (At_test, k) (Returned, k') \<and> unat (tick k') \<le> max (unat target) (unat (tick k) + 1)"
  proof (cases "SHOULD_POLL k")
    case True
    then show ?thesis using poll_reaches [OF assms(1-3), of E] then_run [OF flag_set [OF True]] by fastforce
  next
    case False
    then show ?thesis using a then_run [OF flag_unset [OF False]] by blast
  qed
qed

lemma any_point_reaches:
  assumes "good k" "is_ready fut = Fut_is_ready" "fut_context fut = ctx" "unat (tick k) + 1 < 2 ^ 32"
  shows "\<exists>k'. (await_step E {irq} fut)\<^sup>*\<^sup>* (p, k) (Returned, k') \<and> unat (tick k') \<le> max (unat target) (unat (tick k) + 1)"
proof (cases p)
  case At_poll
  then show ?thesis using poll_reaches [OF assms(1-3), of E] by fastforce
next
  case At_clear
  then show ?thesis
    using test_reaches(2) [OF good_flag [OF assms(1)] assms(2,3), of False E] then_run [OF clear_flag] assms(4) by force
next
  case Halted
  then show ?thesis using halted_reaches [OF assms, of E] by fastforce
qed (use test_reaches [OF assms, of E] in \<open>auto intro: exI [of _ k]\<close>)

end

text \<open>What holds at every point of an \<open>await\<close> on the first future of the list.\<close>

fun sleep_inv :: "heap \<Rightarrow> u32 \<Rightarrow> u32 \<Rightarrow> await_pc \<times> kernel \<Rightarrow> bool" where
  "sleep_inv h ctx target (p, k) \<longleftrightarrow> first_future h ctx target k \<and> serial_registered k \<and> (p = Returned \<longrightarrow> target \<le> tick k)"

definition all_interrupts :: "env \<Rightarrow> (kernel \<Rightarrow> kernel effect) set" where
  "all_interrupts E = {rtc_irq E, serial_irq E}"

lemma serial_registered_upd [simp]: "serial_registered (upd_trace f k) = serial_registered k"
  "serial_registered (k\<lparr>SHOULD_POLL := b\<rparr>) = serial_registered k" "serial_registered (k\<lparr>tick := t\<rparr>) = serial_registered k"
  by (simp_all add: serial_registered_def)

lemma first_future_upd [simp]: "first_future h c t (upd_trace f k) = first_future h c t k"
  "first_future h c t (k\<lparr>SHOULD_POLL := b\<rparr>) = first_future h c t k" "first_future h c t (k\<lparr>tick := n\<rparr>) = first_future h c t k"
  by (simp_all add: first_future_def rtc_registered_def)

lemma sleep_interrupted:
  assumes "sleep_inv h ctx target (p, k)" "irq \<in> all_interrupts E" "irq k = Some (Inr k')" "p \<noteq> Returned"
  shows "sleep_inv h ctx target (after_interrupt p, k')"
proof -
  have f: "first_future h ctx target k" "serial_registered k" using assms(1) by simp_all
  obtain g where g: "rtc_irq E k = Some (Inr (upd_trace g (k\<lparr>tick := tick k + 1, SHOULD_POLL := target \<le> tick k + 1\<rparr>)))"
    using first_future_tick [OF f(1)] by blast
  have "first_future h ctx target k' \<and> serial_registered k'"
    using assms(2,3) f g serial_irq_spec [OF f(2), of E]
    by (auto simp: all_interrupts_def)
  then show ?thesis using assms(4) by (cases p) simp_all
qed

interpretation sleep_runs: invariant_system
  "await_step E (all_interrupts E) \<lparr>fut_type = SleepFuture, fut_context = ctx, is_ready = Fut_is_ready\<rparr>"
  "sleep_inv h ctx target" for E h ctx target
proof
  fix s t :: "await_pc \<times> kernel"
  let ?fut = "\<lparr>fut_type = SleepFuture, fut_context = ctx, is_ready = Fut_is_ready\<rparr>"
  assume a: "await_step E (all_interrupts E) ?fut s t" and i: "sleep_inv h ctx target s"
  have good: "first_future h ctx target (snd (get_tick k)) \<and> tick (snd (get_tick k)) = tick k
      \<and> serial_registered (snd (get_tick k))" if "first_future h ctx target k" "serial_registered k" for k
    using that by (simp add: get_tick_def Let_def k_cli_def k_sti_def)
  show "sleep_inv h ctx target t"
    using a i
  proof (cases rule: await_step.cases)
    case (interrupt irq k k' p)
    then show ?thesis using sleep_interrupted i by blast
  qed (use i good in \<open>auto simp: rtc_waking.poll_target halt_def\<close>)
qed

text \<open>
  C8. \<open>await\<close> of a sleep future at the head of the list, in every interleaving of its steps with
  interrupts of the clock and of the serial port: when it has returned, the tick has reached the
  target. A wake-up that comes between the poll and the reset of \<open>SHOULD_POLL\<close> is lost, but for
  one tick at most: from every state of every run, clock interrupts lead to the return, at the
  target or one tick after the state, whichever is later.
\<close>

theorem await_sleep_interleaved:
  assumes "first_future h ctx target k" "serial_registered k"
    and "fut = \<lparr>fut_type = SleepFuture, fut_context = ctx, is_ready = Fut_is_ready\<rparr>"
    and "(await_step E (all_interrupts E) fut)\<^sup>*\<^sup>* (At_poll, k) (p, k1)"
  shows "(p = Returned \<longrightarrow> target \<le> tick k1)
    \<and> (unat (tick k1) + 1 < 2 ^ 32 \<longrightarrow>
      (\<exists>k2. (await_step E {rtc_irq E} fut)\<^sup>*\<^sup>* (p, k1) (Returned, k2) \<and> target \<le> tick k2
        \<and> unat (tick k2) \<le> max (unat target) (unat (tick k1) + 1)))"
proof -
  have i: "sleep_inv h ctx target (p, k1)"
    using sleep_runs.reach_inv [OF assms(4) [unfolded assms(3)], of h target] assms(1,2) by simp
  have "\<exists>k2. (await_step E {rtc_irq E} fut)\<^sup>*\<^sup>* (p, k1) (Returned, k2) \<and> target \<le> tick k2
      \<and> unat (tick k2) \<le> max (unat target) (unat (tick k1) + 1)" if w: "unat (tick k1) + 1 < 2 ^ 32"
  proof -
    obtain k2 where k2: "(await_step E {rtc_irq E} fut)\<^sup>*\<^sup>* (p, k1) (Returned, k2)"
      "unat (tick k2) \<le> max (unat target) (unat (tick k1) + 1)"
      using rtc_waking.any_point_reaches [of h ctx target k1 fut E E p] i assms(3) w by auto
    have "(await_step E (all_interrupts E) fut)\<^sup>*\<^sup>* (p, k1) (Returned, k2)"
      using k2(1) by (rule rtranclp_mono [THEN predicate2D, rotated]) (auto simp: all_interrupts_def intro: await_steps elim!: await_step.cases)
    then have "sleep_inv h ctx target (Returned, k2)"
      using sleep_runs.reach_inv [of E ctx "(p, k1)" "(Returned, k2)" h target] i assms(3) by simp
    then show ?thesis using k2 by auto
  qed
  then show ?thesis using i by simp
qed

definition sleeping_kernel :: "u32 \<Rightarrow> kernel" where
  "sleeping_kernel target = boot_kernel\<lparr>
     interruptList := (replicate 256 None)[0x28 := Some Process_rtc_interrupt, 0x24 := Some Uart_irq],
     lastIdx := 0, timeFutures := [\<lparr>fut_type = SleepFuture, fut_context = 4200, is_ready = Fut_is_ready\<rparr>],
     k_heap := small_heap\<lparr>bytes := store32 (bytes small_heap) 4200 target\<rparr>\<rparr>"

lemma sleeping_kernel_facts:
  "first_future (k_heap (sleeping_kernel target)) 4200 target (sleeping_kernel target)"
  "serial_registered (sleeping_kernel target)" "tick (sleeping_kernel target) = 0"
  by (simp_all add: first_future_def rtc_registered_def serial_registered_def sleeping_kernel_def boot_kernel_def
      load32_store32_same)

theorem await_sleep_interleaved_witness:
  "\<exists>fut k1 k2. (await_step test_env (all_interrupts test_env) fut)\<^sup>*\<^sup>* (At_poll, sleeping_kernel 1) (At_test, k1)
    \<and> \<not> SHOULD_POLL k1 \<and> tick k1 = 1
    \<and> (await_step test_env {rtc_irq test_env} fut)\<^sup>*\<^sup>* (At_test, k1) (Returned, k2) \<and> unat (tick k2) \<le> 2"
proof -
  let ?fut = "\<lparr>fut_type = SleepFuture, fut_context = 4200, is_ready = Fut_is_ready\<rparr>"
  let ?k = "snd (get_tick (sleeping_kernel 1))" and ?h = "k_heap (sleeping_kernel 1)"
  have f: "first_future ?h 4200 1 ?k" "tick ?k = 0"
    using sleeping_kernel_facts [of 1] by (simp_all add: get_tick_def Let_def k_cli_def k_sti_def)
  then have p: "poll test_env ?fut (sleeping_kernel 1) = Some (Inr (False, ?k))"
    using rtc_waking.poll_target [of ?h 4200 1 "sleeping_kernel 1" ?fut test_env] sleeping_kernel_facts [of 1] by simp
  obtain g where g: "rtc_irq test_env ?k = Some (Inr (upd_trace g (?k\<lparr>tick := 1, SHOULD_POLL := True\<rparr>)))"
    using first_future_tick [OF f(1), of test_env] f(2) by auto
  let ?k1 = "upd_trace g (?k\<lparr>tick := 1, SHOULD_POLL := True\<rparr>)\<lparr>SHOULD_POLL := False\<rparr>"
  have r: "(await_step test_env (all_interrupts test_env) ?fut)\<^sup>*\<^sup>* (At_poll, sleeping_kernel 1) (At_test, ?k1)"
    using then_run [OF poll_pending [OF p] interrupted_clear [where irq = "rtc_irq test_env", OF _ g]] by (simp add: all_interrupts_def)
  show ?thesis
    using await_sleep_interleaved [OF sleeping_kernel_facts(1,2) refl r] r
    by - (rule exI [of _ ?fut], rule exI [of _ ?k1], auto)
qed

subsection \<open>Waiting for the serial port\<close>

text \<open>
  Once the code waits in \<open>hlt\<close> with the flag unset and no future in the list, the clock does not
  get it out.
\<close>

fun stuck :: "await_pc \<times> kernel \<Rightarrow> bool" where
  "stuck (p, k) \<longleftrightarrow> p \<in> {At_test, At_halt, Halted} \<and> no_futures k \<and> \<not> SHOULD_POLL k"

lemma no_futures_upd [simp]: "no_futures (upd_trace f k) = no_futures k"
  "no_futures (k\<lparr>SHOULD_POLL := b\<rparr>) = no_futures k" "no_futures (k\<lparr>tick := n\<rparr>) = no_futures k"
  by (simp_all add: no_futures_def rtc_registered_def)

interpretation stuck_runs: invariant_system "await_step E {rtc_irq E} fut" stuck for E fut
proof
  fix s t assume a: "await_step E {rtc_irq E} fut s t" and i: "stuck s"
  show "stuck t"
    using a i
  proof (cases rule: await_step.cases)
    case (interrupt irq k k' p)
    have "no_futures k" using i interrupt by simp
    then show ?thesis using i interrupt no_futures_tick [of k E] by (cases p) auto
  qed (use i in \<open>auto simp: halt_def\<close>)
qed

text \<open>
  C15. A wait for the transmitter can sleep for ever. When the transmitter is busy at the poll and
  empty by the time its interrupt has ended, and that interrupt comes before \<open>SHOULD_POLL\<close> is reset,
  the wake-up is lost: the code goes on to \<open>hlt\<close> with the transmitter ready, and no number of clock
  interrupts lets it return. The clock interrupt itself also resets a flag that the interrupt of the
  port has just set.
\<close>

theorem await_serial_wakeup_lost:
  assumes "no_futures k" "serial_registered k" "\<not> transmit_ready (devs E) (k_trace k)"
    and "transmit_ready (devs E) (Out8 PIC1_COMMAND 0x20 # In8 LINE_STATUS_REG (dev8 (devs E) (k_trace k) LINE_STATUS_REG) # k_trace k)"
  shows "(\<exists>k1. (await_step E (all_interrupts E) create_serial_future)\<^sup>*\<^sup>* (At_poll, k) (At_test, k1)
      \<and> transmit_ready (devs E) (k_trace k1)
      \<and> (\<forall>k2. \<not> (await_step E {rtc_irq E} create_serial_future)\<^sup>*\<^sup>* (At_test, k1) (Returned, k2)))
    \<and> (\<exists>k1 k2. serial_irq E k = Some (Inr k1) \<and> SHOULD_POLL k1 \<and> rtc_irq E k1 = Some (Inr k2) \<and> \<not> SHOULD_POLL k2)"
proof (intro conjI)
  define k0 where "k0 = upd_trace ((#) (In8 LINE_STATUS_REG (dev8 (devs E) (k_trace k) LINE_STATUS_REG))) k"
  have k0: "poll E create_serial_future k = Some (Inr (False, k0))" "serial_registered k0" "no_futures k0"
    using assms(1-3) uart_waker.poll_serial [of E E k] by (simp_all add: k0_def)
  define k1 where "k1 = (upd_trace ((#) (Out8 PIC1_COMMAND 0x20)) (k0\<lparr>SHOULD_POLL := True\<rparr>))\<lparr>SHOULD_POLL := False\<rparr>"
  have "(await_step E (all_interrupts E) create_serial_future)\<^sup>*\<^sup>* (At_poll, k) (At_test, k1)"
    using then_run [OF poll_pending [OF k0(1)] interrupted_clear [where irq = "serial_irq E", OF _ serial_irq_spec [OF k0(2)]]]
    by (simp add: all_interrupts_def k1_def)
  moreover have "transmit_ready (devs E) (k_trace k1)"
    using assms(4) by (simp add: k1_def k0_def)
  moreover have "stuck (At_test, k1)" using k0(3) by (simp add: k1_def)
  then have "\<not> (await_step E {rtc_irq E} create_serial_future)\<^sup>*\<^sup>* (At_test, k1) (Returned, k2)" for k2
    using stuck_runs.reach_inv [of E create_serial_future "(At_test, k1)" "(Returned, k2)"] by auto
  ultimately show "\<exists>k1. (await_step E (all_interrupts E) create_serial_future)\<^sup>*\<^sup>* (At_poll, k) (At_test, k1)
      \<and> transmit_ready (devs E) (k_trace k1)
      \<and> (\<forall>k2. \<not> (await_step E {rtc_irq E} create_serial_future)\<^sup>*\<^sup>* (At_test, k1) (Returned, k2))" by blast
  show "\<exists>k1 k2. serial_irq E k = Some (Inr k1) \<and> SHOULD_POLL k1 \<and> rtc_irq E k1 = Some (Inr k2) \<and> \<not> SHOULD_POLL k2"
    using serial_irq_spec [OF assms(2), of E] assms(1)
      no_futures_tick [of "upd_trace ((#) (Out8 PIC1_COMMAND 0x20)) (k\<lparr>SHOULD_POLL := True\<rparr>)" E] by auto
qed

theorem await_serial_wakeup_lost_witness:
  "\<exists>k1. (await_step (test_env\<lparr>devs := uart_device 1\<rparr>) (all_interrupts (test_env\<lparr>devs := uart_device 1\<rparr>)) create_serial_future)\<^sup>*\<^sup>*
      (At_poll, serial_kernel) (At_test, k1) \<and> transmit_ready (uart_device 1) (k_trace k1)
    \<and> (\<forall>k2. \<not> (await_step (test_env\<lparr>devs := uart_device 1\<rparr>) {rtc_irq (test_env\<lparr>devs := uart_device 1\<rparr>)} create_serial_future)\<^sup>*\<^sup>*
        (At_test, k1) (Returned, k2))"
proof -
  let ?E = "test_env\<lparr>devs := uart_device 1\<rparr>"
  have "serial_registered serial_kernel" by (simp add: serial_registered_def serial_kernel_facts)
  moreover have "\<not> transmit_ready (devs ?E) (k_trace serial_kernel)"
      "transmit_ready (devs ?E) (Out8 PIC1_COMMAND 0x20 # In8 LINE_STATUS_REG (dev8 (devs ?E) (k_trace serial_kernel) LINE_STATUS_REG)
        # k_trace serial_kernel)"
    by (simp_all add: transmit_ready_def serial_kernel_facts uart_device_def idle_def PIC1_COMMAND_def DATA_REG_def COM1_def)
  ultimately show ?thesis using await_serial_wakeup_lost [of serial_kernel ?E] serial_kernel_facts(2) by auto
qed

subsection \<open>Guards do not nest\<close>

text \<open>
  \<open>get_tick\<close> ends its INTERRUPT_GUARDED with \<open>sti\<close>, whatever the flag was before: the rest of the
  guarded section that it is called in, and of the interrupt handler around that, runs with
  interrupts enabled.
\<close>

lemma get_tick_ends_outer_guard:
  "\<not> interrupt_flag b (k_trace (k_cli k))" "interrupt_flag b (k_trace (snd (get_tick (k_cli k))))"
  by (simp_all add: get_tick_def k_cli_def k_sti_def Let_def disable_interrupts_def enable_interrupts_def)

end
