(* ===== verification/Serial_Steps.thy ===== *)
theory Serial_Steps
  imports Await_Steps
begin

text \<open>
  \<open>serial_write\<close> (kernel/kernel/io/uart.c) in small steps: the steps of \<open>await\<close> for every byte, the
  polls of \<open>serial_putchar\<close> and the write of the byte, with the interrupts of the clock and of the port
  between any two of them. The port interrupts as its documentation says, once each time its
  transmitter gets empty. The run of Future_List is one of these runs.
\<close>

datatype write_pc = Awaiting await_pc | Putting | Sending

inductive write_step :: "env \<Rightarrow> (kernel \<Rightarrow> kernel effect) set \<Rightarrow> u8 list \<times> write_pc \<times> kernel \<Rightarrow> u8 list \<times> write_pc \<times> kernel \<Rightarrow> bool"
  for E ints where
  awaiting: "await_step E ints create_serial_future (p, k) (p', k') \<Longrightarrow>
    write_step E ints (c # cs, Awaiting p, k) (c # cs, Awaiting p', k')"
| awaited: "delete_future create_serial_future k = Some (Inr k') \<Longrightarrow>
    write_step E ints (c # cs, Awaiting Returned, k) (c # cs, Putting, k')"
| status: "is_transmit_ready (devs E) (k_trace k) = (ready, tr) \<Longrightarrow>
    write_step E ints (c # cs, Putting, k) (c # cs, if ready then Sending else Putting, upd_trace (\<lambda>_. tr) k)"
| send: "write_step E ints (c # cs, Sending, k) (cs, Awaiting At_poll, upd_trace (outb DATA_REG c) k)"
| interrupted: "irq \<in> ints \<Longrightarrow> irq k = Some (Inr k') \<Longrightarrow> p \<in> {Awaiting Returned, Putting, Sending} \<Longrightarrow>
    write_step E ints (c # cs, p, k) (c # cs, p, k')"

inductive_cases write_stepE: "write_step E ints (cs, p, k) (cs', p', k')"








subsection \<open>What holds at every point\<close>

definition handlers_ok :: "kernel \<Rightarrow> bool" where
  "handlers_ok k \<longleftrightarrow> serial_registered k \<and> no_futures k"

lemma handlers_ok_upd [simp]: "handlers_ok (upd_trace f k) = handlers_ok k" "handlers_ok (k\<lparr>SHOULD_POLL := b\<rparr>) = handlers_ok k"
  "handlers_ok (k\<lparr>tick := t\<rparr>) = handlers_ok k"
  by (simp_all add: handlers_ok_def)







subsection \<open>The run of the function\<close>




subsection \<open>Wake-ups\<close>





















end
