(* ===== verification/Future_Order.thy ===== *)
theory Future_Order
  imports Rtc
begin

text \<open>
  Sleep futures one after another (kernel/kernel/future.c). \<open>delete_future\<close> gives the context of a
  future back to the heap and leaves the future in the list (the TODO of the code), so the head of
  the list stays the first future, whose context is free memory by then. The clock still wakes the
  right one: first fit gives every later future the very block of the first one.
\<close>

fun sleep_futures :: "env \<Rightarrow> u32 list \<Rightarrow> kernel \<Rightarrow> kernel effect" where
  "sleep_futures E [] k = Some (Inr k)"
| "sleep_futures E (s # ss) k =
     bindE (create_future s Fut_is_ready k) (\<lambda>(fut, k).
     bindE (await E (rtc_irq E) fut k) (\<lambda>k. sleep_futures E ss k))"

text \<open>The head of the list waits for the target, and the list stays as it is.\<close>

definition list_future :: "heap \<Rightarrow> u32 \<Rightarrow> u32 \<Rightarrow> int \<Rightarrow> Future list \<Rightarrow> kernel \<Rightarrow> bool" where
  "list_future h ctx target n fs k \<longleftrightarrow> first_future h ctx target k \<and> lastIdx k = n \<and> timeFutures k = fs"

interpretation list_waking: waking_clock "rtc_irq E" "list_future h ctx target n fs" ctx target for E h ctx target n fs
proof
  fix k assume l: "list_future h ctx target n fs k"
  obtain g where g: "rtc_irq E k = Some (Inr (upd_trace g (k\<lparr>tick := tick k + 1, SHOULD_POLL := target \<le> tick k + 1\<rparr>)))"
    using first_future_tick [of h ctx target k E] l by (auto simp: list_future_def)
  show "\<exists>k'. rtc_irq E k = Some (Inr k') \<and> list_future h ctx target n fs k' \<and> tick k' = tick k + 1"
    using g l by (auto simp: list_future_def first_future_def rtc_registered_def)
  show "rtc_irq E k = Some (Inr k') \<Longrightarrow> SHOULD_POLL k' = (target \<le> tick k')" for k'
    using g by auto
qed (auto simp: list_future_def first_future_def rtc_registered_def)

text \<open>Between two of the sleeps: an old head has the context \<open>ctx\<close>, and the heap has its blocks.\<close>

definition list_between :: "u32 \<Rightarrow> kernel \<Rightarrow> bool" where
  "list_between ctx k \<longleftrightarrow> rtc_registered k \<and> length (timeFutures k) = 10 \<and> -1 \<le> lastIdx k
     \<and> (lastIdx k \<noteq> -1 \<longrightarrow> fut_context (timeFutures k ! 0) = ctx)"

definition between_sleeps :: "nat \<Rightarrow> u32 \<Rightarrow> block list \<Rightarrow> u32 \<Rightarrow> kernel \<Rightarrow> bool" where
  "between_sleeps hi base bl ctx k \<longleftrightarrow> list_between ctx k
     \<and> heap_inv hi (k_heap k) \<and> freeSegment (k_heap k) = base \<and> heap_blocks hi (k_heap k) = bl"

lemma create_future_alloc:
  assumes "heap_inv hi (k_heap k)" "4 \<le> unat (freeSegment (k_heap k))"
    and "alloc_spec 4 (unat (freeSegment (k_heap k))) (heap_blocks hi (k_heap k)) = Some (c, bl)"
  shows "\<exists>k1. create_future s ready k = Some (Inr (\<lparr>fut_type = SleepFuture, fut_context = of_nat c, is_ready = ready\<rparr>, k1))"
  using malloc_refines [OF assms(1), of 4] assms(2,3)
  by (auto simp: create_future_def alloc_sleep_context_def get_tick_def Let_def k_cli_def k_sti_def)

lemma add_future_between:
  assumes "list_between ctx k" "lastIdx k < 9" "fut_context fut = ctx"
  shows "\<exists>k1. add_future E fut k = Some (Inr k1) \<and> tick k1 = tick k \<and> k_heap k1 = k_heap k
    \<and> lastIdx k1 = lastIdx k + 1 \<and> list_between ctx k1"
proof -
  define i where "i = lastIdx k + 1"
  have i: "0 \<le> i" "i < 10" "lastIdx k \<noteq> 10" "lastIdx k + 1 = i" using assms(1,2) by (auto simp: i_def list_between_def)
  have "fut_context ((timeFutures k)[nat i := fut] ! 0) = ctx"
    using assms i by (cases "i = 0") (auto simp: list_between_def)
  then show ?thesis
    using i assms(1) by (simp add: add_future_def guarded_def FUTURE_COUNT_def k_cli_def k_sti_def Let_def
        rtc_registered_def list_between_def)
qed

lemma sleep_round:
  assumes b: "between_sleeps hi base bl (of_nat c) k" and n: "lastIdx k < 9"
    and a: "4 \<le> unat base" "alloc_spec 4 (unat base) bl = Some (c, bl')"
    and t: "unat (tick k) + unat s * 256 < 2 ^ 32"
  shows "\<exists>fut k1 k2. create_future s Fut_is_ready k = Some (Inr (fut, k1)) \<and> await E (rtc_irq E) fut k1 = Some (Inr k2)
    \<and> between_sleeps hi base bl (of_nat c) k2 \<and> lastIdx k2 = lastIdx k + 1
    \<and> unat (tick k2) = unat (tick k) + unat s * 256"
proof -
  let ?ctx = "of_nat c :: u32" and ?t = "tick k + s * RTC_FREQ"
  have h: "heap_inv hi (k_heap k)" "freeSegment (k_heap k) = base" "heap_blocks hi (k_heap k) = bl"
    using b by (simp_all add: between_sleeps_def)
  define fut where "fut = \<lparr>fut_type = SleepFuture, fut_context = ?ctx, is_ready = Fut_is_ready\<rparr>"
  obtain k1 where c: "create_future s Fut_is_ready k = Some (Inr (fut, k1))"
    using create_future_alloc [OF h(1), of c bl' s Fut_is_ready] a h unfolding fut_def by auto
  have "unat (4 :: u32) \<le> heap_limit (k_heap k)" using a(1) h(2) by (simp add: heap_limit_def)
  from create_future_spec [OF h(1) this c] obtain h' where k1: "?ctx \<noteq> 0" "rtc_registered k1 = rtc_registered k"
    "lastIdx k1 = lastIdx k" "timeFutures k1 = timeFutures k" "tick k1 = tick k"
    "load32 (bytes (k_heap k1)) ?ctx = ?t" "free (k_heap k1) ?ctx = Some (Inr h')" "heap_inv hi h'"
    "freeSegment h' = base" "heap_blocks hi h' = bl"
    unfolding fut_def h by auto
  have "list_between ?ctx k1" "lastIdx k1 < 9"
    using b n k1 by (simp_all add: between_sleeps_def list_between_def)
  from add_future_between [OF this, of fut E] obtain k2 where k2: "add_future E fut k1 = Some (Inr k2)" "tick k2 = tick k"
    "k_heap k2 = k_heap k1" "lastIdx k2 = lastIdx k + 1" "list_between ?ctx k2"
    using k1 by (auto simp: fut_def)
  have e: "unat ?t = unat (tick k) + unat s * 256" by (rule unat_target [OF t])
  then have "tick k2 \<le> ?t" using k2(2) by (simp add: word_le_nat_alt)
  moreover have "list_future (k_heap k1) ?ctx ?t (lastIdx k2) (timeFutures k2) k2"
    using b k1 k2 by (simp add: list_future_def first_future_def between_sleeps_def list_between_def)
  ultimately obtain k3 where k3: "await_loop E (rtc_irq E) fut k2 = Some (Inr k3)" "tick k3 = ?t"
    "list_future (k_heap k1) ?ctx ?t (lastIdx k2) (timeFutures k2) k3"
    using list_waking.await_loop_returns [of "k_heap k1" ?ctx ?t "lastIdx k2" "timeFutures k2" k2 fut E E] by (auto simp: fut_def)
  then have "await E (rtc_irq E) fut k1 = Some (Inr (k3\<lparr>k_heap := h'\<rparr>))"
    using k1(7) k2(1) by (simp add: await_def delete_future_def fut_def list_future_def first_future_def)
  moreover have "between_sleeps hi base bl ?ctx (k3\<lparr>k_heap := h'\<rparr>)"
    using k1 k2(5) k3(3) by (simp add: between_sleeps_def list_between_def list_future_def first_future_def rtc_registered_def)
  ultimately show ?thesis
    using c k2(4) k3 e by (intro exI conjI) (assumption | simp add: list_future_def)+
qed

lemma sleep_futures_run:
  assumes "between_sleeps hi base bl (of_nat c) k" "4 \<le> unat base" "alloc_spec 4 (unat base) bl = Some (c, bl')"
    and "unat (tick k) + sum_list (map unat ss) * 256 < 2 ^ 32" "lastIdx k + int (length ss) \<le> 9"
  shows "\<exists>k'. sleep_futures E ss k = Some (Inr k') \<and> between_sleeps hi base bl (of_nat c) k'
    \<and> lastIdx k' = lastIdx k + int (length ss) \<and> unat (tick k') = unat (tick k) + sum_list (map unat ss) * 256"
  using assms(1,4,5)
proof (induction ss arbitrary: k)
  case (Cons s ss)
  have "lastIdx k < 9" "unat (tick k) + unat s * 256 < 2 ^ 32" using Cons.prems(2,3) by auto
  from sleep_round [OF Cons.prems(1) this(1) assms(2,3) this(2), of E] obtain fut k1 k2 where r:
    "create_future s Fut_is_ready k = Some (Inr (fut, k1))" "await E (rtc_irq E) fut k1 = Some (Inr k2)"
    "between_sleeps hi base bl (of_nat c) k2" "lastIdx k2 = lastIdx k + 1" "unat (tick k2) = unat (tick k) + unat s * 256"
    by blast
  obtain k' where "sleep_futures E ss k2 = Some (Inr k')" "between_sleeps hi base bl (of_nat c) k'"
    "lastIdx k' = lastIdx k2 + int (length ss)" "unat (tick k') = unat (tick k2) + sum_list (map unat ss) * 256"
    using Cons.IH [OF r(3)] Cons.prems(2,3) r(4,5) by auto
  then show ?case using r by simp
qed simp

lemma sleep_futures_append:
  "sleep_futures E ss k = Some (Inr k') \<Longrightarrow> sleep_futures E (ss @ ts) k = sleep_futures E ts k'"
  by (induction ss arbitrary: k) (auto simp: bindE_def split: option.splits sum.splits prod.splits)

lemma sleep_futures_full:
  assumes "between_sleeps hi base bl (of_nat c) k" "4 \<le> unat base" "alloc_spec 4 (unat base) bl = Some (c, bl')" "lastIdx k = 9"
  shows "sleep_futures E (s # ss) k = Some (Inl (Undefined ''timeFutures: index out of bounds''))"
proof -
  have h: "heap_inv hi (k_heap k)" "freeSegment (k_heap k) = base" "heap_blocks hi (k_heap k) = bl"
    using assms(1) by (simp_all add: between_sleeps_def)
  let ?fut = "\<lparr>fut_type = SleepFuture, fut_context = of_nat c, is_ready = Fut_is_ready\<rparr>"
  obtain k1 where c: "create_future s Fut_is_ready k = Some (Inr (?fut, k1))"
    using create_future_alloc [OF h(1), of c bl' s Fut_is_ready] assms(2,3) h by auto
  have "unat (4 :: u32) \<le> heap_limit (k_heap k)" using assms(2) h(2) by (simp add: heap_limit_def)
  from create_future_spec [OF h(1) this c] have "lastIdx k1 = 9" using assms(4) by auto
  then have "await E (rtc_irq E) ?fut k1 = Some (Inl (Undefined ''timeFutures: index out of bounds''))"
    by (simp add: await_def add_future_def guarded_def FUTURE_COUNT_def k_cli_def)
  with c show ?thesis by simp
qed

text \<open>
  C7. Sleep futures created and awaited one after another, from an empty list: up to ten of them wait
  exactly the sum of their times and leave the blocks of the heap as they were, although the clock
  looks at the first future only, whose context has been freed; first fit gives every one the same
  context. The eleventh is stored behind the array.
\<close>

theorem sleeps_in_a_row:
  assumes "rtc_registered k" "lastIdx k = -1" "length (timeFutures k) = 10"
    and "heap_inv hi (k_heap k)" "4 \<le> unat (freeSegment (k_heap k))" "malloc (k_heap k) 4 = Some (Inr (p, h))"
    and "unat (tick k) + sum_list (map unat ss) * 256 < 2 ^ 32"
  shows "(length ss \<le> 10 \<longrightarrow> (\<exists>k'. sleep_futures E ss k = Some (Inr k')
      \<and> unat (tick k') = unat (tick k) + sum_list (map unat ss) * 256
      \<and> heap_inv hi (k_heap k') \<and> heap_blocks hi (k_heap k') = heap_blocks hi (k_heap k)))
    \<and> (10 < length ss \<longrightarrow> sleep_futures E ss k = Some (Inl (Undefined ''timeFutures: index out of bounds'')))"
proof -
  let ?base = "freeSegment (k_heap k)" and ?bl = "heap_blocks hi (k_heap k)"
  have a: "alloc_spec 4 (unat ?base) ?bl = Some (unat p, heap_blocks hi h)"
    by (rule malloc_SomeE [OF assms(4) _ assms(6)]) (use assms(5) in \<open>simp_all add: heap_limit_def\<close>)
  have b: "between_sleeps hi ?base ?bl (of_nat (unat p)) k"
    using assms(1-4) by (simp add: between_sleeps_def list_between_def)
  note run = sleep_futures_run [OF b assms(5) a, of _ E]
  show ?thesis
  proof (intro conjI impI)
    assume "length ss \<le> 10"
    then show "\<exists>k'. sleep_futures E ss k = Some (Inr k')
      \<and> unat (tick k') = unat (tick k) + sum_list (map unat ss) * 256
      \<and> heap_inv hi (k_heap k') \<and> heap_blocks hi (k_heap k') = ?bl"
      using run [of ss] assms(2,7) by (auto simp: between_sleeps_def)
  next
    assume l: "10 < length ss"
    then obtain s ts where ts: "drop 10 ss = s # ts" by (cases "drop 10 ss") auto
    have "sum_list (map unat ss) = sum_list (map unat (take 10 ss)) + sum_list (map unat (drop 10 ss))"
      by (metis append_take_drop_id map_append sum_list_append)
    then obtain k' where k': "sleep_futures E (take 10 ss) k = Some (Inr k')"
      "between_sleeps hi ?base ?bl (of_nat (unat p)) k'" "lastIdx k' = 9"
      using run [of "take 10 ss"] assms(2,7) l by auto
    then have "sleep_futures E (take 10 ss @ s # ts) k = Some (Inl (Undefined ''timeFutures: index out of bounds''))"
      using sleep_futures_append [OF k'(1)] sleep_futures_full [OF k'(2) assms(5) a k'(3)] by simp
    then show "sleep_futures E ss k = Some (Inl (Undefined ''timeFutures: index out of bounds''))"
      by (metis ts append_take_drop_id)
  qed
qed

theorem sleeps_in_a_row_witness:
  "(\<exists>k'. sleep_futures test_env [3, 1, 4] (ticking_kernel\<lparr>k_heap := small_heap\<rparr>) = Some (Inr k') \<and> unat (tick k') = 2048)
    \<and> sleep_futures test_env (replicate 11 1) (ticking_kernel\<lparr>k_heap := small_heap\<rparr>)
      = Some (Inl (Undefined ''timeFutures: index out of bounds''))"
proof -
  let ?k = "ticking_kernel\<lparr>k_heap := small_heap\<rparr>"
  obtain h where h: "malloc (k_heap ?k) 4 = Some (Inr (4200, h))"
    using malloc_refines [of 4208 small_heap 4] by (auto simp: small_heap_facts alloc_spec.simps carve_def)
  have k: "rtc_registered ?k" "lastIdx ?k = -1" "length (timeFutures ?k) = 10" "tick ?k = 0"
    "heap_inv 4208 (k_heap ?k)" "4 \<le> unat (freeSegment (k_heap ?k))"
    by (simp_all add: ticking_kernel_def rtc_registered_def boot_kernel_def small_heap_facts)
  show ?thesis
    using sleeps_in_a_row [OF k(1-3,5,6) h, of "[3, 1, 4]" test_env]
      sleeps_in_a_row [OF k(1-3,5,6) h, of "replicate 11 1" test_env] k(4)
    by (auto simp: sum_list_replicate simp del: sleep_futures.simps)
qed

end
