(* ===== verification/Struct_Layout.thy ===== *)
theory Struct_Layout
  imports Boot
begin

text \<open>
  The structures of the boot information as C types, laid out by the rules of the i386 ABI: a member
  starts at the next multiple of its alignment, 64 bit integers are aligned to 4 bytes, a packed
  structure has no padding. The readers of Multiboot use literal offsets. Here memory is said to hold
  a structure when the bytes at the places of the declared members are those of their values, and the
  scan of the memory map is proved to find what the boot loader left in that layout.
\<close>

datatype ctype = Uint8 | Uint16 | Uint32 | Uint64 | Struct "(string \<times> ctype) list" | Packed "(string \<times> ctype) list" | Union "(string \<times> ctype) list"

subsection \<open>Sizes, alignments and offsets\<close>

definition round_up :: "nat \<Rightarrow> nat \<Rightarrow> nat" where
  "round_up n a = (n + a - 1) div a * a"

text \<open>Where members of the given sizes and alignments start, and where the last one ends.\<close>

fun offsets :: "nat \<Rightarrow> (nat \<times> nat) list \<Rightarrow> nat list" where
  "offsets n [] = []"
| "offsets n ((s, a) # ms) = round_up n a # offsets (round_up n a + s) ms"

fun end_offset :: "nat \<Rightarrow> (nat \<times> nat) list \<Rightarrow> nat" where
  "end_offset n [] = n"
| "end_offset n ((s, a) # ms) = end_offset (round_up n a + s) ms"

definition max_of :: "nat list \<Rightarrow> nat" where
  "max_of ns = foldr max ns 1"

definition struct_rep :: "(nat \<times> nat) list \<Rightarrow> nat \<times> nat" where
  "struct_rep ms = (round_up (end_offset 0 ms) (max_of (map snd ms)), max_of (map snd ms))"

definition union_rep :: "(nat \<times> nat) list \<Rightarrow> nat \<times> nat" where
  "union_rep ms = (round_up (max_of (map fst ms)) (max_of (map snd ms)), max_of (map snd ms))"

text \<open>The size and the alignment of a type.\<close>

primrec rep :: "ctype \<Rightarrow> nat \<times> nat" where
  "rep Uint8 = (1, 1)"
| "rep Uint16 = (2, 2)"
| "rep Uint32 = (4, 4)"
| "rep Uint64 = (8, 4)"
| "rep (Struct ms) = struct_rep (map snd (map (map_prod id rep) ms))"
| "rep (Packed ms) = (end_offset 0 (map (\<lambda>(_, s, _). (s, 1)) (map (map_prod id rep) ms)), 1)"
| "rep (Union ms) = union_rep (map snd (map (map_prod id rep) ms))"

definition sizeof :: "ctype \<Rightarrow> nat" where
  "sizeof t = fst (rep t)"

text \<open>The members of a type with the offsets and sizes they have in it.\<close>

fun members :: "ctype \<Rightarrow> (string \<times> nat \<times> nat) list" where
  "members (Struct ms) = zip (map fst ms) (zip (offsets 0 (map (rep \<circ> snd) ms)) (map (sizeof \<circ> snd) ms))"
| "members (Packed ms) = zip (map fst ms) (zip (offsets 0 (map (\<lambda>(_, t). (sizeof t, 1)) ms)) (map (sizeof \<circ> snd) ms))"
| "members (Union ms) = map (\<lambda>(x, t). (x, 0, sizeof t)) ms"
| "members _ = []"

definition offsetof :: "ctype \<Rightarrow> string \<Rightarrow> nat" where
  "offsetof t x = (case map_of (members t) x of Some (n, _) \<Rightarrow> n | None \<Rightarrow> sizeof t)"

lemma round_up_bounds: "0 < a \<Longrightarrow> n \<le> round_up n a" "0 < a \<Longrightarrow> a dvd round_up n a"
proof -
  assume a: "0 < a"
  have "n + a - 1 = (n + a - 1) div a * a + (n + a - 1) mod a" by simp
  moreover have "(n + a - 1) mod a < a" using a by simp
  ultimately show "n \<le> round_up n a" using a unfolding round_up_def by linarith
qed (simp add: round_up_def)

subsection \<open>multiboot.h\<close>

definition multiboot_header :: ctype where
  "multiboot_header = Struct [(''magic'', Uint32), (''flags'', Uint32), (''checksum'', Uint32),
     (''header_addr'', Uint32), (''load_addr'', Uint32), (''load_end_addr'', Uint32), (''bss_end_addr'', Uint32),
     (''entry_addr'', Uint32), (''mode_type'', Uint32), (''width'', Uint32), (''height'', Uint32), (''depth'', Uint32)]"

definition multiboot_aout_symbol_table :: ctype where
  "multiboot_aout_symbol_table = Struct [(''tabsize'', Uint32), (''strsize'', Uint32), (''addr'', Uint32), (''reserved'', Uint32)]"

definition multiboot_elf_section_header_table :: ctype where
  "multiboot_elf_section_header_table = Struct [(''num'', Uint32), (''size'', Uint32), (''addr'', Uint32), (''shndx'', Uint32)]"

definition multiboot_info :: ctype where
  "multiboot_info = Struct [(''flags'', Uint32), (''mem_lower'', Uint32), (''mem_upper'', Uint32),
     (''boot_device'', Uint32), (''cmdline'', Uint32), (''mods_count'', Uint32), (''mods_addr'', Uint32),
     (''u'', Union [(''aout_sym'', multiboot_aout_symbol_table), (''elf_sec'', multiboot_elf_section_header_table)]),
     (''mmap_length'', Uint32), (''mmap_addr'', Uint32), (''drives_length'', Uint32), (''drives_addr'', Uint32),
     (''config_table'', Uint32), (''boot_loader_name'', Uint32), (''apm_table'', Uint32),
     (''vbe_control_info'', Uint32), (''vbe_mode_info'', Uint32), (''vbe_mode'', Uint16),
     (''vbe_interface_seg'', Uint16), (''vbe_interface_off'', Uint16), (''vbe_interface_len'', Uint16),
     (''framebuffer_addr'', Uint64), (''framebuffer_pitch'', Uint32), (''framebuffer_width'', Uint32),
     (''framebuffer_height'', Uint32), (''framebuffer_bpp'', Uint8), (''framebuffer_type'', Uint8),
     ('''', Union [
       ('''', Struct [(''framebuffer_palette_addr'', Uint32), (''framebuffer_palette_num_colors'', Uint16)]),
       ('''', Struct [(''framebuffer_red_field_position'', Uint8), (''framebuffer_red_mask_size'', Uint8),
         (''framebuffer_green_field_position'', Uint8), (''framebuffer_green_mask_size'', Uint8),
         (''framebuffer_blue_field_position'', Uint8), (''framebuffer_blue_mask_size'', Uint8)])])]"

definition multiboot_mmap_entry :: ctype where
  "multiboot_mmap_entry = Packed [(''size'', Uint32), (''addr'', Uint64), (''len'', Uint64), (''type'', Uint32)]"

subsection \<open>Structures in memory\<close>

definition le_bytes :: "nat \<Rightarrow> u64 \<Rightarrow> u8 list" where
  "le_bytes n v = map (\<lambda>i. ucast (drop_bit (8 * i) v)) [0..<n]"

definition bytes_at :: "mem \<Rightarrow> u32 \<Rightarrow> nat \<Rightarrow> u8 list" where
  "bytes_at m a n = map (\<lambda>i. m (a + of_nat i)) [0..<n]"

text \<open>Memory holds a structure of a type at an address, with the values of some of its members.\<close>

definition holds :: "mem \<Rightarrow> u32 \<Rightarrow> ctype \<Rightarrow> (string \<times> u64) list \<Rightarrow> bool" where
  "holds m a t vs \<longleftrightarrow> list_all (\<lambda>(x, v). case map_of (members t) x of
       Some (p, n) \<Rightarrow> bytes_at m (a + of_nat p) n = le_bytes n v | None \<Rightarrow> False) vs"

definition entry_members :: "mmap_entry \<Rightarrow> (string \<times> u64) list" where
  "entry_members e = [(''size'', ucast (me_size e)), (''addr'', me_addr e), (''len'', me_len e), (''type'', ucast (me_type e))]"

text \<open>The boot information at \<open>mbd\<close>, with the entries of a memory map at an address, one behind the other.\<close>

definition holds_boot_info :: "mem \<Rightarrow> u32 \<Rightarrow> u32 \<Rightarrow> mmap_entry list \<Rightarrow> bool" where
  "holds_boot_info m mbd a es \<longleftrightarrow>
     holds m mbd multiboot_info [(''mmap_length'', of_nat (length es * sizeof multiboot_mmap_entry)), (''mmap_addr'', ucast a)]
     \<and> list_all (\<lambda>i. holds m (a + of_nat (i * sizeof multiboot_mmap_entry)) multiboot_mmap_entry (entry_members (es ! i)))
         [0..<length es]"

lemma upt_4: "[0..<4] = [0, 1, 2, 3]" and upt_8: "[0..<8] = [0, 1, 2, 3, 4, 5, 6, 7]"
  by (simp_all add: upt_rec)

lemma load32_held:
  assumes "bytes_at m a 4 = le_bytes 4 v"
  shows "load32 m a = ucast v"
proof -
  have d: "(ucast (drop_bit n v) :: u8) = ucast (drop_bit n (ucast v :: u32))" if "n + 8 \<le> 32" for n
    using that by (intro bit_word_eqI) (auto simp: bit_simps)
  have "m a = ucast v" "m (a + 1) = ucast (drop_bit 8 v)" "m (a + 2) = ucast (drop_bit 16 v)" "m (a + 3) = ucast (drop_bit 24 v)"
    using assms by (simp_all add: bytes_at_def le_bytes_def upt_4)
  then show ?thesis
    using d [of 0] d [of 8] d [of 16] d [of 24] bytes_of_word32 [of "ucast v"] by (simp add: load32_def)
qed

lemma load64_held:
  assumes "bytes_at m a 8 = le_bytes 8 v"
  shows "load64 m a = v"
proof -
  have "bytes_at m a 4 = le_bytes 4 v" "bytes_at m (a + 4) 4 = le_bytes 4 (drop_bit 32 v)"
    using assms by (simp_all add: bytes_at_def le_bytes_def upt_4 upt_8 add.assoc)
  then have "load32 m a = ucast v" "load32 m (a + 4) = ucast (drop_bit 32 v)" by (simp_all add: load32_held)
  then show ?thesis
    unfolding load64_def by (intro bit_word_eqI) (auto simp: bit_simps)
qed

lemma members_places:
  "map_of (members multiboot_info) ''mmap_length'' = Some (44, 4)" "map_of (members multiboot_info) ''mmap_addr'' = Some (48, 4)"
  "map_of (members multiboot_mmap_entry) ''size'' = Some (0, 4)" "map_of (members multiboot_mmap_entry) ''addr'' = Some (4, 8)"
  "map_of (members multiboot_mmap_entry) ''len'' = Some (12, 8)" "map_of (members multiboot_mmap_entry) ''type'' = Some (20, 4)"
  "sizeof multiboot_mmap_entry = 24"
  by code_simp+

lemma read_held_entry: "holds m p multiboot_mmap_entry (entry_members e) \<Longrightarrow> read_mmap_entry m p = e"
  using load32_held [of m p] load64_held [of m "p + 4"] load64_held [of m "p + 12"] load32_held [of m "p + 20"]
  by (simp add: holds_def entry_members_def members_places read_mmap_entry_def ucast_up_ucast_id is_up)

lemma ucast_of_nat32: "n < 2 ^ 32 \<Longrightarrow> ucast (of_nat n :: u64) = (of_nat n :: u32)"
  by (simp add: unsigned_of_nat take_bit_nat_eq_self)

lemma read_held_info:
  assumes "holds_boot_info m mbd a es" "length es * 24 < 2 ^ 32"
  shows "unat (mbd_mmap_length m mbd) = length es * 24" "mbd_mmap_addr m mbd = a"
proof -
  have "load32 m (mbd + 44) = of_nat (length es * 24)" "load32 m (mbd + 48) = a"
    using assms load32_held [of m "mbd + 44"] load32_held [of m "mbd + 48"]
    by (simp_all add: holds_boot_info_def holds_def members_places ucast_up_ucast_id is_up ucast_of_nat32 del: of_nat_mult)
  then show "unat (mbd_mmap_length m mbd) = length es * 24" "mbd_mmap_addr m mbd = a"
    using assms(2) by (simp_all only: mbd_mmap_length_def mbd_mmap_addr_def unat_of_nat32)
qed

lemma find_big_block_held:
  assumes "holds_boot_info m mbd a es" "length es * 24 < 2 ^ 31" "i \<le> length es"
  shows "find_big_block m mbd (i * 24) = Inr (find (\<lambda>e. (ucast (me_addr e) :: u32) = KERNEL_START) (drop i es))"
  using assms(3)
proof (induction "length es - i" arbitrary: i)
  case 0
  then show ?case using read_held_info [OF assms(1)] assms(2) by (subst find_big_block.simps) simp
next
  case (Suc n)
  then have i: "i < length es" by simp
  have "read_mmap_entry m (mbd_mmap_addr m mbd + of_nat (i * 24)) = es ! i"
    using assms(1) i read_held_info(2) [OF assms(1)] assms(2)
    by (intro read_held_entry) (simp add: holds_boot_info_def members_places list_all_iff)
  moreover have "i * 24 + 24 < 2 ^ 31" using i assms(2) by linarith
  moreover have "find_big_block m mbd (i * 24 + 24) = Inr (find (\<lambda>e. (ucast (me_addr e) :: u32) = KERNEL_START) (drop (Suc i) es))"
    using Suc.hyps(1) [of "Suc i"] Suc.hyps(2) i by (simp add: add.commute)
  ultimately show ?case
    using read_held_info(1) [OF assms(1)] assms(2) i
    by (subst find_big_block.simps) (simp add: Let_def sizeof_mmap_entry_def Cons_nth_drop_Suc [OF i, symmetric])
qed

text \<open>
  C26. The set-up of the heap against the declarations of the headers: when memory holds a
  \<open>multiboot_info\<close> and, where its \<open>mmap_addr\<close> points, packed entries one behind the other for
  \<open>mmap_length\<close> bytes, each member in the place that its declaration has under the ABI, the loop of
  \<open>initialize_free_segments\<close> finds the first entry that starts at \<open>KERNEL_START\<close>. Without one the kernel
  panics; with one that reaches far enough behind the image, the heap is the one free segment from
  \<open>KERNEL_END\<close> to the end of that entry, and nothing else in memory has changed.
\<close>

theorem memory_map_scanned:
  assumes "holds_boot_info (bytes h) mbd a es" "length es * sizeof multiboot_mmap_entry < 2 ^ 31"
    and "mbd \<noteq> 0" "freeSegment h = 0" "KERNEL_START \<le> kernel_end"
  shows "case find (\<lambda>e. (ucast (me_addr e) :: u32) = KERNEL_START) es of
      None \<Rightarrow> initialize_free_segments kernel_end h mbd = Inl (Panic ''Could not find a big block of memory!'')
    | Some e \<Rightarrow> (let hi = unat KERNEL_START + unat (me_len e) in
        unat kernel_end + 8 \<le> hi \<longrightarrow> hi < 2 ^ 32 \<longrightarrow>
          (\<exists>h'. initialize_free_segments kernel_end h mbd = Inr h' \<and> freeSegment h' = kernel_end
            \<and> heap_rel hi [Free (hi - unat kernel_end - 8)] h'
            \<and> (\<forall>x. unat x < unat kernel_end \<or> unat kernel_end + 8 \<le> unat x \<longrightarrow> bytes h' x = bytes h x)))"
proof -
  have f: "find_big_block (bytes h) mbd 0 = Inr (find (\<lambda>e. (ucast (me_addr e) :: u32) = KERNEL_START) es)"
    using find_big_block_held [OF assms(1), of 0] assms(2) by (simp add: members_places)
  show ?thesis
  proof (cases "find (\<lambda>e. (ucast (me_addr e) :: u32) = KERNEL_START) es")
    case None
    then show ?thesis using f assms(3,4) by (simp add: initialize_free_segments_def)
  next
    case (Some e)
    then show ?thesis using initialize_establishes [OF assms(3,4) _ assms(5), of e] f by (simp add: Let_def)
  qed
qed

text \<open>A map of two entries, the second of them at the kernel.\<close>

definition two_entries :: "mmap_entry list" where
  "two_entries = [\<lparr>me_size = 20, me_addr = 0, me_len = 0x9FC00, me_type = 1\<rparr>,
     \<lparr>me_size = 20, me_addr = 0x100000, me_len = 0x7EE0000, me_type = 1\<rparr>]"

definition two_entry_memory :: mem where
  "two_entry_memory x =
     (if 0x52C \<le> x \<and> x < 0x534 then (le_bytes 4 48 @ le_bytes 4 0x600) ! unat (x - 0x52C)
      else if 0x600 \<le> x \<and> x < 0x630 then (le_bytes 4 20 @ le_bytes 8 0 @ le_bytes 8 0x9FC00 @ le_bytes 4 1
        @ le_bytes 4 20 @ le_bytes 8 0x100000 @ le_bytes 8 0x7EE0000 @ le_bytes 4 1) ! unat (x - 0x600)
      else 0)"

lemma two_entry_memory_holds: "holds_boot_info two_entry_memory 0x500 0x600 two_entries"
  by code_simp

theorem memory_map_scanned_witness:
  "\<exists>h'. initialize_free_segments 0x1070A8 \<lparr>bytes = two_entry_memory, freeSegment = 0\<rparr> 0x500 = Inr h'
    \<and> heap_rel 0x7FE0000 [Free 0x7ED8F50] h'"
proof -
  let ?h = "\<lparr>bytes = two_entry_memory, freeSegment = 0\<rparr> :: heap"
  have h: "holds_boot_info (bytes ?h) 0x500 0x600 two_entries" using two_entry_memory_holds by simp
  have "find (\<lambda>e. (ucast (me_addr e) :: u32) = KERNEL_START) two_entries = Some (two_entries ! 1)"
    by (simp add: two_entries_def KERNEL_START_def)
  then show ?thesis
    using memory_map_scanned [OF h, of "0x1070A8"] by (auto simp: two_entries_def KERNEL_START_def members_places)
qed

end
