(* ===== verification/Linker.thy ===== *)
theory Linker
  imports Struct_Layout
begin

text \<open>
  The kernel image as kernel/arch/i386/linker.ld puts it together. An object file is the list of its
  sections, each with a name, an alignment and its bytes. The script is data: for each output section
  the names of the sections that go into it, in the order of its patterns. The linker takes for each
  pattern the sections of that name from the files in the order of the command line. Sections that
  the script does not name (the \<open>.init\<close> of crti.S, say) the linker puts behind an output section of
  their kind; their sizes are the parameter \<open>orphans\<close>.
\<close>

subsection \<open>Object files\<close>

record input_section =
  sec_name :: string
  sec_align :: nat
  sec_bytes :: "u8 list"

type_synonym object_file = "input_section list"
type_synonym placed = "(nat \<times> input_section) list"

definition word_bytes :: "u32 \<Rightarrow> u8 list" where
  "word_bytes w = [ucast w, ucast (drop_bit 8 w), ucast (drop_bit 16 w), ucast (drop_bit 24 w)]"

definition sec_end :: "nat \<times> input_section \<Rightarrow> nat" where
  "sec_end = (\<lambda>(p, s). p + length (sec_bytes s))"

subsection \<open>boot.S\<close>

definition boot_ALIGN :: u32 where "boot_ALIGN = push_bit 0 1"
definition boot_MEMINFO :: u32 where "boot_MEMINFO = push_bit 1 1"
definition boot_FLAGS :: u32 where "boot_FLAGS = or boot_ALIGN boot_MEMINFO"
definition boot_MAGIC :: u32 where "boot_MAGIC = 0x1BADB002"
definition boot_CHECKSUM :: u32 where "boot_CHECKSUM = - (boot_MAGIC + boot_FLAGS)"

definition boot_multiboot :: input_section where
  "boot_multiboot = \<lparr>sec_name = ''.multiboot'', sec_align = 4,
     sec_bytes = word_bytes boot_MAGIC @ word_bytes boot_FLAGS @ word_bytes boot_CHECKSUM\<rparr>"

text \<open>The stack: \<open>stack_bottom\<close> at its start and \<open>stack_top\<close> 4 bytes before its end.\<close>

definition boot_bss :: input_section where
  "boot_bss = \<lparr>sec_name = ''.bss'', sec_align = 16, sec_bytes = replicate 16380 0 @ replicate 4 0\<rparr>"

text \<open>The file, with the assembled instructions as a parameter.\<close>

definition boot_object :: "input_section \<Rightarrow> object_file" where
  "boot_object code = [code, boot_bss, boot_multiboot]"

subsection \<open>linker.ld\<close>

definition linker_script :: "(string \<times> string list) list" where
  "linker_script =
     [(''.text'', [''.multiboot'', ''.text'']),
      (''.rodata'', [''.rodata'']),
      (''.data'', [''.data'']),
      (''.bss'', [''COMMON'', ''.bss''])]"

definition select_inputs :: "object_file list \<Rightarrow> string list \<Rightarrow> input_section list" where
  "select_inputs files patterns = concat (map (\<lambda>p. filter (\<lambda>s. sec_name s = p) (concat files)) patterns)"

text \<open>Sections one behind the other, each at the next multiple of its alignment.\<close>

fun place_inputs :: "nat \<Rightarrow> input_section list \<Rightarrow> placed \<times> nat" where
  "place_inputs a [] = ([], a)"
| "place_inputs a (s # ss) =
     (let p = round_up a (sec_align s); (ps, e) = place_inputs (p + length (sec_bytes s)) ss in ((p, s) # ps, e))"

record output_section =
  out_name :: string
  out_start :: nat
  out_end :: nat
  out_inputs :: placed

fun place_outputs :: "(string \<Rightarrow> nat) \<Rightarrow> object_file list \<Rightarrow> nat \<Rightarrow> (string \<times> string list) list \<Rightarrow> output_section list \<times> nat" where
  "place_outputs orphans files a [] = ([], a)"
| "place_outputs orphans files a ((name, patterns) # rest) =
     (let s = round_up a 4096; (ps, e) = place_inputs s (select_inputs files patterns);
          (os, k) = place_outputs orphans files (if rest = [] then e else e + orphans name) rest
      in (\<lparr>out_name = name, out_start = s, out_end = e, out_inputs = ps\<rparr> # os, k))"

text \<open>The output sections and \<open>KERNEL_END\<close>.\<close>

definition kernel_image :: "(string \<Rightarrow> nat) \<Rightarrow> object_file list \<Rightarrow> output_section list \<times> nat" where
  "kernel_image orphans files = place_outputs orphans files (1024 * 1024) linker_script"

definition image_sections :: "output_section list \<Rightarrow> placed" where
  "image_sections os = concat (map out_inputs os)"

text \<open>The memory after the boot loader has loaded the image.\<close>

definition load_image :: "output_section list \<Rightarrow> mem \<Rightarrow> mem" where
  "load_image os m x = (case find (\<lambda>(p, s). p \<le> unat x \<and> unat x < p + length (sec_bytes s)) (image_sections os) of
     Some (p, s) \<Rightarrow> sec_bytes s ! (unat x - p) | None \<Rightarrow> m x)"

text \<open>The sections have alignments that divide the 4K of the script.\<close>

definition files_ok :: "object_file list \<Rightarrow> bool" where
  "files_ok files \<longleftrightarrow> list_all (list_all (\<lambda>s. 0 < sec_align s \<and> sec_align s dvd 4096)) files"

subsection \<open>Sections do not overlap\<close>

definition apart :: "placed \<Rightarrow> bool" where
  "apart ps \<longleftrightarrow> sorted_wrt (\<lambda>x y. sec_end x \<le> fst y) ps"

lemma place_inputs_facts:
  assumes "place_inputs a ss = (ps, e)" "list_all (\<lambda>s. 0 < sec_align s) ss"
  shows "a \<le> e \<and> map snd ps = ss \<and> apart ps \<and> (\<forall>x \<in> set ps. a \<le> fst x \<and> sec_end x \<le> e \<and> sec_align (snd x) dvd fst x)"
  using assms
proof (induction ss arbitrary: a ps e)
  case (Cons s ss)
  let ?p = "round_up a (sec_align s)"
  obtain ps' where ps: "place_inputs (?p + length (sec_bytes s)) ss = (ps', e)" "ps = (?p, s) # ps'"
    using Cons.prems(1) by (auto simp: Let_def split: prod.splits)
  have r: "a \<le> ?p" "sec_align s dvd ?p" using Cons.prems(2) by (simp_all add: round_up_bounds)
  show ?case
    using Cons.IH [OF ps(1)] Cons.prems(2) r unfolding ps(2) by (fastforce simp: apart_def sec_end_def)
qed (simp add: apart_def)

lemma select_inputs_ok: "files_ok files \<Longrightarrow> list_all (\<lambda>s. 0 < sec_align s) (select_inputs files patterns)"
  by (auto simp: files_ok_def select_inputs_def list_all_iff)

definition output_ok :: "nat \<Rightarrow> nat \<Rightarrow> output_section \<Rightarrow> bool" where
  "output_ok a k os \<longleftrightarrow> a \<le> out_start os \<and> 4096 dvd out_start os \<and> out_start os \<le> out_end os \<and> out_end os \<le> k
     \<and> apart (out_inputs os)
     \<and> (\<forall>x \<in> set (out_inputs os). out_start os \<le> fst x \<and> sec_end x \<le> out_end os \<and> sec_align (snd x) dvd fst x)"

lemma place_outputs_facts:
  assumes "place_outputs orphans files a script = (os, k)" "files_ok files"
  shows "a \<le> k \<and> map out_name os = map fst script \<and> list_all (output_ok a k) os
    \<and> sorted_wrt (\<lambda>x y. out_end x \<le> out_start y) os
    \<and> map (map snd \<circ> out_inputs) os = map (select_inputs files \<circ> snd) script
    \<and> (script \<noteq> [] \<longrightarrow> out_end (last os) = k)"
  using assms(1)
proof (induction script arbitrary: a os k)
  case (Cons c script)
  obtain name patterns where c: "c = (name, patterns)" by fastforce
  obtain ps e where p: "place_inputs (round_up a 4096) (select_inputs files patterns) = (ps, e)" by fastforce
  let ?e = "if script = [] then e else e + orphans name"
  obtain os' where o: "place_outputs orphans files ?e script = (os', k)"
      "os = \<lparr>out_name = name, out_start = round_up a 4096, out_end = e, out_inputs = ps\<rparr> # os'"
    using Cons.prems by (auto simp: c p Let_def split: prod.splits)
  have r: "a \<le> round_up a 4096" "4096 dvd round_up a 4096" by (simp_all add: round_up_bounds)
  note f = place_inputs_facts [OF p select_inputs_ok [OF assms(2)]]
  note ih = Cons.IH [OF o(1)]
  have le: "e \<le> k" "a \<le> k" using ih f r by (auto split: if_splits)
  have "output_ok a k (hd os)" using f r le by (auto simp: o(2) output_ok_def)
  moreover have "list_all (output_ok a k) os'" "\<forall>x \<in> set os'. e \<le> out_start x"
    using ih f r by (auto simp: list_all_iff output_ok_def split: if_splits)
  moreover have "script = [] \<Longrightarrow> os' = [] \<and> e = k" using o(1) by simp
  moreover have "script \<noteq> [] \<Longrightarrow> os' \<noteq> []" using ih by auto
  ultimately show ?case using ih f le(2) by (auto simp: o(2) c)
qed simp

lemma image_apart:
  assumes "list_all (output_ok a k) os" "sorted_wrt (\<lambda>x y. out_end x \<le> out_start y) os"
  shows "apart (image_sections os)"
  using assms
proof (induction os)
  case (Cons x os)
  have "sec_end u \<le> fst v" if u: "u \<in> set (out_inputs x)" and v: "v \<in> set (image_sections os)" for u v
  proof -
    obtain y where y: "y \<in> set os" "v \<in> set (out_inputs y)" using v by (auto simp: image_sections_def)
    have "output_ok a k x" "output_ok a k y" "out_end x \<le> out_start y" using Cons.prems y(1) by (auto simp: list_all_iff)
    then have "sec_end u \<le> out_end x" "out_start y \<le> fst v" using u y(2) by (simp_all add: output_ok_def)
    then show ?thesis using \<open>out_end x \<le> out_start y\<close> by linarith
  qed
  moreover have "apart (out_inputs x)" using Cons.prems by (simp add: output_ok_def)
  moreover have "apart (image_sections os)" using Cons by simp
  ultimately show ?case by (simp add: apart_def image_sections_def sorted_wrt_append)
qed (simp add: apart_def image_sections_def)

lemma apart_cases: "apart ps \<Longrightarrow> x \<in> set ps \<Longrightarrow> y \<in> set ps \<Longrightarrow> x = y \<or> sec_end x \<le> fst y \<or> sec_end y \<le> fst x"
  by (induction ps) (auto simp: apart_def)

lemma load_image_byte:
  assumes "apart (image_sections os)" "(p, s) \<in> set (image_sections os)" "p \<le> unat x" "unat x < p + length (sec_bytes s)"
  shows "load_image os m x = sec_bytes s ! (unat x - p)"
proof -
  let ?P = "\<lambda>(p, s). p \<le> unat x \<and> unat x < p + length (sec_bytes s)"
  obtain q t where f: "find ?P (image_sections os) = Some (q, t)"
    using assms(2-4) by (cases "find ?P (image_sections os)") (auto simp: find_None_iff)
  then have q: "(q, t) \<in> set (image_sections os)" "?P (q, t)" by (auto simp: find_Some_iff in_set_conv_nth)
  have "(q, t) = (p, s)"
    using apart_cases [OF assms(1) assms(2) q(1)] q(2) assms(3,4) by (auto simp: sec_end_def)
  then show ?thesis using f by (simp add: load_image_def)
qed

subsection \<open>The search of the boot loader\<close>

definition MULTIBOOT_HEADER_MAGIC :: u32 where "MULTIBOOT_HEADER_MAGIC = 0x1BADB002"
definition MULTIBOOT_SEARCH :: nat where "MULTIBOOT_SEARCH = 8192"
definition MULTIBOOT_HEADER_ALIGN :: nat where "MULTIBOOT_HEADER_ALIGN = 4"
definition MULTIBOOT_PAGE_ALIGN :: u32 where "MULTIBOOT_PAGE_ALIGN = 0x00000001"
definition MULTIBOOT_MEMORY_INFO :: u32 where "MULTIBOOT_MEMORY_INFO = 0x00000002"

text \<open>A member of the header at an address, and the first header in the searched part of the image.\<close>

definition header_field :: "mem \<Rightarrow> u32 \<Rightarrow> string \<Rightarrow> u32" where
  "header_field m a x = load32 m (a + of_nat (offsetof multiboot_header x))"

definition header_at :: "mem \<Rightarrow> u32 \<Rightarrow> bool" where
  "header_at m a \<longleftrightarrow> header_field m a ''magic'' = MULTIBOOT_HEADER_MAGIC
     \<and> header_field m a ''magic'' + header_field m a ''flags'' + header_field m a ''checksum'' = 0"

definition find_header :: "mem \<Rightarrow> u32 \<Rightarrow> nat option" where
  "find_header m start = find (\<lambda>i. header_at m (start + of_nat i))
     (filter (\<lambda>i. i mod MULTIBOOT_HEADER_ALIGN = 0) [0..<MULTIBOOT_SEARCH - 12 + 1])"

lemma load32_bytes:
  assumes "unat a + 4 \<le> 2 ^ 32" "\<And>i. i < 4 \<Longrightarrow> m (a + of_nat i) = word_bytes w ! i"
  shows "load32 m a = w"
  using assms(2) [of 0] assms(2) [of 1] assms(2) [of 2] assms(2) [of 3]
  by (simp add: load32_def word_bytes_def bytes_of_word32)

lemma offsets_header:
  "offsetof multiboot_header ''magic'' = 0" "offsetof multiboot_header ''flags'' = 4" "offsetof multiboot_header ''checksum'' = 8"
  by code_simp+

lemma header_loaded:
  fixes M :: mem
  assumes "apart (image_sections os)" "(unat a, boot_multiboot) \<in> set (image_sections os)" "unat a + 12 \<le> 2 ^ 32"
  defines "m \<equiv> load_image os M"
  shows "header_at m a" "header_field m a ''flags'' = or MULTIBOOT_PAGE_ALIGN MULTIBOOT_MEMORY_INFO"
proof -
  have b: "m (a + of_nat i) = sec_bytes boot_multiboot ! i" if "i < 12" for i
  proof -
    have "unat (a + of_nat i) = unat a + i" using that assms(3) by (intro unat_plus_small) simp
    moreover have "length (sec_bytes boot_multiboot) = 12" by (simp add: boot_multiboot_def word_bytes_def)
    ultimately show ?thesis unfolding m_def using that by (subst load_image_byte [OF assms(1,2)]) simp_all
  qed
  have "load32 m (a + of_nat n) = w" if "n + 4 \<le> 12" "\<And>i. i < 4 \<Longrightarrow> sec_bytes boot_multiboot ! (n + i) = word_bytes w ! i" for n w
  proof (rule load32_bytes)
    show "unat (a + of_nat n) + 4 \<le> 2 ^ 32" using that(1) assms(3) unat_plus_small [of a n] by simp
    show "m (a + of_nat n + of_nat i) = word_bytes w ! i" if "i < 4" for i
      using b [of "n + i"] that \<open>n + 4 \<le> 12\<close> \<open>\<And>i. i < 4 \<Longrightarrow> sec_bytes boot_multiboot ! (n + i) = word_bytes w ! i\<close>
      by (simp add: add.assoc)
  qed
  note field = this
  have l: "length (word_bytes w) = 4" for w by (simp add: word_bytes_def)
  have f: "header_field m a ''magic'' = boot_MAGIC" "header_field m a ''flags'' = boot_FLAGS"
      "header_field m a ''checksum'' = boot_CHECKSUM"
    unfolding header_field_def offsets_header by (rule field; simp add: boot_multiboot_def nth_append l)+
  then show "header_at m a" "header_field m a ''flags'' = or MULTIBOOT_PAGE_ALIGN MULTIBOOT_MEMORY_INFO"
    by (simp_all add: header_at_def boot_CHECKSUM_def boot_FLAGS_def boot_ALIGN_def boot_MEMINFO_def boot_MAGIC_def
        MULTIBOOT_HEADER_MAGIC_def MULTIBOOT_PAGE_ALIGN_def MULTIBOOT_MEMORY_INFO_def)
qed

subsection \<open>The image of the kernel\<close>

definition script_names :: "string list" where
  "script_names = concat (map snd linker_script)"

definition image_layout :: "object_file list \<Rightarrow> output_section list \<Rightarrow> nat \<Rightarrow> bool" where
  "image_layout files os kernel_end \<longleftrightarrow>
     map out_name os = [''.text'', ''.rodata'', ''.data'', ''.bss'']
     \<and> out_start (os ! 0) = unat KERNEL_START \<and> out_end (os ! 3) = kernel_end
     \<and> list_all (\<lambda>out. 4096 dvd out_start out \<and> out_start out \<le> out_end out) os
     \<and> sorted_wrt (\<lambda>x y. out_end x \<le> out_start y) os \<and> apart (image_sections os)
     \<and> list_all (list_all (\<lambda>s. sec_name s \<in> set script_names \<longrightarrow>
         list_ex (\<lambda>out. list_ex (\<lambda>(p, t). t = s \<and> out_start out \<le> p \<and> sec_align s dvd p \<and> sec_end (p, s) \<le> out_end out)
           (out_inputs out)) os)) files"

lemma kernel_image_layout:
  assumes "files_ok files" "kernel_image orphans files = (os, kernel_end)"
  shows "image_layout files os kernel_end" "list_all (output_ok (unat KERNEL_START) kernel_end) os"
    "map (map snd \<circ> out_inputs) os = map (select_inputs files \<circ> snd) linker_script"
proof -
  have u: "unat KERNEL_START = 1024 * 1024" by (simp add: KERNEL_START_def)
  note f = place_outputs_facts [OF assms(2) [unfolded kernel_image_def] assms(1)]
  show ok: "list_all (output_ok (unat KERNEL_START) kernel_end) os"
    and inputs: "map (map snd \<circ> out_inputs) os = map (select_inputs files \<circ> snd) linker_script"
    using f by (simp_all only: u)
  have names: "map out_name os = [''.text'', ''.rodata'', ''.data'', ''.bss'']" using f by (simp add: linker_script_def)
  then have "length (map out_name os) = 4" by simp
  then have len: "length os = 4" by simp
  have "round_up (1024 * 1024) 4096 = 1048576" by (simp add: round_up_def)
  then have start: "out_start (os ! 0) = unat KERNEL_START"
    using assms(2) by (auto simp: kernel_image_def linker_script_def Let_def u split: prod.splits)
  have "last os = os ! 3" using len by (subst last_conv_nth) auto
  then have fin: "out_end (os ! 3) = kernel_end" using f by (simp add: linker_script_def)
  have "list_ex (\<lambda>out. list_ex (\<lambda>(p, t). t = s \<and> out_start out \<le> p \<and> sec_align s dvd p \<and> sec_end (p, s) \<le> out_end out)
      (out_inputs out)) os" if s: "s \<in> set (concat files)" "sec_name s \<in> set script_names" for s
  proof -
    obtain c where c: "c \<in> set linker_script" "sec_name s \<in> set (snd c)" using s(2) by (auto simp: script_names_def)
    then have "s \<in> set (select_inputs files (snd c))" using s(1) by (auto simp: select_inputs_def)
    then have "s \<in> set (concat (map (map snd \<circ> out_inputs) os))" using c(1) unfolding inputs by auto
    then obtain out p where out: "out \<in> set os" "(p, s) \<in> set (out_inputs out)" by auto
    then have "output_ok (unat KERNEL_START) kernel_end out" using ok by (simp add: list_all_iff)
    then show ?thesis using out by (fastforce simp: output_ok_def list_ex_iff)
  qed
  then have "list_all (list_all (\<lambda>s. sec_name s \<in> set script_names \<longrightarrow>
      list_ex (\<lambda>out. list_ex (\<lambda>(p, t). t = s \<and> out_start out \<le> p \<and> sec_align s dvd p \<and> sec_end (p, s) \<le> out_end out)
        (out_inputs out)) os)) files" by (auto simp: list_all_iff)
  moreover have "list_all (\<lambda>out. 4096 dvd out_start out \<and> out_start out \<le> out_end out) os"
    using ok by (auto simp: list_all_iff output_ok_def)
  ultimately show "image_layout files os kernel_end"
    unfolding image_layout_def using names start fin f image_apart [OF ok] by blast
qed

lemma boot_header_first:
  assumes "files_ok files" "files = before @ boot_object code # after" "sec_name code = ''.text''"
    and "\<forall>s \<in> set (concat (before @ after)). sec_name s \<noteq> ''.multiboot''"
    and "kernel_image orphans files = (os, kernel_end)"
  shows "(unat KERNEL_START, boot_multiboot) \<in> set (image_sections os)"
proof -
  have none: "filter (\<lambda>s. sec_name s = ''.multiboot'') (concat before) = []"
      "filter (\<lambda>s. sec_name s = ''.multiboot'') (concat after) = []"
    using assms(4) by (auto simp: filter_empty_conv)
  have "filter (\<lambda>s. sec_name s = ''.multiboot'') (concat files) = [boot_multiboot]"
    using none assms(3) by (simp add: assms(2) boot_object_def boot_bss_def) (simp add: boot_multiboot_def)
  then obtain ss where sel: "select_inputs files [''.multiboot'', ''.text''] = boot_multiboot # ss"
    by (simp add: select_inputs_def)
  have "round_up 1048576 4096 = 1048576" "round_up 1048576 4 = 1048576" by (simp_all add: round_up_def)
  then have "(1048576, boot_multiboot) \<in> set (out_inputs (os ! 0)) \<and> 0 < length os"
    using assms(5) sel by (auto simp: kernel_image_def linker_script_def Let_def boot_multiboot_def split: prod.splits)
  then show ?thesis by (auto simp: image_sections_def KERNEL_START_def)
qed

text \<open>
  C21. The image of the kernel, linked by \<open>linker.ld\<close> from any object files, at any place of the command
  line among them the one of \<open>boot.S\<close>, which alone has a multiboot section. The output sections
  \<open>.text\<close>, \<open>.rodata\<close>, \<open>.data\<close> and \<open>.bss\<close> begin at \<open>KERNEL_START\<close>, are aligned to 4K and follow one
  another up to \<open>KERNEL_END\<close>; every section that the script names lies in one of them, at its
  alignment and overlapping no other. Loaded into memory, each byte of each section is at its place,
  and the search of a boot loader through the first 8192 bytes of the image for an aligned header whose
  words add up to 0 finds one at once, with the requests for page alignment and memory information.
\<close>

theorem kernel_image_valid:
  assumes "files_ok files" "files = before @ boot_object code # after" "sec_name code = ''.text''"
    and "\<forall>s \<in> set (concat (before @ after)). sec_name s \<noteq> ''.multiboot''"
    and "kernel_image orphans files = (os, kernel_end)" "kernel_end \<le> 2 ^ 32"
  shows "image_layout files os kernel_end
    \<and> (\<forall>(p, s) \<in> set (image_sections os). \<forall>i < length (sec_bytes s). load_image os M (of_nat (p + i)) = sec_bytes s ! i)
    \<and> find_header (load_image os M) KERNEL_START = Some 0
    \<and> header_field (load_image os M) KERNEL_START ''flags'' = or MULTIBOOT_PAGE_ALIGN MULTIBOOT_MEMORY_INFO"
proof (intro conjI)
  show lay: "image_layout files os kernel_end" using kernel_image_layout [OF assms(1,5)] by blast
  then have a: "apart (image_sections os)" by (simp add: image_layout_def)
  have "load_image os M (of_nat (p + i)) = sec_bytes s ! i" if ps: "(p, s) \<in> set (image_sections os)" "i < length (sec_bytes s)" for p s i
  proof -
    obtain out where "out \<in> set os" "(p, s) \<in> set (out_inputs out)" using ps(1) by (auto simp: image_sections_def)
    then have "sec_end (p, s) \<le> kernel_end"
      using kernel_image_layout(2) [OF assms(1,5)] by (fastforce simp: list_all_iff output_ok_def)
    then have "unat (of_nat (p + i) :: u32) = p + i" using ps(2) assms(6) by (intro unat_of_nat32) (simp add: sec_end_def)
    then show ?thesis using load_image_byte [OF a ps(1), of "of_nat (p + i)" M] ps(2) by simp
  qed
  then show "\<forall>(p, s) \<in> set (image_sections os). \<forall>i < length (sec_bytes s). load_image os M (of_nat (p + i)) = sec_bytes s ! i"
    by blast
  note h = header_loaded [OF a boot_header_first [OF assms(1-5)], of M]
  show "header_field (load_image os M) KERNEL_START ''flags'' = or MULTIBOOT_PAGE_ALIGN MULTIBOOT_MEMORY_INFO"
    using h(2) by (simp add: KERNEL_START_def)
  have "header_at (load_image os M) (KERNEL_START + of_nat 0)" using h(1) by (simp add: KERNEL_START_def)
  moreover have "\<exists>xs. filter (\<lambda>i. i mod MULTIBOOT_HEADER_ALIGN = 0) [0..<Suc n] = 0 # xs" for n
    by (simp add: upt_conv_Cons del: upt_Suc)
  then obtain xs where "filter (\<lambda>i. i mod MULTIBOOT_HEADER_ALIGN = 0) [0..<MULTIBOOT_SEARCH - 12 + 1] = 0 # xs"
    unfolding Suc_eq_plus1 by blast
  ultimately show "find_header (load_image os M) KERNEL_START = Some 0"
    unfolding find_header_def by (simp only: find.simps if_True)
qed

text \<open>A command line with another file before the one of \<open>boot.S\<close>.\<close>

definition sample_section :: "string \<Rightarrow> nat \<Rightarrow> nat \<Rightarrow> input_section" where
  "sample_section name al n = \<lparr>sec_name = name, sec_align = al, sec_bytes = replicate n 0x90\<rparr>"

definition sample_files :: "object_file list" where
  "sample_files =
     [[sample_section ''.init'' 4 16, sample_section ''.text'' 16 40000],
      boot_object (sample_section ''.text'' 4 20),
      [sample_section ''.bss'' 32 70000, sample_section ''.rodata'' 4 100, sample_section ''.data'' 4 8]]"

definition sample_image :: "output_section list" where
  "sample_image = fst (kernel_image (\<lambda>name. if name = ''.text'' then 16 else 0) sample_files)"

lemma sample_simps:
  "sec_name (sample_section x a n) = x" "sec_align (sample_section x a n) = a" "length (sec_bytes (sample_section x a n)) = n"
  "sec_name boot_bss = ''.bss''" "sec_align boot_bss = 16" "length (sec_bytes boot_bss) = 16384"
  "sec_name boot_multiboot = ''.multiboot''" "sec_align boot_multiboot = 4" "length (sec_bytes boot_multiboot) = 12"
  by (simp_all add: sample_section_def boot_bss_def boot_multiboot_def word_bytes_def)

lemma sample_inputs:
  "select_inputs sample_files [''.multiboot'', ''.text''] =
     [boot_multiboot, sample_section ''.text'' 16 40000, sample_section ''.text'' 4 20]"
  "select_inputs sample_files [''.rodata''] = [sample_section ''.rodata'' 4 100]"
  "select_inputs sample_files [''.data''] = [sample_section ''.data'' 4 8]"
  "select_inputs sample_files [''COMMON'', ''.bss''] = [boot_bss, sample_section ''.bss'' 32 70000]"
  by (simp_all add: select_inputs_def sample_files_def boot_object_def sample_simps)

lemma sample_round [simp]:
  "round_up 1048576 4096 = 1048576" "round_up 1048576 4 = 1048576" "round_up 1048588 16 = 1048592" "round_up 1088592 4 = 1088592"
  "round_up 1088628 4096 = 1089536" "round_up 1089536 4 = 1089536" "round_up 1089636 4096 = 1093632"
  "round_up 1093632 4 = 1093632" "round_up 1093640 4096 = 1097728" "round_up 1097728 16 = 1097728" "round_up 1114112 32 = 1114112"
  by (simp_all add: round_up_def)

lemma sample_placed:
  "place_inputs 1048576 [boot_multiboot, sample_section ''.text'' 16 40000, sample_section ''.text'' 4 20] =
     ([(1048576, boot_multiboot), (1048592, sample_section ''.text'' 16 40000), (1088592, sample_section ''.text'' 4 20)], 1088612)"
  "place_inputs 1089536 [sample_section ''.rodata'' 4 100] = ([(1089536, sample_section ''.rodata'' 4 100)], 1089636)"
  "place_inputs 1093632 [sample_section ''.data'' 4 8] = ([(1093632, sample_section ''.data'' 4 8)], 1093640)"
  "place_inputs 1097728 [boot_bss, sample_section ''.bss'' 32 70000] =
     ([(1097728, boot_bss), (1114112, sample_section ''.bss'' 32 70000)], 1184112)"
  by (simp_all add: sample_simps)

lemma sample_image_eq:
  "kernel_image (\<lambda>name. if name = ''.text'' then 16 else 0) sample_files = (sample_image, 1184112)"
  "map out_start sample_image = [1048576, 1089536, 1093632, 1097728]" "(1097728, boot_bss) \<in> set (out_inputs (sample_image ! 3))"
proof -
  have i: "\<exists>os. kernel_image (\<lambda>name. if name = ''.text'' then 16 else 0) sample_files = (os, 1184112)
      \<and> map out_start os = [1048576, 1089536, 1093632, 1097728] \<and> (1097728, boot_bss) \<in> set (out_inputs (os ! 3))"
    by (simp add: kernel_image_def linker_script_def sample_inputs sample_placed del: place_inputs.simps)
  then show "kernel_image (\<lambda>name. if name = ''.text'' then 16 else 0) sample_files = (sample_image, 1184112)"
    "map out_start sample_image = [1048576, 1089536, 1093632, 1097728]" "(1097728, boot_bss) \<in> set (out_inputs (sample_image ! 3))"
    by (auto simp: sample_image_def)
qed

lemma sample_files_ok:
  "files_ok sample_files" "sample_files = [hd sample_files] @ boot_object (sample_section ''.text'' 4 20) # [last sample_files]"
  "\<forall>s \<in> set (concat ([hd sample_files] @ [last sample_files])). sec_name s \<noteq> ''.multiboot''"
  by (simp_all add: sample_files_def files_ok_def boot_object_def sample_simps)

theorem kernel_image_valid_witness:
  "map out_start sample_image = [1048576, 1089536, 1093632, 1097728] \<and> image_layout sample_files sample_image 1184112
    \<and> find_header (load_image sample_image (\<lambda>_. 0)) KERNEL_START = Some 0
    \<and> header_field (load_image sample_image (\<lambda>_. 0)) KERNEL_START ''flags'' = 3"
  using kernel_image_valid [OF sample_files_ok(1,2) sample_simps(1) sample_files_ok(3) sample_image_eq(1), of "\<lambda>_. 0"] sample_image_eq(2)
  by (simp add: MULTIBOOT_PAGE_ALIGN_def MULTIBOOT_MEMORY_INFO_def)

end
