(* ===== verification/Start.thy ===== *)
theory Start
  imports Linker
begin

text \<open>
  The entry of the kernel: \<open>_start\<close> of kernel/arch/i386/boot.S, on the stack that the linker places in
  \<open>.bss\<close>. The assembly is a list of instructions that a small machine executes; the program counter
  is a position in the list. \<open>kernel_main\<close> is a parameter of the machine, a function from its two
  arguments and the processor to the processor after its return, \<open>None\<close> if it does not return. A
  halted processor goes on only when something wakes it up, and then behind the \<open>hlt\<close>.
\<close>

unbundle bit_operations_syntax

text \<open>The symbol \<open>stack_top\<close>, for the place of the \<open>.bss\<close> section of boot.S.\<close>

definition stack_top :: "nat \<Rightarrow> nat" where
  "stack_top a = a + 16380"

subsection \<open>The entry point\<close>

datatype reg = Eax | Ebx

datatype boot_instr = Mov_to_esp u32 | Push reg | Call_kernel_main | Cli_instr | Hlt_instr | Jmp nat | Mov_esp_to_eax

record cpu =
  eax :: u32
  ebx :: u32
  esp :: u32
  iflag :: bool
  cmem :: mem

fun reg_val :: "reg \<Rightarrow> cpu \<Rightarrow> u32" where
  "reg_val Eax c = eax c"
| "reg_val Ebx c = ebx c"

definition push_word :: "u32 \<Rightarrow> cpu \<Rightarrow> cpu" where
  "push_word v c = c\<lparr>esp := esp c - 4, cmem := store32 (cmem c) (esp c - 4) v\<rparr>"

text \<open>\<open>_start\<close> from position 0, and behind it \<open>get_esp\<close>.\<close>

definition start_code :: "u32 \<Rightarrow> boot_instr list" where
  "start_code tos = [Mov_to_esp tos, Push Eax, Push Ebx, Call_kernel_main, Cli_instr, Hlt_instr, Jmp 5, Mov_esp_to_eax]"

definition get_esp_entry :: nat where "get_esp_entry = 7"

text \<open>
  The arguments of a call lie above the return address. \<open>None\<close> is a call that does not return, or a
  position behind the code of the file.
\<close>

definition exec_boot :: "(u32 \<Rightarrow> u32 \<Rightarrow> cpu \<Rightarrow> cpu option) \<Rightarrow> u32 \<Rightarrow> u32 \<Rightarrow> nat \<times> cpu \<Rightarrow> (nat \<times> cpu) option" where
  "exec_boot main ret tos s =
     (case s of (pc, c) \<Rightarrow>
        if pc < length (start_code tos) then
          (case start_code tos ! pc of
             Mov_to_esp v \<Rightarrow> Some (pc + 1, c\<lparr>esp := v\<rparr>)
           | Push r \<Rightarrow> Some (pc + 1, push_word (reg_val r c) c)
           | Call_kernel_main \<Rightarrow>
               let c = push_word ret c in
               map_option (Pair (pc + 1)) (main (load32 (cmem c) (esp c + 4)) (load32 (cmem c) (esp c + 8)) c)
           | Cli_instr \<Rightarrow> Some (pc + 1, c\<lparr>iflag := False\<rparr>)
           | Hlt_instr \<Rightarrow> Some (pc + 1, c)
           | Jmp n \<Rightarrow> Some (n, c)
           | Mov_esp_to_eax \<Rightarrow> Some (pc + 1, c\<lparr>eax := esp c\<rparr>))
        else None)"

fun exec_boot_n :: "nat \<Rightarrow> (u32 \<Rightarrow> u32 \<Rightarrow> cpu \<Rightarrow> cpu option) \<Rightarrow> u32 \<Rightarrow> u32 \<Rightarrow> nat \<times> cpu \<Rightarrow> (nat \<times> cpu) option" where
  "exec_boot_n 0 main ret tos s = Some s"
| "exec_boot_n (Suc n) main ret tos s = (case exec_boot main ret tos s of None \<Rightarrow> None | Some s \<Rightarrow> exec_boot_n n main ret tos s)"

definition halting :: "nat \<times> cpu \<Rightarrow> bool" where
  "halting s \<longleftrightarrow> fst s \<in> {5, 6} \<and> \<not> iflag (snd s)"

lemma halting_exec: "halting s \<Longrightarrow> \<exists>t. exec_boot main ret tos s = Some t \<and> halting t"
  by (cases s) (auto simp: halting_def exec_boot_def start_code_def)

lemma halting_exec_n: "halting s \<Longrightarrow> \<exists>t. exec_boot_n n main ret tos s = Some t \<and> halting t"
proof (induction n arbitrary: s)
  case (Suc n)
  then show ?case using halting_exec [of s main ret tos] by fastforce
qed simp

lemma unat_minus4: "12 \<le> unat t \<Longrightarrow> unat (t - 4 :: u32) = unat t - 4" "12 \<le> unat t \<Longrightarrow> unat (t - 8 :: u32) = unat t - 8"
  "12 \<le> unat t \<Longrightarrow> unat (t - 12 :: u32) = unat t - 12"
  by (simp_all add: unat_sub word_le_nat_alt)

lemma pushes:
  fixes c :: cpu and a b ret x tos :: u32
  assumes "12 \<le> unat tos"
  defines "c1 \<equiv> push_word ret (push_word b (push_word a (c\<lparr>esp := tos\<rparr>)))"
  shows "load32 (cmem c1) (esp c1 + 4) = b" "load32 (cmem c1) (esp c1 + 8) = a" "esp c1 = tos - 12"
    "unat x < unat tos - 12 \<or> unat tos \<le> unat x \<Longrightarrow> cmem c1 x = cmem c x"
proof -
  have u: "unat (tos - 4) = unat tos - 4" "unat (tos - 8) = unat tos - 8" "unat (tos - 12) = unat tos - 12"
    using assms(1) by (simp_all add: unat_minus4)
  have t: "unat tos < 2 ^ 32" by (rule unat_less32)
  have e: "esp c1 = tos - 12" "cmem c1 = store32 (store32 (store32 (cmem c) (tos - 4) a) (tos - 8) b) (tos - 12) ret"
    by (simp_all add: c1_def push_word_def)
  show "esp c1 = tos - 12" by (rule e(1))
  show "load32 (cmem c1) (esp c1 + 4) = b"
    using assms(1) t u by (simp add: e load32_store32_other load32_store32_same)
  have "load32 (store32 (store32 m (tos - 8) b) (tos - 12) ret) (tos - 4) = load32 m (tos - 4)" for m
    using assms(1) t u by (intro load32_store32_other [THEN trans] load32_store32_other) linarith+
  then show "load32 (cmem c1) (esp c1 + 8) = a" by (simp add: e load32_store32_same)
  show "unat x < unat tos - 12 \<or> unat tos \<le> unat x \<Longrightarrow> cmem c1 x = cmem c x"
    unfolding e(2) using assms(1) t u by (intro store32_other [THEN trans] store32_other) auto
qed

lemma exec_boot_n_add:
  "exec_boot_n (m + n) main ret tos s = (case exec_boot_n m main ret tos s of None \<Rightarrow> None | Some s \<Rightarrow> exec_boot_n n main ret tos s)"
  by (induction m arbitrary: s) (auto split: option.splits)

lemma exec_start:
  "exec_boot_n 4 main ret tos (0, c) =
    (let c1 = push_word ret (push_word (ebx c) (push_word (eax c) (c\<lparr>esp := tos\<rparr>)))
     in map_option (Pair 4) (main (load32 (cmem c1) (esp c1 + 4)) (load32 (cmem c1) (esp c1 + 8)) c1))"
  by (simp add: exec_boot_def start_code_def numeral_eq_Suc Let_def push_word_def split: option.splits)

text \<open>
  C25. \<open>_start\<close>, with its stack where the linker puts the \<open>.bss\<close> section of boot.S: it calls
  \<open>kernel_main\<close> with the two registers of the boot loader in the order of its parameters (\<open>ebx\<close> is the
  boot information, \<open>eax\<close> the magic number), on an aligned stack inside the \<open>.bss\<close> of the image,
  having written nothing outside of that section, so nothing of any other and nothing from
  \<open>KERNEL_END\<close> on, where the heap will be. If \<open>kernel_main\<close> returns, interrupts are disabled and the processor
  stays in the halt loop, however often it is woken up. \<open>get_esp\<close> has no \<open>ret\<close> and runs on behind
  the code of the file.
\<close>

theorem start_enters_kernel_main:
  assumes "files_ok files" "kernel_image orphans files = (os, kernel_end)" "kernel_end < 2 ^ 32"
    and "(a, boot_bss) \<in> set (out_inputs (os ! 3))"
  shows "\<exists>c1. exec_boot_n 4 main ret (of_nat (stack_top a)) (0, c) = map_option (Pair 4) (main (ebx c) (eax c) c1)
    \<and> out_start (os ! 3) \<le> a \<and> 16 dvd a \<and> a \<le> unat (esp c1) \<and> unat (esp c1) + 12 = stack_top a \<and> stack_top a + 4 \<le> kernel_end
    \<and> (\<forall>x. unat x < a \<or> a + length (sec_bytes boot_bss) \<le> unat x \<longrightarrow> cmem c1 x = cmem c x)
    \<and> (\<forall>c2 n. main (ebx c) (eax c) c1 = Some c2 \<longrightarrow>
        (\<exists>s. exec_boot_n (5 + n) main ret (of_nat (stack_top a)) (0, c) = Some s \<and> halting s))
    \<and> exec_boot_n 2 main ret (of_nat (stack_top a)) (get_esp_entry, c) = None"
proof -
  let ?t = "of_nat (stack_top a) :: u32"
  have len: "length os = 4" "out_end (os ! 3) = kernel_end"
    using kernel_image_layout(1) [OF assms(1,2)] by (auto simp: image_layout_def dest: arg_cong [where f = length])
  have "os ! 3 \<in> set os" using len(1) by simp
  then have "output_ok (unat KERNEL_START) kernel_end (os ! 3)"
    using kernel_image_layout(2) [OF assms(1,2)] unfolding list_all_iff by blast
  then have bss: "out_start (os ! 3) \<le> a" "16 dvd a" "a + 16384 \<le> kernel_end"
    using assms(4) len(2) by (fastforce simp: output_ok_def sec_end_def boot_bss_def)+
  then have "unat ?t = stack_top a" using assms(3) by (intro unat_of_nat32) (simp add: stack_top_def)
  then have t: "unat ?t = stack_top a" "a + 16380 = stack_top a" by (simp_all add: stack_top_def)
  then have b: "12 \<le> unat ?t" by simp
  define c1 where "c1 = push_word ret (push_word (ebx c) (push_word (eax c) (c\<lparr>esp := ?t\<rparr>)))"
  note p = pushes [OF b, where c = c and a = "eax c" and b = "ebx c" and ret = ret, folded c1_def]
  have run: "exec_boot_n 4 main ret ?t (0, c) = map_option (Pair 4) (main (ebx c) (eax c) c1)"
    unfolding exec_start using p(1,2) by (simp add: c1_def Let_def)
  have "unat (esp c1) = stack_top a - 12" using b t by (simp add: p(3) unat_minus4)
  then have e: "a \<le> unat (esp c1)" "unat (esp c1) + 12 = stack_top a" using t by simp_all
  have mem: "cmem c1 x = cmem c x" if "unat x < a \<or> a + length (sec_bytes boot_bss) \<le> unat x" for x
    using that t by (intro p(4)) (auto simp: boot_bss_def)
  have halts: "\<exists>s. exec_boot_n (5 + n) main ret ?t (0, c) = Some s \<and> halting s" if "main (ebx c) (eax c) c1 = Some c2" for c2 n
  proof -
    have "exec_boot main ret ?t (4, c2) = Some (5, c2\<lparr>iflag := False\<rparr>)" by (simp add: exec_boot_def start_code_def)
    then have "exec_boot_n (4 + Suc n) main ret ?t (0, c) = exec_boot_n n main ret ?t (5, c2\<lparr>iflag := False\<rparr>)"
      by (simp only: exec_boot_n_add run that option.case option.map exec_boot_n.simps)
    then show ?thesis using halting_exec_n [of "(5, c2\<lparr>iflag := False\<rparr>)" n main ret ?t] by (simp add: halting_def)
  qed
  have "exec_boot_n 2 main ret ?t (get_esp_entry, c) = None"
    by (simp add: numeral_eq_Suc exec_boot_def start_code_def get_esp_entry_def)
  moreover have "stack_top a + 4 \<le> kernel_end" using bss(3) by (simp add: stack_top_def)
  ultimately show ?thesis using run e mem halts bss by blast
qed

theorem start_enters_kernel_main_witness:
  "\<exists>c1 s. exec_boot_n 4 (\<lambda>mbd magic c. if mbd = 0x9500 \<and> magic = 0x2BADB002 then Some c else None) 0 (of_nat (stack_top 0x10C000))
      (0, \<lparr>eax = 0x2BADB002, ebx = 0x9500, esp = 0, iflag = True, cmem = (\<lambda>_. 0)\<rparr>) = Some (4, c1)
    \<and> unat (esp c1) + 12 = 0x10C000 + 16380
    \<and> exec_boot_n 1005 (\<lambda>mbd magic c. if mbd = 0x9500 \<and> magic = 0x2BADB002 then Some c else None) 0 (of_nat (stack_top 0x10C000))
      (0, \<lparr>eax = 0x2BADB002, ebx = 0x9500, esp = 0, iflag = True, cmem = (\<lambda>_. 0)\<rparr>) = Some s \<and> halting s"
proof -
  have i: "(0x10C000, boot_bss) \<in> set (out_inputs (sample_image ! 3))" using sample_image_eq(3) by simp
  let ?main = "\<lambda>mbd magic c. if mbd = 0x9500 \<and> magic = 0x2BADB002 then Some c else None"
  let ?c = "\<lparr>eax = 0x2BADB002, ebx = 0x9500, esp = 0, iflag = True, cmem = (\<lambda>_. 0)\<rparr>"
  obtain c1 where c1: "exec_boot_n 4 ?main 0 (of_nat (stack_top 0x10C000)) (0, ?c) = map_option (Pair 4) (?main (ebx ?c) (eax ?c) c1)"
    "unat (esp c1) + 12 = stack_top 0x10C000"
    "\<And>n c2. ?main (ebx ?c) (eax ?c) c1 = Some c2 \<Longrightarrow>
       \<exists>s. exec_boot_n (5 + n) ?main 0 (of_nat (stack_top 0x10C000)) (0, ?c) = Some s \<and> halting s"
    using start_enters_kernel_main [OF sample_files_ok(1) sample_image_eq(1) _ i, of ?main 0 ?c] by auto
  obtain s where "exec_boot_n 1005 ?main 0 (of_nat (stack_top 0x10C000)) (0, ?c) = Some s" "halting s"
    using c1(3) [of c1 1000] by auto
  moreover have "stack_top 0x10C000 = 0x10C000 + 16380" by (simp add: stack_top_def)
  ultimately show ?thesis using c1(1,2) by (intro exI [of _ c1] exI [of _ s]) simp
qed

end
