(* ===== verification/Stub_Exec.thy ===== *)
theory Stub_Exec
  imports Interrupts
begin

text \<open>
  The generated stubs of kernel/kernel/interrupts.c as machine code. The bytes of a stub are decoded
  (Interrupts) and its instructions executed on the registers and the memory of the processor, from
  the frame that an interrupt leaves on the stack to the \<open>iret\<close>. The dispatcher that the stub calls is
  a parameter, a function from its address and the state at its entry to the state after its \<open>ret\<close>
  (\<open>None\<close>: it does not return); it has to follow the calling convention.
\<close>

subsection \<open>The processor\<close>

record mach =
  r_eax :: u32
  r_ecx :: u32
  r_edx :: u32
  r_ebx :: u32
  r_esp :: u32
  r_ebp :: u32
  r_esi :: u32
  r_edi :: u32
  r_eip :: u32
  r_cs :: u32
  r_eflags :: u32
  mm :: mem

definition push32 :: "u32 \<Rightarrow> mach \<Rightarrow> mach" where
  "push32 v s = s\<lparr>r_esp := r_esp s - 4, mm := store32 (mm s) (r_esp s - 4) v\<rparr>"

fun push_all :: "u32 list \<Rightarrow> mach \<Rightarrow> mach" where
  "push_all [] s = s"
| "push_all (v # vs) s = push_all vs (push32 v s)"

text \<open>The word \<open>i\<close> words above the stack pointer.\<close>

definition stack_word :: "nat \<Rightarrow> mach \<Rightarrow> u32" where
  "stack_word i s = load32 (mm s) (r_esp s + of_nat (4 * i))"

type_synonym callee = "u32 \<Rightarrow> mach \<Rightarrow> mach option"

fun exec_instr :: "callee \<Rightarrow> u32 \<Rightarrow> instr \<Rightarrow> mach \<Rightarrow> mach option" where
  "exec_instr f ret Push_ebp s = Some (push32 (r_ebp s) s)"
| "exec_instr f ret Mov_ebp_esp s = Some (s\<lparr>r_ebp := r_esp s\<rparr>)"
| "exec_instr f ret Pusha s = Some (push_all [r_eax s, r_ecx s, r_edx s, r_ebx s, r_esp s, r_ebp s, r_esi s, r_edi s] s)"
| "exec_instr f ret (Push_imm n) s = Some (push32 (word_of_int n) s)"
| "exec_instr f ret (Mov_eax v) s = Some (s\<lparr>r_eax := v\<rparr>)"
| "exec_instr f ret Call_eax s = f (r_eax s) (push32 ret s)"
| "exec_instr f ret (Add_esp n) s = Some (s\<lparr>r_esp := r_esp s + word_of_int n\<rparr>)"
| "exec_instr f ret Popa s = Some (s\<lparr>r_edi := stack_word 0 s, r_esi := stack_word 1 s, r_ebp := stack_word 2 s,
     r_ebx := stack_word 4 s, r_edx := stack_word 5 s, r_ecx := stack_word 6 s, r_eax := stack_word 7 s, r_esp := r_esp s + 32\<rparr>)"
| "exec_instr f ret Mov_esp_ebp s = Some (s\<lparr>r_esp := r_ebp s\<rparr>)"
| "exec_instr f ret Pop_ebp s = Some (s\<lparr>r_ebp := stack_word 0 s, r_esp := r_esp s + 4\<rparr>)"
| "exec_instr f ret Iret s = Some (s\<lparr>r_eip := stack_word 0 s, r_cs := stack_word 1 s, r_eflags := stack_word 2 s, r_esp := r_esp s + 12\<rparr>)"

fun exec_instrs :: "callee \<Rightarrow> u32 \<Rightarrow> instr list \<Rightarrow> mach \<Rightarrow> mach option" where
  "exec_instrs f ret [] s = Some s"
| "exec_instrs f ret (i # is) s = (case exec_instr f ret i s of None \<Rightarrow> None | Some s \<Rightarrow> exec_instrs f ret is s)"

text \<open>The bytes of a stub as code.\<close>

definition run_stub :: "callee \<Rightarrow> u32 \<Rightarrow> u8 list \<Rightarrow> mach \<Rightarrow> mach option" where
  "run_stub f ret stub s = (case decode 11 stub of None \<Rightarrow> None | Some is \<Rightarrow> exec_instrs f ret is s)"

text \<open>
  What the processor pushes for an interrupt in the kernel, without and with an error code. The flag
  register is the pushed one until \<open>iret\<close>.
\<close>

definition enter_interrupt :: "mach \<Rightarrow> mach" where
  "enter_interrupt s = push_all [r_eflags s, r_cs s, r_eip s] s"

definition enter_exception :: "u32 \<Rightarrow> mach \<Rightarrow> mach" where
  "enter_exception code s = push32 code (enter_interrupt s)"

text \<open>
  The calling convention: after the \<open>ret\<close> the stack pointer is above the return address, four registers
  are as before, and so is the stack above the argument, up to its end.
\<close>

definition cdecl :: "callee \<Rightarrow> u32 \<Rightarrow> nat \<Rightarrow> bool" where
  "cdecl f h stack_end \<longleftrightarrow> (\<forall>s s'. f h s = Some s' \<longrightarrow>
     r_esp s' = r_esp s + 4 \<and> r_ebx s' = r_ebx s \<and> r_ebp s' = r_ebp s \<and> r_esi s' = r_esi s \<and> r_edi s' = r_edi s
     \<and> (\<forall>x. unat (r_esp s) + 8 \<le> unat x \<and> unat x < stack_end \<longrightarrow> mm s' x = mm s x))"

subsection \<open>The stack\<close>

lemma push_all_esp: "r_esp (push_all vs s) = r_esp s - of_nat (4 * length vs)"
proof (induction vs arbitrary: s)
  case (Cons v vs)
  show ?case using Cons.IH [of "push32 v s"] by (simp add: push32_def)
qed simp

lemma push_all_regs: "push_all vs s = s\<lparr>r_esp := r_esp (push_all vs s), mm := mm (push_all vs s)\<rparr>"
proof (induction vs arbitrary: s)
  case (Cons v vs)
  show ?case by (subst push_all.simps, subst Cons.IH) (simp add: push32_def)
qed simp

lemma push_all_append: "push_all (vs @ ws) s = push_all ws (push_all vs s)"
  by (induction vs arbitrary: s) auto

lemma unat_below: "k \<le> unat (e :: u32) \<Longrightarrow> unat (e - of_nat k) = unat e - k"
proof -
  assume k: "k \<le> unat e"
  then have "unat (of_nat k :: u32) = k" using unat_less32 [of e] by (intro unat_of_nat32) simp
  then show ?thesis using k by (simp add: unat_sub word_le_nat_alt)
qed

lemma push_all_above:
  assumes "4 * length vs \<le> unat (r_esp s)" "unat (r_esp s) \<le> unat x"
  shows "mm (push_all vs s) x = mm s x"
  using assms
proof (induction vs arbitrary: s)
  case (Cons v vs)
  have u: "unat (r_esp s - 4) = unat (r_esp s) - 4" using Cons.prems(1) unat_below [of 4 "r_esp s"] by simp
  have "mm (push_all vs (push32 v s)) x = mm (push32 v s) x"
    by (rule Cons.IH) (use Cons.prems u in \<open>simp_all add: push32_def\<close>)
  also have "\<dots> = mm s x"
    unfolding push32_def using Cons.prems u unat_less32 [of "r_esp s"] by (simp, intro store32_other) auto
  finally show ?case by simp
qed simp

text \<open>The last word pushed is on top.\<close>

lemma pushed_word:
  assumes "4 * length vs \<le> unat (r_esp s)" "i < length vs"
  shows "load32 (mm (push_all vs s)) (r_esp s - of_nat (4 * (i + 1))) = vs ! i"
  using assms
proof (induction vs arbitrary: s i)
  case (Cons v vs)
  have u: "unat (r_esp s - 4) = unat (r_esp s) - 4" using Cons.prems(1) unat_below [of 4 "r_esp s"] by simp
  have r: "r_esp (push32 v s) = r_esp s - 4" "mm (push32 v s) = store32 (mm s) (r_esp s - 4) v" by (simp_all add: push32_def)
  show ?case
  proof (cases i)
    case 0
    have "load32 (mm (push_all vs (push32 v s))) (r_esp s - 4) = load32 (mm (push32 v s)) (r_esp s - 4)"
      using Cons.prems(1) u unat_less32 [of "r_esp s"] r(1) by (intro load32_cong push_all_above) simp_all
    then show ?thesis using 0 by (simp add: r load32_store32_same)
  next
    case (Suc j)
    have "load32 (mm (push_all vs (push32 v s))) (r_esp (push32 v s) - of_nat (4 * (j + 1))) = vs ! j"
      by (rule Cons.IH) (use Cons.prems u Suc in \<open>simp_all add: r\<close>)
    moreover have "r_esp (push32 v s) - of_nat (4 * (j + 1)) = r_esp s - of_nat (4 * (i + 1))"
      using Suc by (simp add: r(1) algebra_simps)
    ultimately show ?thesis using Suc by (simp only: push_all.simps nth_Cons_Suc)
  qed
qed simp

lemma push32_upd: "push32 w (s\<lparr>r_ebp := v\<rparr>) = (push32 w s)\<lparr>r_ebp := v\<rparr>" "push32 w (s\<lparr>r_eax := v\<rparr>) = (push32 w s)\<lparr>r_eax := v\<rparr>"
  by (cases s; simp add: push32_def)+

lemma push_all_upd:
  "push_all vs (s\<lparr>r_ebp := v\<rparr>) = (push_all vs s)\<lparr>r_ebp := v\<rparr>" "push_all vs (s\<lparr>r_eax := v\<rparr>) = (push_all vs s)\<lparr>r_eax := v\<rparr>"
  by (induction vs arbitrary: s) (simp_all add: push32_upd)

subsection \<open>From the entry to the return\<close>

text \<open>The state in which the stub calls the dispatcher: the saved registers, the number, the return address.\<close>

definition saved :: "u32 \<Rightarrow> u32 \<Rightarrow> mach \<Rightarrow> u32 list" where
  "saved n ret s = [r_ebp s, r_eax s, r_ecx s, r_edx s, r_ebx s, r_esp s - 4, r_esp s - 4, r_esi s, r_edi s, n, ret]"

definition at_call :: "u32 \<Rightarrow> u32 \<Rightarrow> u32 \<Rightarrow> mach \<Rightarrow> mach" where
  "at_call h n ret s = (push_all (saved n ret s) s)\<lparr>r_ebp := r_esp s - 4, r_eax := h\<rparr>"

lemma at_call_facts:
  assumes "44 \<le> unat (r_esp s)"
  shows "r_esp (at_call h n ret s) = r_esp s - 44" "r_ebx (at_call h n ret s) = r_ebx s"
    "r_esi (at_call h n ret s) = r_esi s" "r_edi (at_call h n ret s) = r_edi s" "r_ebp (at_call h n ret s) = r_esp s - 4"
    "i < 11 \<Longrightarrow> load32 (mm (at_call h n ret s)) (r_esp s - of_nat (4 * (i + 1))) = saved n ret s ! i"
    "unat (r_esp s) \<le> unat x \<Longrightarrow> mm (at_call h n ret s) x = mm s x"
proof -
  have l: "length (saved n ret s) = 11" by (simp add: saved_def)
  show "r_esp (at_call h n ret s) = r_esp s - 44" by (simp add: at_call_def push_all_esp l)
  show "r_ebx (at_call h n ret s) = r_ebx s" "r_esi (at_call h n ret s) = r_esi s" "r_edi (at_call h n ret s) = r_edi s"
    by (simp add: at_call_def, subst push_all_regs, simp)+
  show "r_ebp (at_call h n ret s) = r_esp s - 4" by (simp add: at_call_def)
  show "i < 11 \<Longrightarrow> load32 (mm (at_call h n ret s)) (r_esp s - of_nat (4 * (i + 1))) = saved n ret s ! i"
    using pushed_word [of "saved n ret s" s i] assms l by (simp add: at_call_def)
  show "unat (r_esp s) \<le> unat x \<Longrightarrow> mm (at_call h n ret s) x = mm s x"
    using push_all_above [of "saved n ret s" s x] assms l by (simp add: at_call_def)
qed

lemma exec_to_call:
  "exec_instrs f ret (stub_program h n) s =
    (case f h (at_call h (word_of_int n) ret s) of None \<Rightarrow> None
     | Some s' \<Rightarrow> exec_instrs f ret [Add_esp 4, Popa, Mov_esp_ebp, Pop_ebp, Iret] s')"
  by (cases s) (simp add: stub_program_def at_call_def saved_def push32_def)

lemma stub_returns:
  assumes "cdecl f h stack_end" "44 \<le> unat (r_esp s)" "unat (r_esp s) + 12 \<le> stack_end" "stack_end \<le> 2 ^ 32"
    and c: "f h (at_call h (word_of_int n) ret s) = Some s'"
  shows "exec_instrs f ret (stub_program h n) s = Some (s\<lparr>r_eip := stack_word 0 s, r_cs := stack_word 1 s,
      r_eflags := stack_word 2 s, r_esp := r_esp s + 12, mm := mm s'\<rparr>)"
    and "unat (r_esp s) \<le> unat x \<Longrightarrow> unat x < stack_end \<Longrightarrow> mm s' x = mm s x"
proof -
  let ?c = "at_call h (word_of_int n) ret s" and ?e = "r_esp s"
  note a = at_call_facts [OF assms(2), where h = h and n = "word_of_int n" and ret = ret]
  have u: "unat (?e - 44) = unat ?e - 44" using unat_below [of 44 ?e] assms(2) by simp
  have k: "r_esp s' = ?e - 40" "r_ebx s' = r_ebx s" "r_ebp s' = ?e - 4" "r_esi s' = r_esi s" "r_edi s' = r_edi s"
    and m: "\<And>x. unat ?e \<le> unat x + 36 \<Longrightarrow> unat x < stack_end \<Longrightarrow> mm s' x = mm ?c x"
    using assms(1) c u a(1-5) assms(2) unfolding cdecl_def by (force simp: a(1))+
  show keep: "mm s' x = mm s x" if "unat ?e \<le> unat x" "unat x < stack_end" for x
    using m [of x] a(7) [of x] that by simp
  have w: "load32 (mm s') (?e - of_nat (4 * (i + 1))) = saved (word_of_int n) ret s ! i" if "i < 9" for i
  proof -
    have b: "unat (?e - of_nat (4 * (i + 1))) = unat ?e - 4 * (i + 1)"
      using that assms(2) by (intro unat_below) simp
    have "load32 (mm s') (?e - of_nat (4 * (i + 1))) = load32 (mm ?c) (?e - of_nat (4 * (i + 1)))"
      by (rule load32_cong) (use b that assms(2-4) in \<open>auto intro!: m\<close>)
    then show ?thesis using a(6) [of i] that by simp
  qed
  have top: "load32 (mm s') (?e + of_nat k) = load32 (mm s) (?e + of_nat k)" if "k \<le> 8" for k
  proof -
    have b: "unat (?e + of_nat k) = unat ?e + k" using that assms(3,4) by (intro unat_plus_small) simp
    show ?thesis by (rule load32_cong) (use b that assms(3,4) in \<open>auto intro!: keep\<close>)
  qed
  have e: "?e = r_esp s' + 40" by (simp add: k(1))
  have words: "load32 (mm s') (r_esp s' + 36) = r_ebp s" "load32 (mm s') (r_esp s' + 32) = r_eax s"
    "load32 (mm s') (r_esp s' + 28) = r_ecx s" "load32 (mm s') (r_esp s' + 24) = r_edx s"
    "load32 (mm s') (r_esp s' + 20) = r_ebx s" "load32 (mm s') (r_esp s' + 12) = r_esp s' + 36"
    "load32 (mm s') (r_esp s' + 8) = r_esi s" "load32 (mm s') (r_esp s' + 4) = r_edi s"
    using w [of 0] w [of 1] w [of 2] w [of 3] w [of 4] w [of 6] w [of 7] w [of 8] by (simp_all add: e saved_def add.commute)
  have frame: "load32 (mm s') (r_esp s' + 40) = load32 (mm s) (r_esp s' + 40)" "load32 (mm s') (r_esp s' + 44) = load32 (mm s) (r_esp s' + 44)"
    "load32 (mm s') (r_esp s' + 48) = load32 (mm s) (r_esp s' + 48)"
    using top [of 0] top [of 4] top [of 8] by (simp_all add: e add.commute)
  show "exec_instrs f ret (stub_program h n) s = Some (s\<lparr>r_eip := stack_word 0 s, r_cs := stack_word 1 s,
      r_eflags := stack_word 2 s, r_esp := r_esp s + 12, mm := mm s'\<rparr>)"
    unfolding exec_to_call c
    by (auto intro!: mach.equality simp: stack_word_def words frame e k(2,4,5) add.assoc)
qed

subsection \<open>Interrupts\<close>

lemma push_all_top:
  assumes "4 * length vs \<le> unat (r_esp s)" "i < length vs"
  shows "stack_word i (push_all vs s) = vs ! (length vs - 1 - i)"
proof -
  have "load32 (mm (push_all vs s)) (r_esp s - of_nat (4 * (length vs - 1 - i + 1))) = vs ! (length vs - 1 - i)"
    using assms by (intro pushed_word) auto
  moreover have "4 * length vs = 4 * (length vs - 1 - i + 1) + 4 * i" using assms(2) by simp
  then have "(of_nat (4 * length vs) :: u32) = of_nat (4 * (length vs - 1 - i + 1)) + of_nat (4 * i)" by (metis of_nat_add)
  then have "r_esp s - of_nat (4 * (length vs - 1 - i + 1)) = r_esp (push_all vs s) + of_nat (4 * i)"
    unfolding push_all_esp by (simp only: diff_diff_eq [symmetric] diff_add_cancel)
  ultimately show ?thesis by (simp add: stack_word_def)
qed

definition stub_number :: "int \<Rightarrow> u32" where
  "stub_number num = word_of_int (sint (word_of_int num :: u8))"

lemma stub_number_low: "0 \<le> num \<Longrightarrow> num < 128 \<Longrightarrow> stub_number num = word_of_int num"
  by (simp add: stub_number_def sint_byte)

lemma run_stub_frame:
  assumes "cdecl f h stack_end" "length vs = n" "3 \<le> n" "4 * n + 44 \<le> unat (r_esp s)" "unat (r_esp s) \<le> stack_end" "stack_end \<le> 2 ^ 32"
    and "f h (at_call h (stub_number num) ret (push_all vs s)) = Some s'"
  shows "run_stub f ret (interrupt_stub h num) (push_all vs s) = Some (s\<lparr>r_eip := vs ! (n - 1), r_cs := vs ! (n - 2),
      r_eflags := vs ! (n - 3), r_esp := r_esp s - of_nat (4 * n) + 12, mm := mm s'\<rparr>)"
    and "unat (r_esp s) \<le> unat x \<Longrightarrow> unat x < stack_end \<Longrightarrow> mm s' x = mm s x"
proof -
  let ?s0 = "push_all vs s"
  have e: "r_esp ?s0 = r_esp s - of_nat (4 * n)" "unat (r_esp ?s0) = unat (r_esp s) - 4 * n"
    using assms(2,4) unat_below [of "4 * n" "r_esp s"] by (simp_all add: push_all_esp)
  have b: "44 \<le> unat (r_esp ?s0)" "unat (r_esp ?s0) + 12 \<le> stack_end" using e(2) assms(3-5) by auto
  have w: "stack_word i ?s0 = vs ! (n - 1 - i)" if "i < 3" for i
    using push_all_top [of vs s i] that assms(2-4) by simp
  note r = stub_returns [OF assms(1) b assms(6) assms(7) [unfolded stub_number_def]]
  have "run_stub f ret (interrupt_stub h num) ?s0 = exec_instrs f ret (stub_program h (sint (word_of_int num :: u8))) ?s0"
    by (simp add: run_stub_def stub_decodes)
  also have "\<dots> = Some (?s0\<lparr>r_eip := vs ! (n - 1), r_cs := vs ! (n - 2), r_eflags := vs ! (n - 3),
      r_esp := r_esp s - of_nat (4 * n) + 12, mm := mm s'\<rparr>)"
    unfolding r(1) using w [of 0] w [of 1] w [of 2] e(1) by (simp add: numeral_eq_Suc)
  also have "\<dots> = Some (s\<lparr>r_eip := vs ! (n - 1), r_cs := vs ! (n - 2), r_eflags := vs ! (n - 3),
      r_esp := r_esp s - of_nat (4 * n) + 12, mm := mm s'\<rparr>)"
    by (subst push_all_regs) (simp add: mach.equality)
  finally show "run_stub f ret (interrupt_stub h num) ?s0 = Some (s\<lparr>r_eip := vs ! (n - 1), r_cs := vs ! (n - 2),
      r_eflags := vs ! (n - 3), r_esp := r_esp s - of_nat (4 * n) + 12, mm := mm s'\<rparr>)" .
  show "unat (r_esp s) \<le> unat x \<Longrightarrow> unat x < stack_end \<Longrightarrow> mm s' x = mm s x"
    using r(2) [of x] push_all_above [of vs s x] assms(2,4) e(2) by simp
qed

text \<open>
  C12. An interrupt is transparent to the code it interrupts. The bytes of a stub, executed from the frame
  that the processor has pushed, call the dispatcher with the number of the vector as its argument
  (sign-extended from a byte); if it follows the calling convention and returns, the \<open>iret\<close> restores every
  register, the instruction pointer and the flags, and the stack is as it was. An exception with an error code
  is not: the stub leaves the code on the stack, and \<open>iret\<close> takes it for the instruction pointer.
\<close>

theorem interrupt_transparent:
  assumes "cdecl f h stack_end" "60 \<le> unat (r_esp s)" "unat (r_esp s) \<le> stack_end" "stack_end \<le> 2 ^ 32"
  shows "(let c = at_call h (stub_number num) ret (enter_interrupt s) in
      stack_word 1 c = stub_number num
      \<and> (case f h c of None \<Rightarrow> run_stub f ret (interrupt_stub h num) (enter_interrupt s) = None
         | Some s' \<Rightarrow> run_stub f ret (interrupt_stub h num) (enter_interrupt s) = Some (s\<lparr>mm := mm s'\<rparr>)
             \<and> (\<forall>x. unat (r_esp s) \<le> unat x \<and> unat x < stack_end \<longrightarrow> mm s' x = mm s x)))
    \<and> (\<forall>s'. f h (at_call h (stub_number num) ret (enter_exception code s)) = Some s' \<longrightarrow>
        run_stub f ret (interrupt_stub h num) (enter_exception code s) =
          Some (s\<lparr>r_eip := code, r_cs := r_eip s, r_eflags := r_cs s, r_esp := r_esp s - 4, mm := mm s'\<rparr>))"
proof -
  let ?c = "at_call h (stub_number num) ret (enter_interrupt s)"
  have "unat (r_esp (enter_interrupt s)) = unat (r_esp s) - 12"
    using unat_below [of 12 "r_esp s"] assms(2) by (simp add: enter_interrupt_def push_all_esp del: push_all.simps)
  then have b: "44 \<le> unat (r_esp (enter_interrupt s))" using assms(2) by simp
  have "load32 (mm ?c) (r_esp (enter_interrupt s) - of_nat (4 * (9 + 1))) = saved (stub_number num) ret (enter_interrupt s) ! 9"
    by (rule at_call_facts(6)) (use b in simp_all)
  then have arg: "stack_word 1 ?c = stub_number num"
    using at_call_facts(1) [OF b, of h "stub_number num" ret] by (simp add: stack_word_def saved_def)
  have none: "run_stub f ret (interrupt_stub h num) (enter_interrupt s) = None" if "f h ?c = None"
    using that by (simp add: run_stub_def stub_decodes exec_to_call stub_number_def)
  have some: "run_stub f ret (interrupt_stub h num) (enter_interrupt s) = Some (s\<lparr>mm := mm s'\<rparr>)
      \<and> (\<forall>x. unat (r_esp s) \<le> unat x \<and> unat x < stack_end \<longrightarrow> mm s' x = mm s x)" if "f h ?c = Some s'" for s'
    using run_stub_frame [OF assms(1) _ _ _ assms(3,4) that [unfolded enter_interrupt_def], of 3] assms(2)
    by (simp add: enter_interrupt_def numeral_eq_Suc mach.equality)
  have err: "enter_exception code s = push_all [r_eflags s, r_cs s, r_eip s, code] s"
    by (simp add: enter_exception_def enter_interrupt_def)
  have "run_stub f ret (interrupt_stub h num) (enter_exception code s) =
      Some (s\<lparr>r_eip := code, r_cs := r_eip s, r_eflags := r_cs s, r_esp := r_esp s - 4, mm := mm s'\<rparr>)"
    if "f h (at_call h (stub_number num) ret (enter_exception code s)) = Some s'" for s'
    using run_stub_frame(1) [OF assms(1) _ _ _ assms(3,4) that [unfolded err], of 4] assms(2)
    by (simp add: err numeral_eq_Suc)
  then show ?thesis using arg none some by (simp add: Let_def split: option.splits)
qed

text \<open>A dispatcher that overwrites the registers it may.\<close>

definition clobbering :: callee where
  "clobbering a s = (if a = 0x10161E then Some (s\<lparr>r_esp := r_esp s + 4, r_eax := 0, r_ecx := 1, r_edx := 2, r_eflags := 3\<rparr>) else None)"

definition interrupted_code :: mach where
  "interrupted_code = \<lparr>r_eax = 10, r_ecx = 11, r_edx = 12, r_ebx = 13, r_esp = 0x10FF00, r_ebp = 14, r_esi = 15, r_edi = 16,
     r_eip = 0x102000, r_cs = 8, r_eflags = 0x202, mm = (\<lambda>_. 0)\<rparr>"

theorem interrupt_transparent_witness:
  "(\<exists>m. run_stub clobbering 0x107000 (interrupt_stub 0x10161E 40) (enter_interrupt interrupted_code) = Some (interrupted_code\<lparr>mm := m\<rparr>))
    \<and> (\<exists>t. run_stub clobbering 0x107000 (interrupt_stub 0x10161E 13) (enter_exception 99 interrupted_code) = Some t \<and> r_eip t = 99)"
proof -
  have c: "cdecl clobbering 0x10161E 0x110000" by (simp add: cdecl_def clobbering_def)
  have b: "60 \<le> unat (r_esp interrupted_code)" "unat (r_esp interrupted_code) \<le> 0x110000" "0x110000 \<le> (2 ^ 32 :: nat)"
    by (simp_all add: interrupted_code_def)
  note t = interrupt_transparent [OF c b]
  show ?thesis
    using t [of 40 "0x107000" 0] t [of 13 "0x107000" 99]
    by (auto simp: clobbering_def Let_def)
qed

end
