(* ===== verification/Spec2Isabelle.thy ===== *)
theory Spec2Isabelle
  imports Self_Test_Build Boot_Debug Abort Serial_Steps Future_Order Start Stub_Exec
begin

text \<open>
  A model of c-kernel, a small i386 kernel in C, with the theorems that state what its parts do.
  Paths below are relative to the src directory of the repository. The model is of the build without
  DEBUG and TEST; what those add is in the theories Boot_Debug and Boot_Map, and Self_Tests to
  Self_Test_Build.

  \<^bold>\<open>The program and its parts.\<close>

  \<open>kernel_main\<close> (kernel/kernel/kernel.c) clears the screen, loads the segment table and the interrupt
  table, brings up the serial port, the log, the heap, the real-time clock and the list of futures, and
  then looks for a network card on the PCI bus. Every part reports through the log buffer, which
  \<open>panic\<close> and the end of the start-up dump over the serial port and the screen. Interrupts reach the
  generated stubs, which call \<open>generic_interrupt_handler\<close> with the vector; the handlers advance the
  tick (clock) or wake up the one who waits for the transmitter (serial port). Futures connect the two:
  \<open>await\<close> halts the processor until a handler has made its future ready. The heap serves the contexts
  of the futures.

  \<^bold>\<open>How the C code is represented.\<close>

  Machine integers are words of their width, and wrap. Memory is a function from 32 bit addresses to
  bytes. A C function that can fail to return normally returns a sum: \<open>Inl (Panic s)\<close> is a failed
  \<open>assert\<close> or a call of \<open>panic\<close>, \<open>Inl (Undefined s)\<close> is a step that C leaves undefined (a read behind
  an array, a missing argument of \<open>printf\<close>). A loop that need not end is a \<open>partial_function\<close>: \<open>None\<close>
  is the wait for ever, and the theorems that a call returns prove \<open>Some\<close>. What the kernel does to the
  hardware is the list of its instructions (\<open>trace\<close>), the newest first; what devices answer is a
  function of that list, the parameter \<open>devs E\<close>. What linker and hardware decide is the record \<open>env\<close>:
  the devices, the contents of uninitialised stack variables, the addresses of the tables. Hypotheses
  about devices (the transmitter becomes empty, the CMOS data port returns the selected register, the
  PCI data port returns the addressed configuration word) stand in the theorems that need them, and
  their witnesses give a device with which they hold.

  \<^bold>\<open>Theories, bottom up.\<close>

    \<^item> Prelude: types, errors, word lemmas; the locale \<open>invariant_system\<close> (a step relation and a predicate
      it keeps), interpreted by the heap, the spinlock, \<open>await\<close> and \<open>serial_write\<close>.
    \<^item> Memory: the address space, 32 bit loads and stores.
    \<^item> Heap_Spec: the abstract heap, a tiling of a region by free and used blocks, with first-fit
      allocation from the end of a block and coalescing release.
    \<^item> Allocator, Alloc_Free, Heap: \<open>malloc\<close>, \<open>free\<close> (kernel/kernel/allocator.c) on the bytes, the
      abstraction function to blocks, and the refinement proofs, for requests not larger than the address
      of the heap (\<open>heap_limit\<close>): \<open>malloc\<close> itself has no such limit, and what it does with a larger one is
      \<open>malloc_oversized_request_returned\<close>. Alloc_Iface is the interface \<open>allocator\<close>
      of the clients of the heap, interpreted in Heap (\<open>kheap\<close>). Heap_Run: the runs of a heap that is
      called with such requests and written to inside of live blocks; the properties of the allocator. Heap_Client: the same
      steps in a form that composes, with the blocks they lead to and the bytes they keep. Heap_Init and
      Multiboot: \<open>initialize_free_segments\<close> on the memory map of the boot loader. Free_List: the list
      functions that the self test uses.
    \<^item> Cstring: libc/string. Utils: \<open>reverse\<close> and \<open>to_str\<close> (kernel/kernel/utils.c). Port_IO: its port
      instructions. Printf: libc/stdio/printf.c, with a table-driven reference \<open>render\<close>.
    \<^item> Terminal: kernel/arch/i386/tty.c, vga.h. Uart: the polled part of kernel/kernel/io/uart.c. Console:
      \<open>printf\<close> and \<open>putchar\<close> over both; the locale \<open>byte_sink\<close> is interpreted by the serial port and by
      the console.
    \<^item> Log_Buffer: kernel/kernel/circular_buffer.c and panic.c, and their refinement of a list of lines.
    \<^item> Gdt, Gdt_Load: kernel/kernel/gdt.c. Kernel_State: the global variables in one record \<open>kernel\<close>.
      Interrupts: kernel/kernel/interrupts.c. Stub_Exec: the bytes of its stubs, executed.
    \<^item> Pci: kernel/kernel/pci.c. Spinlock: kernel/kernel/spinlock.c, as functions on memory and as the
      interleavings of any number of threads.
    \<^item> Future_List: monotonic_tick.c, future.c, \<open>sleep\<close> (libc/stdlib/unistd.c) and the waiting parts of
      uart.c; the locales \<open>clock\<close> and \<open>waking_clock\<close>. Rtc, Rtc_Date: kernel/kernel/io/rtc.c; Rtc
      interprets both locales on the clock interrupt. Serial_Async: \<open>serial_write\<close>; the locale
      \<open>serial_waker\<close> is interpreted on the interrupts of the clock and of the port, which comes once each
      time the transmitter gets empty. In these theories an interrupt comes where the code halts.
      Await_Steps and Serial_Steps: \<open>await\<close> and \<open>serial_write\<close> in small steps with an interrupt between any
      two of them, of which the runs of Future_List are some. Future_Order: sleep futures one after another.
    \<^item> Report: an account of the log, what the port has sent followed by what is pending; every logging
      call appends its line to it, and a dump makes it what has been sent.
    \<^item> Boot, Boot_Run: \<open>kernel_main\<close> and what it reaches. Boot_Map: kernel/kernel/multiboot.c. Boot_Debug:
      what DEBUG adds. Struct_Layout: the structures of multiboot.h as C types, their layout under the ABI, and
      what it means that memory holds one. Linker: linker.ld as data, the placing of the sections of any
      object files by it, the image in memory and the search for its header. Start: \<open>_start\<close> of
      kernel/arch/i386/boot.S as instructions of a small machine. Probe: the report on the network card at
      the end of \<open>kernel_main\<close>. Boot_Output: the services and the probe composed, with every byte sent.
      Abort: libc/stdlib/abort.c.
    \<^item> Self_Tests: the tests of a TEST build (in utils.c, printf.c, allocator.c, interrupts.c, spinlock.c,
      rtc.c, pci.c, gdt.c and kernel.c). Self_Test_Steps: each of them passes. Self_Test_Run: all of them in
      order, and the tests of gdt.c. Self_Test_Build: boot, tests and probe composed.

  \<^bold>\<open>What the theorems show.\<close>

    \<^item> Heap: \<open>malloc\<close> and \<open>free\<close> implement the abstract heap and return; in every run live blocks stay
      disjoint, aligned and inside the heap, the bytes of the others are kept, and allocating and freeing
      at once restores the heap; the heap of the boot is one segment that starts behind the image.
    \<^item> Output: \<open>vsnprintf\<close> equals the reference on every format and is undefined exactly where it is; it
      stays inside its buffer; \<open>printf\<close>, the screen and the log show the rendered text in order; the log
      loses no line; \<open>panic\<close> prints what is pending and halts.
    \<^item> Interrupts: every vector has a present gate to its stub, whose code calls the dispatcher and gives every
      register of the interrupted code back; a registered handler runs and is
      acknowledged at the right controllers, and its line alone is unmasked.
    \<^item> Time and futures: a sleep waits the seconds asked for, an awaited future returns, also one of several
      in a row, and \<open>serial_write\<close> sends its message byte by byte. With interrupts at any point of the
      code a sleep future still returns in time or one tick later; \<open>serial_write\<close> still sends its bytes in
      order and never into a busy transmitter, but a wait for the port can halt for ever, exactly when
      its only interrupt came between the poll and \<open>hlt\<close>. Dates are read as set, and the waits for the clock end exactly when the update flag
      clears.
    \<^item> Lock: mutual exclusion in every interleaving.
    \<^item> Start: the linked image is a valid multiboot kernel, \<open>_start\<close> passes the boot information on, and a
      memory map in the layout of the headers is read as what it says. The services come up in the order of
      \<open>kernel_main\<close>, the probe reports the card that the bus has, and the bytes sent by then are exactly
      the lines of both. DEBUG changes the log and not the heap.
    \<^item> Self tests: a TEST build passes them and writes 0 to the exit port, when the heap has one free segment
      and the card shows the same address twice; with the device of \<open>qemu.sh\<close> the machine ends there, and
      without one the kernel goes on to the probe; the heap is what it was, and the lines on the port are those of the
      tests. The tests of gdt.c, which are commented out in \<open>kernel_main\<close>, fail.
    \<^item> Round trips of gate and segment descriptors and of decimal numbers; the PCI search finds the first
      device, and the base addresses.

  Several theorems state what the code does at its edges: requests to \<open>malloc\<close> that wrap around, vectors
  from 128, an eleventh future, a wake-up between the poll and the reset of its flag, a tick before the futures exist, torn dates, texts longer than the
  buffers, arguments of the wrong width in \<open>read_gdt\<close> and \<open>parse_multiboot_info\<close>, the race in the
  assertion of the spinlock and the three bytes its exchange overwrites. Because of \<open>read_gdt\<close>, the run of
  \<open>kernel_main\<close> is undefined in C before the serial port is brought up (\<open>kernel_main_undefined\<close>); the
  theorems about the start take the services that follow from a state behind that point.

  \<^bold>\<open>Bounds.\<close>

  The heap lies below \<open>2 ^ 32\<close>. The log has 50 rows of 900 bytes, one message at most 100 bytes with the
  terminator; \<open>printf\<close> has a buffer of 1024 bytes. A string of the boot loader is read with fuel
  \<open>2 ^ 32\<close>, which is every address once: without a terminator among them there is none. The test of the allocator
  needs a free segment of 80 bytes: 23 for the copy of the list (8 bytes, a header and the rounding), 31
  and 26 for its two blocks. An interrupt takes 56 bytes of the stack up to the dispatcher, 60 with an error
  code; the stack of the start has 16380.

  \<^bold>\<open>Not modelled.\<close>

  crti.S and crtn.S, whose \<open>_init\<close> is commented out of \<open>_start\<close>; the reload of the segment registers; the
  structures of multiboot.h that no code reads; interrupts inside of a handler or of a poll, which run as
  one step each, and interrupts during \<open>sleep\<close> other than at its \<open>hlt\<close>; the store of an eleventh future,
  which C leaves undefined and the model too; sections that linker.ld does not name, but for their size;
  the stub macro of interrupts.c that no code expands; a build with
  both TEST and DEBUG. The self tests take as parameters what the model keeps outside of its state: the
  arrays \<open>test_arr\<close> and \<open>msg\<close>, the address of a literal and of a local variable. Whether the
  write to the exit port ends the machine is a parameter too (\<open>attached\<close>): \<open>qemu.sh\<close> attaches a device
  that does, but for its debugging call.
\<close>

end
